(* ===== verification/Prelude.thy ===== *)
theory Prelude imports Main "HOL-Library.Word" begin

text \<open>
  What every theory of the development shares: the names of the model's basic types, the
  collections of rewrite rules the component proofs run on, and generic facts about lists,
  maps and machine words.

  Go's \<open>string\<close> and \<open>[]byte\<close> are sequences of bytes. Text is modelled as HOL's \<open>string\<close>
  (a \<open>char\<close> is exactly one byte); raw streams, where bits and widths matter, are lists of
  \<open>8 word\<close>. A Go \<open>error\<close> result is an \<open>option\<close> of an error value (\<open>nil\<close> is \<open>None\<close>),
  a pair of a result and an error is a sum whose left side is the error.
\<close>

section \<open>Types\<close>

type_synonym byte = "8 word"
type_synonym u16 = "16 word"
type_synonym u32 = "32 word"
type_synonym u64 = "64 word"

section \<open>Collections of rules\<close>

named_theorems str_simps \<open>laws of the Go string functions\<close>
named_theorems step_defs \<open>the step functions of the lifecycle model\<close>
named_theorems frame_simps \<open>what an operation leaves unchanged\<close>

section \<open>Machine words\<close>

text \<open>
  \<open>binary.BigEndian\<close> of the standard library on two bytes, both directions, and the round
  trip: the wire format of the terminal dimensions.
\<close>

definition be16_get :: "byte \<Rightarrow> byte \<Rightarrow> u16" where
  "be16_get hi lo = or (push_bit 8 (ucast hi)) (ucast lo)"

definition be16_put :: "u16 \<Rightarrow> byte list" where
  "be16_put v = [ucast (drop_bit 8 v), ucast v]"

lemma length_be16_put [simp]: "length (be16_put v) = 2"
  by (simp add: be16_put_def)

lemma be16_get_put: "be16_put v = [hi, lo] \<Longrightarrow> be16_get hi lo = v"
proof -
  have "or (push_bit 8 (ucast (ucast (drop_bit 8 v) :: byte))) (ucast (ucast v :: byte)) = v" for v :: u16
    by (rule bit_word_eqI) (auto simp: bit_simps)
  then show "be16_put v = [hi, lo] \<Longrightarrow> be16_get hi lo = v"
    by (auto simp: be16_put_def be16_get_def)
qed

lemma be16_put_get: "be16_put (be16_get hi lo) = [hi, lo]"
proof -
  have "ucast (drop_bit 8 (or (push_bit 8 (ucast hi)) (ucast lo)) :: u16) = hi"
    by (rule bit_word_eqI) (auto simp: bit_simps dest: bit_imp_le_length)
  moreover have "ucast (or (push_bit 8 (ucast hi)) (ucast lo) :: u16) = lo"
    by (rule bit_word_eqI) (auto simp: bit_simps)
  ultimately show ?thesis by (simp add: be16_put_def be16_get_def)
qed

end
