(* ===== verification/Go_Strings.thy ===== *)
theory Go_Strings imports Prelude begin

text \<open>
  The functions of Go's \<open>strings\<close> and \<open>strconv\<close> packages that the program calls, on byte
  strings: \<open>Fields\<close>, \<open>TrimSpace\<close>, \<open>Join\<close>, \<open>Cut\<close>, \<open>SplitN\<close>, \<open>LastIndex\<close>,
  \<open>HasPrefix\<close>, \<open>HasSuffix\<close>, \<open>TrimPrefix\<close>, the verb \<open>%d\<close> and \<open>ParseUint(s, 10, 16)\<close>.
  They follow the library's documentation byte by byte, Unicode white space included. The
  lemmas are the laws the component theories use: splitting distributes over a separator,
  trimming does not change the fields, printing a number and parsing it gives it back.
\<close>

section \<open>White space\<close>

text \<open>
  \<open>unicode.IsSpace\<close> holds of 25 code points. \<open>strings.Fields\<close> decodes the string rune by
  rune; since the first byte of each of these encodings is ASCII or a UTF-8 lead byte, and no
  continuation byte is one, they occur in the byte string exactly at rune boundaries, and a
  byte-wise scan for their encodings finds the same runes.
\<close>

definition space_runes :: "string list" where
  "space_runes =
     [[CHR 0x09], [CHR 0x0A], [CHR 0x0B], [CHR 0x0C], [CHR 0x0D], [CHR 0x20],
      [CHR 0xC2, CHR 0x85], [CHR 0xC2, CHR 0xA0], [CHR 0xE1, CHR 0x9A, CHR 0x80],
      [CHR 0xE2, CHR 0x80, CHR 0x80], [CHR 0xE2, CHR 0x80, CHR 0x81],
      [CHR 0xE2, CHR 0x80, CHR 0x82], [CHR 0xE2, CHR 0x80, CHR 0x83],
      [CHR 0xE2, CHR 0x80, CHR 0x84], [CHR 0xE2, CHR 0x80, CHR 0x85],
      [CHR 0xE2, CHR 0x80, CHR 0x86], [CHR 0xE2, CHR 0x80, CHR 0x87],
      [CHR 0xE2, CHR 0x80, CHR 0x88], [CHR 0xE2, CHR 0x80, CHR 0x89],
      [CHR 0xE2, CHR 0x80, CHR 0x8A], [CHR 0xE2, CHR 0x80, CHR 0xA8],
      [CHR 0xE2, CHR 0x80, CHR 0xA9], [CHR 0xE2, CHR 0x80, CHR 0xAF],
      [CHR 0xE2, CHR 0x81, CHR 0x9F], [CHR 0xE3, CHR 0x80, CHR 0x80]]"

definition is_space_rune :: "string \<Rightarrow> bool" where
  "is_space_rune u \<longleftrightarrow> u \<in> set space_runes"

text \<open>The width of the space rune a string starts with, and of the one it ends with; 0 if none.\<close>

definition space_width :: "string \<Rightarrow> nat" where
  "space_width s =
     (if is_space_rune (take 1 s) then 1
      else if is_space_rune (take 2 s) then 2
      else if is_space_rune (take 3 s) then 3 else 0)"

definition rspace_width :: "string \<Rightarrow> nat" where
  "rspace_width s =
     (let n = length s in
      if is_space_rune (drop (n - 1) s) then 1
      else if is_space_rune (drop (n - 2) s) then 2
      else if is_space_rune (drop (n - 3) s) then 3 else 0)"

lemma space_rune_length: "is_space_rune u \<Longrightarrow> 1 \<le> length u \<and> length u \<le> 3"
  by (auto simp: is_space_rune_def space_runes_def)

lemma space_width_Nil [simp]: "space_width [] = 0"
  by (simp add: space_width_def is_space_rune_def space_runes_def)

lemma space_rune_take_Suc:
  "is_space_rune (take (Suc n) s) \<Longrightarrow> \<not> is_space_rune (take n s) \<Longrightarrow> Suc n \<le> length s"
  by (rule ccontr) (simp add: not_le less_Suc_eq_le)

lemma space_width_le: "space_width s \<le> length s"
proof -
  have "is_space_rune (take 1 s) \<Longrightarrow> 1 \<le> length s"
    using space_rune_length [of "take 1 s"] by simp
  then show ?thesis
    using space_rune_take_Suc [of 1 s] space_rune_take_Suc [of 2 s]
    by (auto simp: space_width_def numeral_2_eq_2 numeral_3_eq_3)
qed

lemma space_width_drop_less [termination_simp]:
  assumes "0 < space_width s"
  shows "length (drop (space_width s) s) < length s"
  using assms by (cases s) auto

section \<open>Fields and TrimSpace\<close>

text \<open>
  \<open>fields_from cur s\<close> is the loop of \<open>strings.Fields\<close> with the current field so far in
  \<open>cur\<close>. A space rune ends the field; empty fields are dropped.
\<close>

function fields_from :: "string \<Rightarrow> string \<Rightarrow> string list" where
  "fields_from cur [] = (if cur = [] then [] else [cur])"
| "fields_from cur (c # s) =
     (let w = space_width (c # s) in
      if w = 0 then fields_from (cur @ [c]) s
      else (if cur = [] then [] else [cur]) @ fields_from [] (drop w (c # s)))"
  by pat_completeness auto
termination
  by (relation "measure (\<lambda>(cur, s). length s)") auto

definition fields :: "string \<Rightarrow> string list" where
  "fields s = fields_from [] s"

function trim_left :: "string \<Rightarrow> string" where
  "trim_left s = (let w = space_width s in if w = 0 then s else trim_left (drop w s))"
  by pat_completeness auto
termination
  by (relation "measure length") (auto intro: space_width_drop_less [simplified])

function trim_right :: "string \<Rightarrow> string" where
  "trim_right s =
     (let w = rspace_width s in
      if w = 0 \<or> s = [] then s else trim_right (take (length s - w) s))"
  by pat_completeness auto
termination
  by (relation "measure length") auto

declare trim_left.simps [simp del] trim_right.simps [simp del]

definition trim_space :: "string \<Rightarrow> string" where
  "trim_space s = trim_right (trim_left s)"

section \<open>Joining, cutting, prefixes\<close>

fun join :: "string \<Rightarrow> string list \<Rightarrow> string" where
  "join sep [] = []"
| "join sep [x] = x"
| "join sep (x # y # xs) = x @ sep @ join sep (y # xs)"

text \<open>\<open>strings.Cut\<close> at a one-byte separator: before, after, found.\<close>

definition cut :: "string \<Rightarrow> char \<Rightarrow> string \<times> string \<times> bool" where
  "cut s sep =
     (if sep \<in> set s then (takeWhile (\<lambda>c. c \<noteq> sep) s, tl (dropWhile (\<lambda>c. c \<noteq> sep) s), True)
      else (s, [], False))"

text \<open>\<open>strings.SplitN(s, sep, 2)\<close> at a one-byte separator.\<close>

definition split_n2 :: "string \<Rightarrow> char \<Rightarrow> string list" where
  "split_n2 s sep =
     (if sep \<in> set s then [takeWhile (\<lambda>c. c \<noteq> sep) s, tl (dropWhile (\<lambda>c. c \<noteq> sep) s)] else [s])"

text \<open>\<open>strings.LastIndex\<close> of a one-byte string: \<open>None\<close> stands for -1.\<close>

definition last_index :: "string \<Rightarrow> char \<Rightarrow> nat option" where
  "last_index s c =
     (if c \<in> set s then Some (length s - Suc (length (takeWhile (\<lambda>d. d \<noteq> c) (rev s)))) else None)"

definition has_prefix :: "string \<Rightarrow> string \<Rightarrow> bool" where
  "has_prefix s p \<longleftrightarrow> take (length p) s = p"

definition has_suffix :: "string \<Rightarrow> string \<Rightarrow> bool" where
  "has_suffix s p \<longleftrightarrow> length p \<le> length s \<and> drop (length s - length p) s = p"

definition trim_prefix :: "string \<Rightarrow> string \<Rightarrow> string" where
  "trim_prefix s p = (if has_prefix s p then drop (length p) s else s)"

section \<open>Numbers\<close>

definition digit_char :: "nat \<Rightarrow> char" where
  "digit_char d = ''0123456789'' ! d"

definition digit_val :: "char \<Rightarrow> int option" where
  "digit_val c =
     (let n = of_char c :: int in if 48 \<le> n \<and> n \<le> 57 then Some (n - 48) else None)"

fun nat_digits :: "nat \<Rightarrow> string" where
  "nat_digits n = (if n < 10 then [digit_char n] else nat_digits (n div 10) @ [digit_char (n mod 10)])"

declare nat_digits.simps [simp del]

text \<open>The verb \<open>%d\<close> of \<open>fmt\<close>.\<close>

definition fmt_d :: "int \<Rightarrow> string" where
  "fmt_d i = (if i < 0 then CHR ''-'' # nat_digits (nat (- i)) else nat_digits (nat i))"

text \<open>
  \<open>strconv.ParseUint(s, 10, 16)\<close>: an empty string or a byte that is no digit is a syntax
  error; a value above \<open>65535\<close> is a range error as soon as a digit takes it there. The
  library's cutoff for 64-bit overflow is never met, the value being below \<open>65536\<close> before
  each digit.
\<close>

datatype num_error = ErrSyntax | ErrRange

fun parse_uint16_loop :: "int \<Rightarrow> string \<Rightarrow> num_error + int" where
  "parse_uint16_loop n [] = Inr n"
| "parse_uint16_loop n (c # s) =
     (case digit_val c of
        None \<Rightarrow> Inl ErrSyntax
      | Some d \<Rightarrow>
          if 10 * n + d > 65535 then Inl ErrRange else parse_uint16_loop (10 * n + d) s)"

definition parse_uint16 :: "string \<Rightarrow> num_error + int" where
  "parse_uint16 s = (if s = [] then Inl ErrSyntax else parse_uint16_loop 0 s)"

section \<open>Laws\<close>

text \<open>A space rune is recognised where it stands, and never across a boundary in front of it.\<close>

lemma space_width_rune [str_simps]: "is_space_rune u \<Longrightarrow> space_width (u @ t) = length u"
  unfolding is_space_rune_def space_runes_def list.set insert_iff empty_iff
  by (elim disjE FalseE) (simp_all add: space_width_def is_space_rune_def space_runes_def)

lemma space_width_before_rune [str_simps]:
  assumes u: "is_space_rune u" and s: "s \<noteq> []"
  shows "space_width (s @ u @ t) = space_width s"
proof -
  consider c where "s = [c]" | c d where "s = [c, d]" | c d e r where "s = c # d # e # r"
    using s by (metis neq_Nil_conv)
  then show ?thesis
  proof cases
    case 1
    then show ?thesis
      using u unfolding is_space_rune_def space_runes_def list.set insert_iff empty_iff
      by (elim disjE FalseE) (simp_all add: space_width_def is_space_rune_def space_runes_def)
  next
    case 2
    then show ?thesis
      using u unfolding is_space_rune_def space_runes_def list.set insert_iff empty_iff
      by (elim disjE FalseE) (simp_all add: space_width_def is_space_rune_def space_runes_def)
  next
    case 3
    then show ?thesis by (simp add: space_width_def)
  qed
qed

lemma fields_from_append_space [str_simps]:
  assumes u: "is_space_rune u"
  shows "fields_from cur (s @ u @ t) = fields_from cur s @ fields t"
proof (induction cur s rule: fields_from.induct)
  case (1 cur)
  obtain c v where v: "u = c # v"
    using space_rune_length [OF u] by (cases u) auto
  have "space_width (u @ t) = length u" by (rule space_width_rune [OF u])
  then show ?case by (simp add: v fields_def)
next
  case (2 cur c s)
  have w: "space_width ((c # s) @ u @ t) = space_width (c # s)"
    by (rule space_width_before_rune [OF u]) simp
  show ?case
  proof (cases "space_width (c # s) = 0")
    case True
    with 2 w show ?thesis by simp
  next
    case False
    moreover have "drop (space_width (c # s)) ((c # s) @ u @ t) = drop (space_width (c # s)) (c # s) @ u @ t"
      using space_width_le [of "c # s"] by (simp only: drop_append) simp
    ultimately show ?thesis using 2 w by (simp add: Let_def)
  qed
qed

lemma fields_Nil [simp]: "fields [] = []"
  by (simp add: fields_def)

lemma fields_space_cons [str_simps]: "fields (s @ CHR '' '' # t) = fields s @ fields t"
  using fields_from_append_space [of "'' ''" "[]" s t]
  by (simp add: fields_def is_space_rune_def space_runes_def)

lemma fields_snoc_space [str_simps]: "is_space_rune u \<Longrightarrow> fields (s @ u) = fields s"
  using fields_from_append_space [of u "[]" s "[]"] by (simp add: fields_def)

lemma fields_join [str_simps]: "fields (join '' '' xs) = concat (map fields xs)"
  by (induction "'' ''" xs rule: join.induct) (simp_all add: fields_space_cons)

text \<open>Trimming does not change the fields: the two calls of \<open>parseHandshake\<close> do no more than one.\<close>

lemma fields_trim_left: "fields (trim_left s) = fields s"
proof (induction s rule: trim_left.induct)
  case (1 s)
  show ?case
  proof (cases "space_width s = 0")
    case True
    then show ?thesis by (simp add: trim_left.simps [of s])
  next
    case False
    then have "fields s = fields (drop (space_width s) s)"
      by (cases s) (simp_all add: fields_def)
    with 1 False show ?thesis by (simp add: trim_left.simps [of s])
  qed
qed

lemma rspace_width_pos:
  "0 < rspace_width s \<Longrightarrow> is_space_rune (drop (length s - rspace_width s) s)"
  by (simp add: rspace_width_def Let_def split: if_splits)

lemma fields_trim_right: "fields (trim_right s) = fields s"
proof (induction s rule: trim_right.induct)
  case (1 s)
  show ?case
  proof (cases "rspace_width s = 0 \<or> s = []")
    case True
    then show ?thesis by (auto simp: trim_right.simps [of s] Let_def)
  next
    case False
    let ?k = "length s - rspace_width s"
    have "fields (take ?k s @ drop ?k s) = fields (take ?k s)"
      using False by (intro fields_snoc_space rspace_width_pos) simp
    then show ?thesis
      using 1 False by (simp add: trim_right.simps [of s] Let_def)
  qed
qed

lemma fields_trim_space [str_simps]: "fields (trim_space s) = fields s"
  by (simp add: trim_space_def fields_trim_left fields_trim_right)

lemma fields_nonempty: "x \<in> set (fields s) \<Longrightarrow> x \<noteq> []"
proof -
  have "x \<in> set (fields_from cur s) \<Longrightarrow> x \<noteq> []" for cur
    by (induction cur s rule: fields_from.induct) (auto simp: Let_def split: if_splits)
  then show "x \<in> set (fields s) \<Longrightarrow> x \<noteq> []" by (simp add: fields_def)
qed

text \<open>A token is a string that is one field of itself. Strings without a space lead byte are.\<close>

definition is_token :: "string \<Rightarrow> bool" where
  "is_token x \<longleftrightarrow> fields x = [x]"

definition space_lead :: "char \<Rightarrow> bool" where
  "space_lead c \<longleftrightarrow> c \<in> hd ` set space_runes"

lemma space_width_no_lead: "\<not> space_lead c \<Longrightarrow> space_width (c # s) = 0"
  by (cases s; cases "tl s")
    (auto simp: space_lead_def space_width_def is_space_rune_def space_runes_def)

lemma fields_from_no_lead:
  "list_all (\<lambda>c. \<not> space_lead c) s \<Longrightarrow>
     fields_from cur s = (if cur @ s = [] then [] else [cur @ s])"
  by (induction s arbitrary: cur) (simp_all add: space_width_no_lead)

lemma is_tokenI: "s \<noteq> [] \<Longrightarrow> list_all (\<lambda>c. \<not> space_lead c) s \<Longrightarrow> is_token s"
  by (simp add: is_token_def fields_def fields_from_no_lead)

lemma is_token_nonempty: "is_token x \<Longrightarrow> x \<noteq> []"
  by (auto simp: is_token_def)

lemma concat_map_fields_tokens [str_simps]:
  "list_all is_token xs \<Longrightarrow> concat (map fields xs) = xs"
  by (induction xs) (simp_all add: is_token_def)

text \<open>Numbers: the digits printed by \<open>%d\<close> parse back, within the 16 bits the parser accepts.\<close>

lemma less_10_cases:
  "d < (10 :: nat) \<Longrightarrow> d = 0 \<or> d = 1 \<or> d = 2 \<or> d = 3 \<or> d = 4 \<or> d = 5 \<or> d = 6 \<or> d = 7 \<or> d = 8 \<or> d = 9"
  by arith

lemma digit_val_digit_char: "d < 10 \<Longrightarrow> digit_val (digit_char d) = Some (int d)"
  by (drule less_10_cases, elim disjE) (simp_all add: digit_val_def digit_char_def)

lemma digit_char_no_lead: "d < 10 \<Longrightarrow> \<not> space_lead (digit_char d)"
  by (drule less_10_cases, elim disjE) (simp_all add: space_lead_def space_runes_def digit_char_def)

lemma nat_digits_no_lead: "list_all (\<lambda>c. \<not> space_lead c) (nat_digits n)"
  by (induction n rule: nat_digits.induct) (subst nat_digits.simps, simp add: digit_char_no_lead)

lemma nat_digits_nonempty: "nat_digits n \<noteq> []"
  by (subst nat_digits.simps) simp

lemma is_token_fmt_d: "is_token (fmt_d i)"
proof -
  have "\<not> space_lead (CHR ''-'')" by (simp add: space_lead_def space_runes_def)
  then show ?thesis
    by (intro is_tokenI) (simp_all add: fmt_d_def nat_digits_nonempty nat_digits_no_lead)
qed

lemma parse_uint16_loop_snoc:
  "parse_uint16_loop n (s @ [c]) =
     (case parse_uint16_loop n s of Inl e \<Rightarrow> Inl e | Inr m \<Rightarrow> parse_uint16_loop m [c])"
  by (induction n s rule: parse_uint16_loop.induct) (simp_all split: option.split)

lemma parse_uint16_nat_digits:
  "parse_uint16_loop 0 (nat_digits n) = (if n \<le> 65535 then Inr (int n) else Inl ErrRange)"
proof (induction n rule: nat_digits.induct)
  case (1 n)
  show ?case
  proof (cases "n < 10")
    case True
    then show ?thesis by (subst nat_digits.simps) (simp add: digit_val_digit_char)
  next
    case False
    have "10 * int (n div 10) + int (n mod 10) = int n" by presburger
    with 1 False show ?thesis
      by (subst nat_digits.simps) (auto simp: parse_uint16_loop_snoc digit_val_digit_char)
  qed
qed

lemma parse_uint16_fmt_d [str_simps]:
  "parse_uint16 (fmt_d i) =
     (if i < 0 then Inl ErrSyntax else if i \<le> 65535 then Inr i else Inl ErrRange)"
  by (auto simp: parse_uint16_def fmt_d_def nat_digits_nonempty parse_uint16_nat_digits
      digit_val_def nat_le_iff)

text \<open>Cutting at the first separator undoes joining with it.\<close>

lemma cut_append [str_simps]: "sep \<notin> set k \<Longrightarrow> cut (k @ sep # v) sep = (k, v, True)"
  by (auto simp: cut_def takeWhile_append dropWhile_append)

lemma split_n2_eq:
  "split_n2 s sep = (case cut s sep of (b, a, found) \<Rightarrow> if found then [b, a] else [s])"
  by (simp add: split_n2_def cut_def)

lemma cut_found_iff: "cut s sep = (b, a, True) \<longleftrightarrow> s = b @ sep # a \<and> sep \<notin> set b"
proof
  assume c: "cut s sep = (b, a, True)"
  then have "sep \<in> set s" by (simp add: cut_def split: if_splits)
  then obtain x y where "s = x @ sep # y" "sep \<notin> set x" by (meson split_list_first)
  with c show "s = b @ sep # a \<and> sep \<notin> set b" by (simp add: cut_append)
qed (simp add: cut_append)

end
