(* ===== verification/Handshake.thy ===== *)
theory Handshake imports Go_Strings begin

text \<open>
  The exec handshake: the line \<open>"<user> <cols> <rows> [cmd [args...]]\n"\<close> that
  \<open>krun-exec\<close> (cmd/krun-exec/main.go) sends and \<open>vminit\<close> (cmd/vminit/resize.go,
  cmd/vminit/main.go) parses, the \<open>su\<close> command line built from it, and \<open>krun-exec\<close>'s
  parser for \<open><user>@<machine-id>\<close>. The lemmas show what of the client's arguments reaches
  the guest, for every terminal size and command.
\<close>

section \<open>The guest side\<close>

text \<open>
  \<open>parseHandshake\<close>. Results in order: user, columns, rows, command. A \<open>nil\<close> command
  slice and an empty one behave alike and are both the empty list. A dimension that does not
  parse as a 16-bit number keeps its default.
\<close>

definition dim_or :: "u16 \<Rightarrow> string \<Rightarrow> u16" where
  "dim_or dflt s = (case parse_uint16 s of Inr c \<Rightarrow> word_of_int c | Inl _ \<Rightarrow> dflt)"

definition parseHandshake :: "string \<Rightarrow> string \<times> u16 \<times> u16 \<times> string list" where
  "parseHandshake line =
     (case fields (trim_space line) of
        [] \<Rightarrow> (''root'', 80, 24, [])
      | user # rest \<Rightarrow>
          (case rest of
             c # r # cmd \<Rightarrow> (user, dim_or 80 c, dim_or 24 r, cmd)
           | _ \<Rightarrow> (user, 80, 24, [])))"

text \<open>The command line of \<open>handleExecSession\<close>, after its guard for an empty user.\<close>

definition session_argv :: "string \<Rightarrow> string list \<Rightarrow> string list" where
  "session_argv user execCmd =
     (if execCmd \<noteq> []
      then ''su'' # [''-s'', ''/bin/sh'', ''-'', user, ''-c'', join '' '' execCmd]
      else [''su'', ''-s'', ''/bin/sh'', ''-'', user])"

definition exec_session_command :: "string \<Rightarrow> string list \<times> u16 \<times> u16" where
  "exec_session_command line =
     (let (user, cols, rows, execCmd) = parseHandshake line;
          user = (if user = [] then ''root'' else user)
      in (session_argv user execCmd, cols, rows))"

section \<open>The client side\<close>

text \<open>The handshake that \<open>run\<close> of krun-exec formats; \<open>term.GetSize\<close> gives Go \<open>int\<close>s.\<close>

definition client_handshake :: "string \<Rightarrow> int \<Rightarrow> int \<Rightarrow> string list \<Rightarrow> string" where
  "client_handshake user cols rows cmd =
     (let handshake = user @ '' '' @ fmt_d cols @ '' '' @ fmt_d rows;
          handshake = (if cmd \<noteq> [] then handshake @ '' '' @ join '' '' cmd else handshake)
      in handshake @ [CHR 0x0A])"

definition parseTarget :: "string \<Rightarrow> (string \<times> string) option" where
  "parseTarget s =
     (case split_n2 s (CHR ''@'') of
        [user, machine] \<Rightarrow> (if user = [] \<or> machine = [] then None else Some (user, machine))
      | _ \<Rightarrow> None)"

section \<open>What arrives\<close>

lemma fields_client_handshake:
  "fields (client_handshake user cols rows cmd) =
     fields user @ [fmt_d cols, fmt_d rows] @ concat (map fields cmd)"
proof -
  have nl: "is_space_rune [CHR 0x0A]" by (simp add: is_space_rune_def space_runes_def)
  have d: "fields (fmt_d i) = [fmt_d i]" for i
    using is_token_fmt_d by (simp add: is_token_def)
  show ?thesis
    using nl d by (simp add: client_handshake_def Let_def str_simps)
qed

definition received_dim :: "u16 \<Rightarrow> int \<Rightarrow> u16" where
  "received_dim dflt i = (if 0 \<le> i \<and> i < 65536 then word_of_int i else dflt)"

lemma dim_or_fmt_d: "dim_or dflt (fmt_d i) = received_dim dflt i"
  by (simp add: dim_or_def received_dim_def parse_uint16_fmt_d)

lemma parseHandshake_fields:
  "parseHandshake line =
     (case fields line of
        [] \<Rightarrow> (''root'', 80, 24, [])
      | user # rest \<Rightarrow>
          (case rest of
             c # r # cmd \<Rightarrow> (user, dim_or 80 c, dim_or 24 r, cmd)
           | _ \<Rightarrow> (user, 80, 24, [])))"
  by (simp add: parseHandshake_def fields_trim_space)

lemma parse_client_handshake:
  "is_token user \<Longrightarrow>
     parseHandshake (client_handshake user cols rows cmd) =
       (user, received_dim 80 cols, received_dim 24 rows, concat (map fields cmd))"
  by (simp add: parseHandshake_fields fields_client_handshake dim_or_fmt_d is_token_def)

lemma parseHandshake_user_nonempty: "parseHandshake line = (user, rest) \<Longrightarrow> user \<noteq> []"
  using fields_nonempty [of _ line]
  by (auto simp: parseHandshake_fields split: list.splits)

lemma parseTarget_eq:
  "parseTarget s = Some (u, m) \<longleftrightarrow> cut s (CHR ''@'') = (u, m, True) \<and> u \<noteq> [] \<and> m \<noteq> []"
  by (cases "cut s (CHR ''@'')") (auto simp: parseTarget_def split_n2_eq)

section \<open>Properties\<close>

text \<open>
  C32 (round trip). For a user that is one token, any terminal size and any command, the guest
  recovers the user, each dimension exactly when it fits in 16 bits (the defaults 80 and 24
  otherwise), and the command as the sequence of the white-space separated words of its
  arguments: arguments keep their order and their words, not their boundaries.
\<close>

theorem handshake_roundtrip:
  assumes "is_token user"
  shows "parseHandshake (client_handshake user cols rows cmd) =
           (user, received_dim 80 cols, received_dim 24 rows, concat (map fields cmd))"
  using assms by (rule parse_client_handshake)

theorem handshake_roundtrip_witness:
  "is_token ''alice'' \<and>
   parseHandshake (client_handshake ''alice'' 120 40 [''vim'', ''/etc/hosts'']) =
     (''alice'', 120, 40, [''vim'', ''/etc/hosts''])"
proof -
  have t: "is_token ''alice''" "is_token ''vim''" "is_token ''/etc/hosts''"
    by (rule is_tokenI; simp add: space_lead_def space_runes_def)+
  then have "concat (map fields [''vim'', ''/etc/hosts'']) = [''vim'', ''/etc/hosts'']"
    by (intro concat_map_fields_tokens) simp
  then show ?thesis
    using t(1) handshake_roundtrip [OF t(1), of 120 40 "[''vim'', ''/etc/hosts'']"]
    by (simp only: received_dim_def) simp
qed

text \<open>
  When every argument is one token, the shell in the guest gets exactly the
  command line the user typed, with a single space between arguments: the guest's join undoes
  its split.
\<close>

theorem exec_session_runs_typed_command:
  assumes "is_token user" and "list_all is_token cmd" and "cmd \<noteq> []"
  shows "exec_session_command (client_handshake user cols rows cmd) =
           ([''su'', ''-s'', ''/bin/sh'', ''-'', user, ''-c'', join '' '' cmd],
            received_dim 80 cols, received_dim 24 rows)"
  using assms is_token_nonempty
  by (simp add: exec_session_command_def parse_client_handshake session_argv_def
      concat_map_fields_tokens)

theorem exec_session_runs_typed_command_witness:
  "exec_session_command (client_handshake ''root'' 80 70000 [''ls'', ''-l'']) =
     ([''su'', ''-s'', ''/bin/sh'', ''-'', ''root'', ''-c'', ''ls -l''], 80, 24)"
proof -
  have t: "is_token ''root''" "is_token ''ls''" "is_token ''-l''"
    by (rule is_tokenI; simp add: space_lead_def space_runes_def)+
  then show ?thesis
    using exec_session_runs_typed_command [of "''root''" "[''ls'', ''-l'']" 80 70000]
    by (simp add: received_dim_def)
qed

text \<open>
  Whatever line arrives, the user name handed to \<open>su\<close> is not empty: the guard
  \<open>if user == ""\<close> of \<open>handleExecSession\<close> never fires, and the command always names a user.
\<close>

theorem exec_session_user_never_empty:
  "\<exists>user cmd cols rows. parseHandshake line = (user, cols, rows, cmd) \<and> user \<noteq> [] \<and>
     exec_session_command line = (session_argv user cmd, cols, rows)"
proof -
  obtain user cols rows cmd where p: "parseHandshake line = (user, cols, rows, cmd)"
    by (metis prod_cases4)
  from parseHandshake_user_nonempty [OF this] p show ?thesis
    by (auto simp: exec_session_command_def)
qed

text \<open>
  \<open>parseTarget\<close> accepts exactly the strings with an \<open>@\<close> and something on
  both sides of the first one, and splits there: a machine id may hold an \<open>@\<close>, a user cannot.
\<close>

theorem parseTarget_spec:
  "parseTarget s = Some (u, m) \<longleftrightarrow>
     s = u @ CHR ''@'' # m \<and> CHR ''@'' \<notin> set u \<and> u \<noteq> [] \<and> m \<noteq> []"
  by (auto simp: parseTarget_eq cut_found_iff)

end
