(* ===== verification/Io_Reader.thy ===== *)
theory Io_Reader imports Prelude begin

text \<open>
  The interface \<open>io.Reader\<close> of Go's standard library, which the guest's copy loop reads the
  exec connection through. A read with a buffer of \<open>n\<close> bytes returns the bytes it put there,
  an error if there is one, and the reader afterwards. The contract leaves a reader the choice
  of how much to deliver, and of returning its final error with the last bytes or on its own.
  The locales state that contract; the chunked reader is the concrete instance: a connection
  as the sequence of pieces in which its bytes arrive.
\<close>

datatype read_error = EOF | Read_Failed string

type_synonym 's read_fn = "nat \<Rightarrow> 's \<Rightarrow> byte list \<times> read_error option \<times> 's"

section \<open>The contract\<close>

text \<open>
  \<open>content\<close> is what the reader will still deliver, \<open>rank\<close> bounds how many more reads
  succeed. A read returns a prefix of the content; an error ends the stream; a read into a
  buffer that is not empty makes progress.
\<close>

locale io_reader =
  fixes rd :: "'s read_fn"
    and content :: "'s \<Rightarrow> byte list"
    and rank :: "'s \<Rightarrow> nat"
  assumes read_fits: "rd n s = (d, e, s') \<Longrightarrow> length d \<le> n"
    and read_content: "rd n s = (d, e, s') \<Longrightarrow> content s = d @ content s'"
    and read_error_end: "rd n s = (d, Some x, s') \<Longrightarrow> content s' = []"
    and read_progress: "rd n s = (d, None, s') \<Longrightarrow> 0 < n \<Longrightarrow> rank s' < rank s"
begin

lemma read_at_end: "rd n s = (d, e, s') \<Longrightarrow> content s = [] \<Longrightarrow> d = [] \<and> content s' = []"
  using read_content by fastforce

lemma read_take: "rd n s = (d, e, s') \<Longrightarrow> d = take (length d) (content s)"
  using read_content by fastforce

end

text \<open>
  A \<^emph>\<open>plain\<close> reader returns its final error alone, with no bytes, as a connection, a pipe and
  the standard library's \<open>bytes.Reader\<close> do.
\<close>

locale plain_reader = io_reader +
  assumes error_alone: "rd n s = (d, Some x, s') \<Longrightarrow> d = []"
begin

lemma error_means_drained: "rd n s = (d, Some x, s') \<Longrightarrow> content s = [] \<and> content s' = []"
  using error_alone read_content read_error_end by fastforce

end

section \<open>A connection as the pieces that arrive\<close>

text \<open>
  \<open>eager\<close> says whether the final error comes with the last piece. A piece longer than the
  buffer is delivered over several reads; an empty piece is a read of no bytes and no error.
\<close>

record conn =
  pieces :: "byte list list"
  final :: read_error
  eager :: bool

definition conn_read :: "conn read_fn" where
  "conn_read n c =
     (case pieces c of
        [] \<Rightarrow> ([], Some (final c), c)
      | p # ps \<Rightarrow>
          if length p \<le> n
          then (p, if ps = [] \<and> eager c then Some (final c) else None, c\<lparr>pieces := ps\<rparr>)
          else (take n p, None, c\<lparr>pieces := drop n p # ps\<rparr>))"

definition conn_content :: "conn \<Rightarrow> byte list" where
  "conn_content c = concat (pieces c)"

definition conn_rank :: "conn \<Rightarrow> nat" where
  "conn_rank c = length (pieces c) + length (conn_content c)"

interpretation connection: io_reader conn_read conn_content conn_rank
  by unfold_locales
    (auto simp: conn_read_def conn_content_def conn_rank_def split: list.splits if_splits)

text \<open>
  The plain connection is the same one with \<open>eager\<close> switched off in what it reads, so that
  it is a plain reader whatever record it is given.
\<close>

definition plain_read :: "conn read_fn" where
  "plain_read n c = conn_read n (c\<lparr>eager := False\<rparr>)"

interpretation plain_connection: plain_reader plain_read conn_content conn_rank
  by unfold_locales
    (auto simp: plain_read_def conn_read_def conn_content_def conn_rank_def
      split: list.splits if_splits)

definition conn_of :: "byte list list \<Rightarrow> bool \<Rightarrow> conn" where
  "conn_of ps eg = \<lparr>pieces = ps, final = EOF, eager = eg\<rparr>"

lemma conn_content_conn_of [simp]: "conn_content (conn_of ps eg) = concat ps"
  by (simp add: conn_content_def conn_of_def)

end
