(* ===== verification/Resize.thy ===== *)
theory Resize imports Io_Reader begin

text \<open>
  The in-band resize protocol of an exec session. \<open>krun-exec\<close> (cmd/krun-exec/main.go) sends
  terminal input with 8-byte messages, a 4-byte magic and two big-endian 16-bit numbers,
  wherever the window changed; \<open>copyWithResize\<close> (cmd/vminit/resize.go) separates the two
  again. The reference \<open>demux\<close> says what a byte stream means; the lemmas show that the copy
  loop computes it for every way the stream is cut into reads, that it always returns, and
  under which condition the guest recovers exactly what the client sent.
\<close>

section \<open>The copy loop\<close>

definition resizeMagic :: "byte list" where
  "resizeMagic = [0x01, 0x80, 0x01, 0x80]"

text \<open>What the loop does to the terminal: writes of bytes and size changes, in order.\<close>

datatype pty_op = PtyWrite "byte list" | Setsize u16 u16

text \<open>\<open>pty.Setsize\<close> with the four bytes of \<open>dimBuf\<close> read as two big-endian numbers.\<close>

definition setsize_of :: "byte list \<Rightarrow> pty_op" where
  "setsize_of dimBuf =
     Setsize (be16_get (dimBuf ! 0) (dimBuf ! 1)) (be16_get (dimBuf ! 2) (dimBuf ! 3))"

text \<open>
  The inner loop over the bytes of one read, the index \<open>i\<close> replaced by the bytes from \<open>i\<close>
  on. It ends at the end of the data with the length of the partial match (\<open>At_End\<close>), or
  inside a size whose last bytes are still to come (\<open>In_Dims\<close>, with the bytes it has).
\<close>

datatype scan_end = At_End nat | In_Dims "byte list"

function scan :: "byte list \<Rightarrow> nat \<Rightarrow> pty_op list \<times> scan_end" where
  "scan [] matchLen = ([], At_End matchLen)"
| "scan (b # data) matchLen =
     (if b = resizeMagic ! matchLen then
        (if matchLen + 1 = length resizeMagic then
           (if 4 \<le> length data then
              let (ops, e) = scan (drop 4 data) 0 in (setsize_of (take 4 data) # ops, e)
            else ([], In_Dims data))
         else scan data (matchLen + 1))
      else if 0 < matchLen then
        let (ops, e) = scan (b # data) 0 in (PtyWrite (take matchLen resizeMagic) # ops, e)
      else
        let (ops, e) = scan (dropWhile (\<lambda>c. c \<noteq> resizeMagic ! 0) data) 0
        in (PtyWrite (b # takeWhile (\<lambda>c. c \<noteq> resizeMagic ! 0) data) # ops, e))"
  by pat_completeness auto
termination
  by (relation "measures [\<lambda>(data, m). length data, \<lambda>(data, m). m]")
    (auto simp: length_dropWhile_le le_imp_less_Suc)

text \<open>
  The inner reads that complete a size: \<open>dimFilled\<close> is the length of what is there. An
  error makes \<open>copyWithResize\<close> return, also when the bytes that came with it completed the
  size.
\<close>

partial_function (option) fill_dims ::
  "'s read_fn \<Rightarrow> 's \<Rightarrow> byte list \<Rightarrow> (byte list option \<times> 's) option" where
  "fill_dims rd s dimBuf =
     (if 4 \<le> length dimBuf then Some (Some dimBuf, s)
      else case rd (4 - length dimBuf) s of (d, e, s') \<Rightarrow>
        (if e \<noteq> None then Some (None, s') else fill_dims rd s' (dimBuf @ d)))"

text \<open>
  The outer loop, with the terminal operations so far in \<open>ops\<close>; \<open>None\<close> would be a loop
  that never returns. The buffer holds 32 KiB.
\<close>

definition buf_len :: nat where
  "buf_len = 32 * 1024"

definition flush_partial :: "nat \<Rightarrow> pty_op list" where
  "flush_partial matchLen = (if 0 < matchLen then [PtyWrite (take matchLen resizeMagic)] else [])"

partial_function (option) copy_loop ::
  "'s read_fn \<Rightarrow> 's \<Rightarrow> nat \<Rightarrow> pty_op list \<Rightarrow> pty_op list option" where
  "copy_loop rd s matchLen ops =
     (case rd buf_len s of (data, e, s1) \<Rightarrow>
        (case scan data matchLen of (out, fin) \<Rightarrow>
           (case fin of
              At_End m \<Rightarrow>
                (if e \<noteq> None then Some (ops @ out @ flush_partial m)
                 else copy_loop rd s1 m (ops @ out))
            | In_Dims part \<Rightarrow>
                Option.bind (fill_dims rd s1 part) (\<lambda>(r, s2).
                  case r of
                    None \<Rightarrow> Some (ops @ out)
                  | Some dimBuf \<Rightarrow>
                      (if e \<noteq> None then Some (ops @ out @ [setsize_of dimBuf])
                       else copy_loop rd s2 0 (ops @ out @ [setsize_of dimBuf]))))))"

definition copyWithResize :: "'s read_fn \<Rightarrow> 's \<Rightarrow> pty_op list option" where
  "copyWithResize rd src = copy_loop rd src 0 []"

section \<open>What a stream means\<close>

text \<open>
  The protocol's reference: at each position either a magic with its four bytes of size, or
  one byte of terminal input. A magic with fewer than four bytes after it ends the stream
  without effect, since the session ends before the size is known.
\<close>

datatype item = Data byte | Resized u16 u16

fun op_items :: "pty_op \<Rightarrow> item list" where
  "op_items (PtyWrite bs) = map Data bs"
| "op_items (Setsize c r) = [Resized c r]"

definition pty_effect :: "pty_op list \<Rightarrow> item list" where
  "pty_effect ops = concat (map op_items ops)"

function demux :: "byte list \<Rightarrow> item list" where
  "demux [] = []"
| "demux (b # s) =
     (if take 4 (b # s) = resizeMagic then
        (if 8 \<le> length (b # s) then op_items (setsize_of (take 4 (drop 4 (b # s)))) @ demux (drop 8 (b # s))
         else [])
      else Data b # demux s)"
  by pat_completeness auto
termination
  by (relation "measure length") auto

declare demux.simps(2) [simp del]

lemma pty_effect_simps [simp]:
  "pty_effect [] = []"
  "pty_effect (x # ops) = op_items x @ pty_effect ops"
  "pty_effect (ops @ ops') = pty_effect ops @ pty_effect ops'"
  by (simp_all add: pty_effect_def)

lemma demux_magic:
  "4 \<le> length s \<Longrightarrow> demux (resizeMagic @ s) = op_items (setsize_of (take 4 s)) @ demux (drop 4 s)"
  by (simp add: demux.simps resizeMagic_def)

lemma demux_magic_short: "length s < 4 \<Longrightarrow> demux (resizeMagic @ s) = []"
  by (simp add: demux.simps resizeMagic_def)

lemma demux_no_start: "b \<noteq> resizeMagic ! 0 \<Longrightarrow> demux (b # s) = Data b # demux s"
  by (simp add: demux.simps resizeMagic_def)

lemma demux_no_starts:
  "list_all (\<lambda>c. c \<noteq> resizeMagic ! 0) bs \<Longrightarrow> demux (bs @ s) = map Data bs @ demux s"
  by (induction bs) (simp_all add: demux_no_start)

lemma less_4_cases: "m < (4 :: nat) \<Longrightarrow> m = 0 \<or> m = 1 \<or> m = 2 \<or> m = 3"
  by arith

text \<open>
  Why the loop may throw a failed partial match out whole: no proper suffix of a partial match
  that then fails can be the start of a magic that continues with the same byte.
\<close>

lemma demux_failed_match:
  "m < 4 \<Longrightarrow> b \<noteq> resizeMagic ! m \<Longrightarrow>
     demux (take m resizeMagic @ b # s) = map Data (take m resizeMagic) @ demux (b # s)"
  by (drule less_4_cases, elim disjE) (simp_all add: demux.simps resizeMagic_def)

lemma demux_partial: "m < 4 \<Longrightarrow> demux (take m resizeMagic) = pty_effect (flush_partial m)"
  by (drule less_4_cases, elim disjE)
    (simp_all add: demux.simps resizeMagic_def flush_partial_def)

text \<open>One pass of the inner loop, with the stream that follows as \<open>t\<close>.\<close>

fun pending :: "scan_end \<Rightarrow> byte list" where
  "pending (At_End m) = take m resizeMagic"
| "pending (In_Dims part) = resizeMagic @ part"

fun scan_end_ok :: "scan_end \<Rightarrow> bool" where
  "scan_end_ok (At_End m) = (m < 4)"
| "scan_end_ok (In_Dims part) = (length part < 4)"

lemma length_resizeMagic [simp]: "length resizeMagic = 4"
  by (simp add: resizeMagic_def)

lemma full_match: "take 3 resizeMagic @ resizeMagic ! 3 # u = resizeMagic @ u"
  by (simp add: resizeMagic_def)

lemma scan_demux:
  assumes "m < 4" and "scan data m = (out, fin)"
  shows "scan_end_ok fin \<and>
     demux (take m resizeMagic @ data @ t) = pty_effect out @ demux (pending fin @ t)"
  using assms
proof (induction data m arbitrary: out fin rule: scan.induct)
  case (1 m)
  then show ?case by auto
next
  case (2 b data m)
  consider (dims) "b = resizeMagic ! m" "m + 1 = 4" "4 \<le> length data"
    | (cut) "b = resizeMagic ! m" "m + 1 = 4" "\<not> 4 \<le> length data"
    | (more) "b = resizeMagic ! m" "m + 1 \<noteq> 4"
    | (fail) "b \<noteq> resizeMagic ! m" "0 < m"
    | (plain) "b \<noteq> resizeMagic ! m" "m = 0"
    by blast
  then show ?case
  proof cases
    case dims
    then have "m = 3" by simp
    with 2 dims show ?thesis
      by (auto simp: full_match demux_magic split: prod.splits)
  next
    case cut
    then have "m = 3" by simp
    with 2 cut show ?thesis by (auto simp: full_match)
  next
    case more
    then have "take (m + 1) resizeMagic = take m resizeMagic @ [b]"
      using 2 by (simp add: take_Suc_conv_app_nth)
    with 2 more show ?thesis by simp
  next
    case fail
    with 2 show ?thesis by (auto simp: demux_failed_match split: prod.splits)
  next
    case plain
    let ?pre = "b # takeWhile (\<lambda>c. c \<noteq> resizeMagic ! 0) data"
    have "list_all (\<lambda>c. c \<noteq> resizeMagic ! 0) ?pre"
      using plain by (auto simp: list_all_iff dest: set_takeWhileD)
    moreover have "?pre @ dropWhile (\<lambda>c. c \<noteq> resizeMagic ! 0) data @ t = (b # data) @ t"
      by (simp flip: append_assoc)
    ultimately have "demux ((b # data) @ t) =
        map Data ?pre @ demux (dropWhile (\<lambda>c. c \<noteq> resizeMagic ! 0) data @ t)"
      by (metis demux_no_starts)
    with 2 plain show ?thesis by (auto split: prod.splits)
  qed
qed

section \<open>The loop over any reader\<close>

lemma demux_unfinished:
  assumes "length s \<le> 4"
  shows "length (demux (resizeMagic @ s)) \<le> 1" and "length s < 4 \<Longrightarrow> demux (resizeMagic @ s) = []"
proof -
  show "length (demux (resizeMagic @ s)) \<le> 1"
    using assms demux_magic [of s] demux_magic_short [of s]
    by (cases "4 \<le> length s") (auto simp: setsize_of_def)
qed (rule demux_magic_short)

context io_reader begin

lemma fill_dims_spec:
  assumes plain: "plain \<longrightarrow> (\<forall>n s d x s'. rd n s = (d, Some x, s') \<longrightarrow> d = [])"
  shows "length part < 4 \<Longrightarrow>
     \<exists>r s2. fill_dims rd s part = Some (r, s2) \<and>
       (case r of
          None \<Rightarrow> length part + length (content s) \<le> 4 \<and>
            (plain \<longrightarrow> length part + length (content s) < 4)
        | Some dimBuf \<Rightarrow> rank s2 \<le> rank s \<and> length dimBuf = 4 \<and> part @ content s = dimBuf @ content s2)"
proof (induction "rank s" arbitrary: s part rule: less_induct)
  case less
  obtain d e s1 where r: "rd (4 - length part) s = (d, e, s1)" by (metis prod_cases3)
  note c = read_content [OF r] and l = read_fits [OF r]
  show ?case
  proof (cases e)
    case (Some x)
    with r plain have "plain \<longrightarrow> d = []" by blast
    with Some r c l less.prems read_error_end [of "4 - length part" s d x s1]
    show ?thesis
      by (auto simp: fill_dims.simps [of rd s part])
  next
    case None
    then have k: "rank s1 < rank s" using r less.prems read_progress by auto
    show ?thesis
    proof (cases "4 \<le> length (part @ d)")
      case True
      then have "fill_dims rd s part = Some (Some (part @ d), s1)"
        using r None less.prems by (simp add: fill_dims.simps [of rd s part] fill_dims.simps [of rd s1])
      with k l c True less.prems show ?thesis by (auto simp: le_diff_conv2)
    next
      case False
      from less.hyps [OF k, of "part @ d"] False obtain r' s2
        where "fill_dims rd s1 (part @ d) = Some (r', s2)"
          "case r' of None \<Rightarrow> length (part @ d) + length (content s1) \<le> 4 \<and>
             (plain \<longrightarrow> length (part @ d) + length (content s1) < 4)
           | Some b \<Rightarrow> rank s2 \<le> rank s1 \<and> length b = 4 \<and> (part @ d) @ content s1 = b @ content s2"
        by auto
      moreover have "fill_dims rd s part = fill_dims rd s1 (part @ d)"
        using r None less.prems by (simp add: fill_dims.simps [of rd s part])
      ultimately show ?thesis using k c by (auto split: option.splits)
    qed
  qed
qed

lemma copy_loop_spec:
  assumes plain: "plain \<longrightarrow> (\<forall>n s d x s'. rd n s = (d, Some x, s') \<longrightarrow> d = [])"
  shows "m < 4 \<Longrightarrow>
     \<exists>out lost. copy_loop rd s m ops = Some (ops @ out) \<and>
       demux (take m resizeMagic @ content s) = pty_effect out @ lost \<and>
       length lost \<le> 1 \<and> (plain \<longrightarrow> lost = [])"
proof (induction "rank s" arbitrary: s m ops rule: less_induct)
  case less
  obtain data e s1 where r: "rd buf_len s = (data, e, s1)" by (metis prod_cases3)
  obtain out fin where sc: "scan data m = (out, fin)" by fastforce
  from read_content [OF r] have c: "content s = data @ content s1" .
  from scan_demux [OF less.prems sc, of "content s1"]
  have ok: "scan_end_ok fin"
    and eff: "demux (take m resizeMagic @ content s) = pty_effect out @ demux (pending fin @ content s1)"
    by (simp_all add: c)
  have smaller: "e = None \<Longrightarrow> rank s1 < rank s"
    using r read_progress by (auto simp: buf_len_def)
  show ?case
  proof (cases fin)
    case (At_End m')
    show ?thesis
    proof (cases e)
      case (Some x)
      with r read_error_end have "content s1 = []" by blast
      with At_End Some r sc ok eff show ?thesis
        by (auto simp: copy_loop.simps [of rd s] demux_partial)
    next
      case None
      from less.hyps [OF smaller [OF None], of m' "ops @ out"] ok At_End
      show ?thesis using r sc None eff At_End
        by (auto simp: copy_loop.simps [of rd s])
    qed
  next
    case (In_Dims part)
    with ok have short: "length part < 4" by simp
    from fill_dims_spec [OF plain this, of s1] obtain r' s2
      where f: "fill_dims rd s1 part = Some (r', s2)"
      and f': "case r' of
          None \<Rightarrow> length part + length (content s1) \<le> 4 \<and>
            (plain \<longrightarrow> length part + length (content s1) < 4)
        | Some b \<Rightarrow> rank s2 \<le> rank s1 \<and> length b = 4 \<and> part @ content s1 = b @ content s2"
      by blast
    show ?thesis
    proof (cases r')
      case None
      then show ?thesis
        using r sc f f' In_Dims eff demux_unfinished [of "part @ content s1"]
        by (auto simp: copy_loop.simps [of rd s])
    next
      case (Some b)
      with f' have b: "length b = 4" "part @ content s1 = b @ content s2" "rank s2 \<le> rank s1"
        by simp_all
      have e: "e = None"
      proof (rule ccontr)
        assume "e \<noteq> None"
        with r read_error_end have "content s1 = []" by blast
        with b short show False by (metis append_Nil2 length_append not_add_less1)
      qed
      with smaller b(3) have "rank s2 < rank s" by simp
      from less.hyps [OF this, of 0 "ops @ out @ [setsize_of b]"] obtain out' lost
        where "copy_loop rd s2 0 (ops @ out @ [setsize_of b]) = Some ((ops @ out @ [setsize_of b]) @ out')"
          "demux (content s2) = pty_effect out' @ lost" "length lost \<le> 1" "plain \<longrightarrow> lost = []"
        by auto
      moreover have "demux (pending fin @ content s1) = op_items (setsize_of b) @ demux (content s2)"
        using In_Dims b demux_magic [of "b @ content s2"] by simp
      ultimately show ?thesis
        using r sc f In_Dims Some e eff
        by (intro exI [of _ "out @ setsize_of b # out'"] exI [of _ lost])
          (simp add: copy_loop.simps [of rd s])
    qed
  qed
qed

lemma copy_total:
  "\<exists>out lost. copyWithResize rd s = Some out \<and> demux (content s) = pty_effect out @ lost \<and>
     length lost \<le> 1"
  using copy_loop_spec [of False 0 s "[]"] by (auto simp: copyWithResize_def)

end

context plain_reader begin

lemma copy_plain: "\<exists>out. copyWithResize rd s = Some out \<and> pty_effect out = demux (content s)"
  using copy_loop_spec [of True 0 s "[]"] error_alone
  by (force simp: copyWithResize_def)

end

section \<open>The sending side\<close>

text \<open>\<open>sendResize\<close>: the message for a window of the given size; Go's \<open>uint16\<close> truncates.\<close>

definition resize_message :: "int \<Rightarrow> int \<Rightarrow> byte list" where
  "resize_message cols rows =
     resizeMagic @ be16_put (word_of_int cols) @ be16_put (word_of_int rows)"

text \<open>
  One turn of \<open>copyStdinWithResize\<close>: whether a \<open>SIGWINCH\<close> is waiting and what
  \<open>term.GetSize\<close> then says (\<open>None\<close> for an error), what the read of the terminal returns,
  and for each of the two writes to the connection whether it fails, with the bytes that went
  out before it did.
\<close>

datatype stdin_error = Deadline | Stdin_Failed

record turn =
  winch :: "(int \<times> int) option option"
  resize_fails :: "nat option"
  typed :: "byte list"
  stdin_err :: "stdin_error option"
  write_fails :: "nat option"

fun copyStdinWithResize :: "turn list \<Rightarrow> byte list" where
  "copyStdinWithResize [] = []"
| "copyStdinWithResize (t # ts) =
     (let rest = (case stdin_err t of
                    Some Stdin_Failed \<Rightarrow> []
                  | _ \<Rightarrow> copyStdinWithResize ts);
          body = (if typed t = [] then rest
                  else case write_fails t of
                    Some k \<Rightarrow> take k (typed t)
                  | None \<Rightarrow> typed t @ rest)
      in case winch t of
           None \<Rightarrow> body
         | Some None \<Rightarrow> []
         | Some (Some (cols, rows)) \<Rightarrow>
             (case resize_fails t of
                Some k \<Rightarrow> take k (resize_message cols rows)
              | None \<Rightarrow> resize_message cols rows @ body))"

section \<open>The client and the guest together\<close>

text \<open>What the user did: window changes and keystrokes, in order, up to the end of the input.\<close>

definition turn_resize :: "turn \<Rightarrow> item list" where
  "turn_resize t =
     (case winch t of
        Some (Some (cols, rows)) \<Rightarrow> [Resized (word_of_int cols) (word_of_int rows)]
      | _ \<Rightarrow> [])"

fun session_items :: "turn list \<Rightarrow> item list" where
  "session_items [] = []"
| "session_items (t # ts) =
     turn_resize t @ map Data (typed t) @
     (if stdin_err t = Some Stdin_Failed then [] else session_items ts)"

definition fault_free :: "turn \<Rightarrow> bool" where
  "fault_free t \<longleftrightarrow> winch t \<noteq> Some None \<and> resize_fails t = None \<and> write_fails t = None"

text \<open>
  The protocol is in-band, so input can be mistaken for a message: \<open>magic_free\<close> says that a
  stretch of input holds no magic, \<open>transparent\<close> that no stretch of input between two resize
  messages holds or completes one.
\<close>

fun magic_free :: "byte list \<Rightarrow> bool" where
  "magic_free [] = True"
| "magic_free (b # s) = (take 4 (b # s) \<noteq> resizeMagic \<and> magic_free s)"

fun transparent :: "byte list \<Rightarrow> turn list \<Rightarrow> bool" where
  "transparent d [] = magic_free d"
| "transparent d (t # ts) =
     (let d' = (if turn_resize t = [] then d else []) @ typed t
      in (turn_resize t \<noteq> [] \<longrightarrow> magic_free (d @ take 3 resizeMagic)) \<and>
         (if stdin_err t = Some Stdin_Failed then magic_free d' else transparent d' ts))"

lemma demux_magic_free: "magic_free d \<Longrightarrow> demux d = map Data d"
  by (induction d) (simp_all add: demux.simps)

lemma demux_before_magic:
  "magic_free (d @ take 3 resizeMagic) \<Longrightarrow>
     demux (d @ resizeMagic @ t) = map Data d @ demux (resizeMagic @ t)"
proof (induction d)
  case (Cons b d)
  have "take 4 (b # d @ resizeMagic @ t) = take 4 (b # d @ take 3 resizeMagic)"
    by (simp add: resizeMagic_def take_Cons' split: if_splits)
  with Cons show ?case by (simp add: demux.simps)
qed simp

lemma demux_resize_message:
  "demux (resize_message cols rows @ t) =
     Resized (word_of_int cols) (word_of_int rows) # demux t"
proof -
  have "be16_get (be16_put v ! 0) (be16_put v ! 1) = v" for v
    by (rule be16_get_put) (simp add: be16_put_def)
  moreover have "be16_put v = [be16_put v ! 0, be16_put v ! 1]" for v
    by (simp add: be16_put_def)
  ultimately show ?thesis
    using demux_magic [of "be16_put (word_of_int cols) @ be16_put (word_of_int rows) @ t"]
    by (simp add: resize_message_def setsize_of_def nth_append)
qed

lemma resize_message_split: "resize_message c r = resizeMagic @ drop 4 (resize_message c r)"
  by (simp add: resize_message_def)

lemma demux_client:
  "list_all fault_free ts \<Longrightarrow> transparent d ts \<Longrightarrow>
     demux (d @ copyStdinWithResize ts) = map Data d @ session_items ts"
proof (induction ts arbitrary: d)
  case Nil
  then show ?case by (simp add: demux_magic_free)
next
  case (Cons t ts)
  let ?rest = "if stdin_err t = Some Stdin_Failed then [] else copyStdinWithResize ts"
  have body: "copyStdinWithResize (t # ts) =
      (case winch t of Some (Some (c, r)) \<Rightarrow> resize_message c r | _ \<Rightarrow> []) @ typed t @ ?rest"
    using Cons.prems(1)
    by (auto simp: fault_free_def Let_def split: option.splits stdin_error.splits)
  have rest: "demux (d' @ typed t @ ?rest) = map Data (d' @ typed t) @
      (if stdin_err t = Some Stdin_Failed then [] else session_items ts)"
    if "if stdin_err t = Some Stdin_Failed then magic_free (d' @ typed t)
        else transparent (d' @ typed t) ts" for d'
    using Cons.IH [of "d' @ typed t"] Cons.prems(1) that
    by (auto simp: demux_magic_free split: if_splits)
  show ?case
  proof (cases "turn_resize t = []")
    case True
    then have "winch t = None"
      using Cons.prems(1) by (auto simp: turn_resize_def fault_free_def split: option.splits)
    with True rest [of d] Cons.prems(2) body show ?thesis
      by (auto simp: Let_def split: if_splits)
  next
    case False
    then obtain c r where w: "winch t = Some (Some (c, r))"
      by (auto simp: turn_resize_def split: option.splits)
    have "demux (d @ resize_message c r @ s) =
        map Data d @ Resized (word_of_int c) (word_of_int r) # demux s" for s
      using demux_before_magic [of d "drop 4 (resize_message c r) @ s"] Cons.prems(2) False
        demux_resize_message [of c r s] resize_message_split [of c r]
      by (simp add: Let_def) (metis append_assoc)
    with w rest [of "[]"] Cons.prems(2) False body show ?thesis
      by (auto simp: Let_def turn_resize_def split: if_splits)
  qed
qed

section \<open>Properties\<close>

text \<open>
  C20 (equivalence). For every connection that reports its end alone, however its bytes are cut
  into reads, the copy loop returns, and the terminal operations it performed amount to the
  reference reading of the whole byte stream: every size change, every other byte once, in
  order. In particular the result does not depend on the cuts.
\<close>

theorem copy_any_chunking:
  "\<exists>ops. copyWithResize plain_read c = Some ops \<and> pty_effect ops = demux (concat (pieces c))"
  using plain_connection.copy_plain [of c] by (simp add: conn_content_def)

text \<open>
  Also over a connection that returns its final error together with the last
  bytes, the copy loop returns, and what it did is the reference reading of the stream except
  for at most one last item.
\<close>

lemma copy_returns_any_reader:
  "\<exists>ops lost. copyWithResize conn_read c = Some ops \<and>
     demux (conn_content c) = pty_effect ops @ lost \<and> length lost \<le> 1"
  by (rule connection.copy_total)

text \<open>
  That last item can be a complete resize message: when the bytes that complete
  the size come with the error, the loop returns before it uses them. The contract of
  \<open>io.Reader\<close> asks callers to process the bytes of a read before its error.
\<close>

lemma copy_drops_resize_at_eager_end:
  "copyWithResize conn_read (conn_of [resizeMagic @ [0, 100], [0, 50]] True) = Some [] \<and>
   demux (resizeMagic @ [0, 100, 0, 50]) = [Resized 100 50]"
  by (simp add: copyWithResize_def copy_loop.simps fill_dims.simps conn_read_def conn_of_def
      resizeMagic_def buf_len_def demux.simps setsize_of_def be16_get_def)

text \<open>
  C21 (round trip). If no write fails and no stretch of input holds or completes a magic, the
  guest recovers from the client's bytes, over any plain connection, exactly what happened at
  the client's terminal: each keystroke and each window change, in order, sizes as 16-bit
  numbers.
\<close>

theorem resize_session_roundtrip:
  assumes "list_all fault_free ts" and "transparent [] ts"
    and "concat (pieces c) = copyStdinWithResize ts"
  shows "\<exists>ops. copyWithResize plain_read c = Some ops \<and> pty_effect ops = session_items ts"
  using plain_connection.copy_plain [of c] demux_client [OF assms(1,2)] assms(3)
  by (simp add: conn_content_def)

definition demo_turns :: "turn list" where
  "demo_turns =
     [\<lparr>winch = None, resize_fails = None, typed = [0x68, 0x01], stdin_err = None, write_fails = None\<rparr>,
      \<lparr>winch = Some (Some (100, 50)), resize_fails = None, typed = [], stdin_err = Some Deadline,
       write_fails = None\<rparr>,
      \<lparr>winch = None, resize_fails = None, typed = [0x80, 0x0A], stdin_err = Some Stdin_Failed,
       write_fails = None\<rparr>]"

theorem resize_session_roundtrip_witness:
  "\<exists>ops. copyWithResize plain_read
       (conn_of [[0x68, 0x01, 0x01], [0x80, 0x01, 0x80, 0x00], [0x64, 0x00, 0x32, 0x80], [0x0A]] False)
     = Some ops \<and>
     pty_effect ops = [Data 0x68, Data 0x01, Resized 100 50, Data 0x80, Data 0x0A]"
proof -
  have "list_all fault_free demo_turns" "transparent [] demo_turns"
    by (simp_all add: demo_turns_def fault_free_def turn_resize_def Let_def resizeMagic_def)
  moreover have "copyStdinWithResize demo_turns =
      [0x68, 0x01, 0x01, 0x80, 0x01, 0x80, 0x00, 0x64, 0x00, 0x32, 0x80, 0x0A]"
    by (simp add: demo_turns_def Let_def resize_message_def resizeMagic_def be16_put_def)
  moreover have "session_items demo_turns = [Data 0x68, Data 0x01, Resized 100 50, Data 0x80, Data 0x0A]"
    by (simp add: demo_turns_def turn_resize_def)
  ultimately show ?thesis
    using resize_session_roundtrip [of demo_turns "conn_of
      [[0x68, 0x01, 0x01], [0x80, 0x01, 0x80, 0x00], [0x64, 0x00, 0x32, 0x80], [0x0A]] False"]
    by (simp add: conn_of_def)
qed

text \<open>
  Without that condition the in-band protocol breaks: after the two input bytes
  01 80, the message for a window of 100 by 50 makes the guest set the size 384 by 100 and
  write the two bytes of the real height to the terminal as input.
\<close>

lemma resize_in_band_collision:
  "copyWithResize plain_read (conn_of [[0x01, 0x80] @ resize_message 100 50] False) =
     Some [Setsize 384 100, PtyWrite [0, 50]]"
  by (simp add: copyWithResize_def copy_loop.simps plain_read_def conn_read_def conn_of_def
      resize_message_def be16_put_def resizeMagic_def buf_len_def setsize_of_def be16_get_def
      flush_partial_def)

text \<open>
  A stream without a magic passes through unchanged: the loop writes exactly
  its bytes, in order, and never changes the size.
\<close>

theorem passthrough_without_magic:
  assumes "magic_free (concat (pieces c))"
  shows "\<exists>ops. copyWithResize plain_read c = Some ops \<and>
     pty_effect ops = map Data (concat (pieces c))"
  using plain_connection.copy_plain [of c] demux_magic_free [OF assms]
  by (simp add: conn_content_def)

theorem passthrough_without_magic_witness:
  "\<exists>ops. copyWithResize plain_read (conn_of [[0x68, 0x01], [0x80, 0x69, 0x01, 0x80, 0x01]] False) = Some ops \<and>
     pty_effect ops = map Data [0x68, 0x01, 0x80, 0x69, 0x01, 0x80, 0x01]"
proof -
  have "magic_free [0x68, 0x01, 0x80, 0x69, 0x01, 0x80, 0x01]" by (simp add: resizeMagic_def)
  then show ?thesis
    using passthrough_without_magic
      [of "conn_of [[0x68, 0x01], [0x80, 0x69, 0x01, 0x80, 0x01]] False"]
    by (simp add: conn_of_def)
qed

end
