(* ===== verification/Go_Path.thy ===== *)
theory Go_Path imports Go_Strings begin

text \<open>
  \<open>path/filepath\<close> of Go's standard library on a Unix host, where the separator is a slash:
  \<open>Clean\<close>, \<open>Join\<close> and \<open>Dir\<close>, purely lexical. \<open>Clean\<close> is written over the list of path
  elements, with the elements kept so far as a stack.
\<close>

fun split_slash :: "string \<Rightarrow> string list" where
  "split_slash [] = [[]]"
| "split_slash (c # s) =
     (if c = CHR ''/'' then [] # split_slash s
      else (case split_slash s of [] \<Rightarrow> [[c]] | e # es \<Rightarrow> (c # e) # es))"

fun clean_elems :: "bool \<Rightarrow> string list \<Rightarrow> string list \<Rightarrow> string list" where
  "clean_elems rooted stack [] = rev stack"
| "clean_elems rooted stack (e # es) =
     (if e = [] \<or> e = ''.'' then clean_elems rooted stack es
      else if e = ''..'' then
        (case stack of
           t # ts \<Rightarrow> (if t \<noteq> ''..'' then clean_elems rooted ts es
                       else clean_elems rooted (e # stack) es)
         | [] \<Rightarrow> (if rooted then clean_elems rooted [] es else clean_elems rooted [e] es))
      else clean_elems rooted (e # stack) es)"

definition is_rooted :: "string \<Rightarrow> bool" where
  "is_rooted p \<longleftrightarrow> take 1 p = ''/''"

definition render_path :: "bool \<Rightarrow> string list \<Rightarrow> string" where
  "render_path rooted es =
     (if rooted then ''/'' @ join ''/'' es else if es = [] then ''.'' else join ''/'' es)"

definition path_clean :: "string \<Rightarrow> string" where
  "path_clean p = render_path (is_rooted p) (clean_elems (is_rooted p) [] (split_slash p))"

definition path_join :: "string list \<Rightarrow> string" where
  "path_join elems =
     (case dropWhile (\<lambda>e. e = []) elems of [] \<Rightarrow> [] | es \<Rightarrow> path_clean (join ''/'' es))"

text \<open>\<open>filepath.Dir\<close>: everything up to the last slash, cleaned.\<close>

definition path_dir :: "string \<Rightarrow> string" where
  "path_dir p = path_clean (rev (dropWhile (\<lambda>c. c \<noteq> CHR ''/'') (rev p)))"

section \<open>Laws\<close>

text \<open>A plain element is a file name: not empty, no slash, neither dot nor dot-dot.\<close>

definition plain_elem :: "string \<Rightarrow> bool" where
  "plain_elem e \<longleftrightarrow> e \<noteq> [] \<and> e \<noteq> ''.'' \<and> e \<noteq> ''..'' \<and> CHR ''/'' \<notin> set e"

lemma split_slash_nonempty [simp]: "split_slash s \<noteq> []"
  by (cases s) (auto split: list.split)

lemma split_slash_no_slash: "CHR ''/'' \<notin> set e \<Longrightarrow> split_slash e = [e]"
  by (induction e) auto

lemma split_slash_append:
  "split_slash (d @ CHR ''/'' # e) = split_slash d @ split_slash e"
  by (induction d) (auto split: list.split)

lemma clean_elems_snoc_plain:
  "plain_elem n \<Longrightarrow> clean_elems rooted st (es @ [n]) = clean_elems rooted st es @ [n]"
  by (induction rooted st es rule: clean_elems.induct)
    (auto simp: plain_elem_def split: list.splits)

lemma join_snoc: "join sep (es @ [n]) = (if es = [] then n else join sep es @ sep @ n)"
  by (induction sep es rule: join.induct) auto

text \<open>Joining a directory and a file name: a prefix that only the directory determines, then the name.\<close>

lemma path_join_name:
  assumes "d \<noteq> []" and "plain_elem n"
  obtains pre where "\<And>n'. plain_elem n' \<Longrightarrow> path_join [d, n'] = pre @ n'"
proof -
  have clean: "path_join [d, n'] =
      render_path (is_rooted d) (clean_elems (is_rooted d) [] (split_slash d) @ [n'])"
    if "plain_elem n'" for n'
  proof -
    have "is_rooted (d @ ''/'' @ n') = is_rooted d"
      using assms(1) by (cases d) (simp_all add: is_rooted_def)
    moreover have "split_slash (d @ ''/'' @ n') = split_slash d @ [n']"
      using that split_slash_append [of d n'] split_slash_no_slash [of n']
      by (simp add: plain_elem_def)
    ultimately show ?thesis
      using assms(1) that by (simp add: path_join_def path_clean_def clean_elems_snoc_plain)
  qed
  let ?es = "clean_elems (is_rooted d) [] (split_slash d)"
  have "path_join [d, n'] =
      ((if is_rooted d then ''/'' else []) @ (if ?es = [] then [] else join ''/'' ?es @ ''/'')) @ n'"
    if "plain_elem n'" for n'
    by (simp add: clean [OF that] render_path_def join_snoc)
  then show thesis by (rule that)
qed

lemma path_join_inject:
  assumes "d \<noteq> []" "plain_elem n" "plain_elem n'"
  shows "path_join [d, n] = path_join [d, n'] \<longleftrightarrow> n = n'"
  by (rule path_join_name [OF assms(1,2)]) (use assms in simp)

end
