(* ===== verification/Network.thy ===== *)
theory Network imports Go_Path begin

text \<open>
  The per-VM virtual network (network/config.go, network/network.go): its configuration, its
  unixgram socket, the goroutine that serves it, and \<open>Close\<close>. The gvisor-tap-vsock network
  and the operating system's socket are outside the repository; what they answer is an argument.
\<close>

section \<open>Configuration\<close>

record net_opts =
  GuestMAC :: string
  SocketDir :: string
  opts_ProxyAddr :: string

record net_configuration =
  MTU :: nat
  Subnet :: string
  GatewayIP :: string
  GatewayMacAddress :: string
  DHCPStaticLeases :: "(string \<times> string) list"
  Protocol :: string

definition net_configuration_of :: "net_opts \<Rightarrow> net_configuration" where
  "net_configuration_of opts =
     \<lparr>MTU = 1500, Subnet = ''192.168.127.0/24'', GatewayIP = ''192.168.127.1'',
      GatewayMacAddress = ''5a:94:ef:e4:0c:01'',
      DHCPStaticLeases = [(''192.168.127.2'', GuestMAC opts)],
      Protocol = ''vfkit''\<rparr>"

section \<open>The dialer\<close>

text \<open>
  \<open>buildDialer\<close>: which way the guest's outbound connections go. With a proxy address, every
  connection goes through the SOCKS5 dialer, or fails if that dialer could not be made; without
  one they are direct. \<open>socks\<close> is the result of \<open>proxy.SOCKS5\<close> on the address.
\<close>

datatype route = Direct | Via_Socks string | Refused string

definition buildDialer :: "(string \<Rightarrow> string option) \<Rightarrow> net_opts \<Rightarrow> string \<Rightarrow> string \<Rightarrow> route" where
  "buildDialer socks opts network addr =
     (if opts_ProxyAddr opts \<noteq> [] then
        (case socks (opts_ProxyAddr opts) of
           Some err \<Rightarrow> Refused err
         | None \<Rightarrow> Via_Socks (opts_ProxyAddr opts))
      else Direct)"

section \<open>The network object\<close>

text \<open>
  \<open>cancelled\<close> is the context, \<open>listening\<close> the socket, \<open>net_done\<close> the \<open>done\<close> channel's
  being closed; the virtual network is represented by the dialer it was made with. \<open>bound\<close> is
  ghost: whether the socket's path still exists in the file system.
\<close>

record vmnet =
  dialer :: "string \<Rightarrow> string \<Rightarrow> route"
  sockPath :: string
  cancelled :: bool
  listening :: bool
  bound :: bool
  net_done :: bool

datatype net_error = Create_Virtual_Network string | Listen_Unixgram string string

text \<open>
  \<open>NewVMNetwork\<close>; \<open>new_vn\<close> is the error of \<open>virtualnetwork.New\<close> on the configuration and the
  dialer, \<open>listen\<close> that of \<open>net.ListenUnixgram\<close> on the path, \<open>None\<close> being success.
\<close>

definition net_sock_path :: "string \<Rightarrow> net_opts \<Rightarrow> string" where
  "net_sock_path vmID opts = path_join [SocketDir opts, vmID @ ''.sock'']"

definition NewVMNetwork ::
  "(string \<Rightarrow> string option) \<Rightarrow> (net_configuration \<Rightarrow> (string \<Rightarrow> string \<Rightarrow> route) \<Rightarrow> string option)
     \<Rightarrow> (string \<Rightarrow> string option) \<Rightarrow> string \<Rightarrow> net_opts \<Rightarrow> net_error + vmnet" where
  "NewVMNetwork socks new_vn listen vmID opts =
     (case new_vn (net_configuration_of opts) (buildDialer socks opts) of
        Some e \<Rightarrow> Inl (Create_Virtual_Network e)
      | None \<Rightarrow>
          (let path = net_sock_path vmID opts in
           case listen path of
             Some e \<Rightarrow> Inl (Listen_Unixgram path e)
           | None \<Rightarrow> Inr \<lparr>dialer = buildDialer socks opts, sockPath = path, cancelled = False,
                          listening = True, bound = True, net_done = False\<rparr>))"

definition SocketPath :: "vmnet \<Rightarrow> string" where
  "SocketPath n = sockPath n"

text \<open>
  The serving goroutine ends when the accept or the copy loop fails or its context is
  cancelled; its deferred calls then run, last first: remove the path, close the socket, close
  \<open>done\<close>.
\<close>

definition serve_exit :: "vmnet \<Rightarrow> vmnet" where
  "serve_exit n = n\<lparr>bound := False, listening := False, net_done := True\<rparr>"

text \<open>
  \<open>Close\<close> cancels, closes the socket and waits for \<open>done\<close> for three seconds at most;
  \<open>serves\<close> says whether the goroutine ends within them. It returns no error.
\<close>

definition net_Close :: "bool \<Rightarrow> vmnet \<Rightarrow> vmnet" where
  "net_Close serves n =
     (let n' = n\<lparr>cancelled := True, listening := False\<rparr>
      in if \<not> net_done n \<and> serves then serve_exit n' else n')"

lemma net_Close_idem: "net_Close b (net_Close True n) = net_Close True n"
  by (cases "net_done n") (simp_all add: net_Close_def serve_exit_def Let_def)

lemma net_Close_cancelled [simp]: "cancelled (net_Close b n)" "\<not> listening (net_Close b n)"
  by (simp_all add: net_Close_def serve_exit_def Let_def)

section \<open>Properties\<close>


end
