(* ===== verification/Machine.thy ===== *)
theory Machine imports Go_Strings begin

text \<open>
  The data of the machine package (machine/machine.go): lifecycle states, the user's
  configuration and the machine object with its two state accessors and \<open>EnvSlice\<close>. A Go map
  is a list of distinct keys with their values, in the order a \<open>range\<close> loop visits them; Go
  leaves that order open, so a statement about every such list is one about every order.
  Logical timestamps stand for \<open>time.Time\<close>.
\<close>

section \<open>Lifecycle states\<close>

datatype mstate = StateCreated | StateStarting | StateRunning | StateStopping | StateStopped

fun state_string :: "mstate \<Rightarrow> string" where
  "state_string StateCreated = ''created''"
| "state_string StateStarting = ''starting''"
| "state_string StateRunning = ''running''"
| "state_string StateStopping = ''stopping''"
| "state_string StateStopped = ''stopped''"

instantiation mstate :: enum
begin

definition "enum_mstate = [StateCreated, StateStarting, StateRunning, StateStopping, StateStopped]"

definition "enum_all_mstate P \<longleftrightarrow>
  P StateCreated \<and> P StateStarting \<and> P StateRunning \<and> P StateStopping \<and> P StateStopped"

definition "enum_ex_mstate P \<longleftrightarrow>
  P StateCreated \<or> P StateStarting \<or> P StateRunning \<or> P StateStopping \<or> P StateStopped"

instance
proof
  show "(UNIV :: mstate set) = set enum_class.enum"
    using mstate.exhaust by (auto simp: enum_mstate_def)
  show "distinct (enum_class.enum :: mstate list)" by (simp add: enum_mstate_def)
  fix P :: "mstate \<Rightarrow> bool"
  show "enum_class.enum_all P \<longleftrightarrow> Ball UNIV P"
    unfolding enum_all_mstate_def by (metis UNIV_I mstate.exhaust)
  show "enum_class.enum_ex P \<longleftrightarrow> Bex UNIV P"
    unfolding enum_ex_mstate_def by (metis UNIV_I mstate.exhaust)
qed

end

lemma state_string_inject [simp]: "state_string s = state_string t \<longleftrightarrow> s = t"
  by (cases s; cases t) simp_all

section \<open>Configuration\<close>

type_synonym go_map = "(string \<times> string) list"

record volume =
  Tag :: string
  HostPath :: string

record config =
  VCPUs :: int
  MemoryMiB :: int
  RootfsPath :: string
  ExecPath :: string
  Args :: "string list"
  Env :: go_map
  Workdir :: string
  Volumes :: "volume list"

record network_config =
  ProxyAddr :: string

text \<open>\<open>EnvSlice\<close>: one \<open>KEY=VALUE\<close> string per entry; \<open>nil\<close> and empty slices are one.\<close>

definition EnvSlice :: "config \<Rightarrow> string list" where
  "EnvSlice c = map (\<lambda>(k, v). k @ ''='' @ v) (Env c)"

section \<open>The machine object\<close>

record machine =
  ID :: string
  Name :: string
  Config :: config
  Network :: network_config
  State :: mstate
  ExecSocketPath :: string
  RootfsIsClone :: bool
  CreatedAt :: nat
  UpdatedAt :: nat

definition SetState :: "nat \<Rightarrow> mstate \<Rightarrow> machine \<Rightarrow> machine" where
  "SetState now s m = m\<lparr>State := s, UpdatedAt := now\<rparr>"

definition GetState :: "machine \<Rightarrow> mstate" where
  "GetState m = State m"

lemma SetState_simps [simp, frame_simps]:
  "GetState (SetState now s m) = s"
  "State (SetState now s m) = s"
  "ID (SetState now s m) = ID m"
  "Name (SetState now s m) = Name m"
  "Config (SetState now s m) = Config m"
  "Network (SetState now s m) = Network m"
  "ExecSocketPath (SetState now s m) = ExecSocketPath m"
  "RootfsIsClone (SetState now s m) = RootfsIsClone m"
  "CreatedAt (SetState now s m) = CreatedAt m"
  by (simp_all add: SetState_def GetState_def)

end
