(* ===== verification/Vm_Process.thy ===== *)
theory Vm_Process imports Machine begin

text \<open>
  A VM as a child process (krun/vm.go): its configuration, the JSON configuration sent to
  krun-vmm, the child and the channel its exit is announced on, \<open>Start\<close>, \<open>Stop\<close>, \<open>Wait\<close>
  and \<open>WaitTimeout\<close>. Blocking calls are partial: \<open>None\<close> means that the call waits. What the
  operating system and the guest do (spawning, exiting, answering the shutdown RPC) is an
  argument or a step of the environment.
\<close>

section \<open>Configuration\<close>

record virtiofs_volume =
  vol_Tag :: string
  vol_HostPath :: string

record vm_config =
  LogLevel :: u32
  VmmBinPath :: string
  vc_VCPUs :: byte
  vc_MemoryMiB :: u32
  vc_RootfsPath :: string
  vc_ExecPath :: string
  vc_Args :: "string list"
  vc_Env :: "string list"
  vc_Workdir :: string
  ConsolePath :: string
  NetSocketPath :: string
  MAC :: "byte list"
  vc_Volumes :: "virtiofs_volume list"
  ShutdownSocketPath :: string
  vc_ExecSocketPath :: string

text \<open>\<open>vmmConfig\<close>, the message to the child: the same fields without the binary's path.\<close>

record vmm_config =
  j_log_level :: u32
  j_vcpus :: byte
  j_memory_mib :: u32
  j_rootfs_path :: string
  j_exec_path :: string
  j_args :: "string list"
  j_env :: "string list"
  j_workdir :: string
  j_console_path :: string
  j_net_socket_path :: string
  j_mac :: "byte list"
  j_volumes :: "virtiofs_volume list"
  j_shutdown_socket_path :: string
  j_exec_socket_path :: string

definition child_config :: "vm_config \<Rightarrow> vmm_config" where
  "child_config c =
     \<lparr>j_log_level = LogLevel c, j_vcpus = vc_VCPUs c, j_memory_mib = vc_MemoryMiB c,
      j_rootfs_path = vc_RootfsPath c, j_exec_path = vc_ExecPath c, j_args = vc_Args c, j_env = vc_Env c,
      j_workdir = vc_Workdir c, j_console_path = ConsolePath c, j_net_socket_path = NetSocketPath c,
      j_mac = MAC c, j_volumes = vc_Volumes c, j_shutdown_socket_path = ShutdownSocketPath c,
      j_exec_socket_path = vc_ExecSocketPath c\<rparr>"

section \<open>The child and its exit channel\<close>

text \<open>
  \<open>Dying\<close>: the kill signal has been sent. \<open>Exited e\<close>: gone, with the error \<open>cmd.Wait\<close>
  gives. The channel has room for one error and is closed after it.
\<close>

datatype child = Alive | Dying | Exited "string option"

record err_chan =
  queued :: "string list"
  closed :: bool

record vm =
  vm_cfg :: vm_config
  vm_cmd :: "child option"
  vm_stdin :: "vmm_config option"
  errC :: "err_chan option"
  shutdownSocketPath :: string
  execSocketPath :: string

definition NewVM :: "vm_config \<Rightarrow> vm" where
  "NewVM c =
     \<lparr>vm_cfg = c, vm_cmd = None, vm_stdin = None, errC = None,
      shutdownSocketPath = ShutdownSocketPath c, execSocketPath = vc_ExecSocketPath c\<rparr>"

datatype vm_error = Marshal_Config string | Stdin_Pipe string | Start_Vmm string | Write_Config string

text \<open>
  What becomes of the steps of \<open>Start\<close>: the first that fails, or a running child that has the
  whole configuration on its standard input. \<open>vm_cmd\<close> is the process of \<open>vm.cmd\<close>, which is
  there once \<open>cmd.Start\<close> has succeeded.
\<close>

datatype spawn = Marshal_Fails string | Pipe_Fails string | Spawn_Fails string | Write_Fails string | Spawned

definition kill :: "child \<Rightarrow> child" where
  "kill p = (case p of Alive \<Rightarrow> Dying | _ \<Rightarrow> p)"

definition vm_Start :: "spawn \<Rightarrow> vm \<Rightarrow> vm_error option \<times> vm" where
  "vm_Start out v =
     (case out of
        Marshal_Fails e \<Rightarrow> (Some (Marshal_Config e), v)
      | Pipe_Fails e \<Rightarrow> (Some (Stdin_Pipe e), v)
      | Spawn_Fails e \<Rightarrow> (Some (Start_Vmm e), v)
      | Write_Fails e \<Rightarrow> (Some (Write_Config e), v\<lparr>vm_cmd := Some (kill Alive)\<rparr>)
      | Spawned \<Rightarrow>
          (None, v\<lparr>vm_cmd := Some Alive, vm_stdin := Some (child_config (vm_cfg v)),
                    errC := Some \<lparr>queued = [], closed = False\<rparr>\<rparr>))"

text \<open>The environment: the child exits. The goroutine of \<open>Start\<close> then announces it and closes.\<close>

definition child_exit :: "string option \<Rightarrow> vm \<Rightarrow> vm option" where
  "child_exit e v =
     (case vm_cmd v of
        Some Alive \<Rightarrow> Some (v\<lparr>vm_cmd := Some (Exited e)\<rparr>)
      | Some Dying \<Rightarrow> Some (v\<lparr>vm_cmd := Some (Exited e)\<rparr>)
      | _ \<Rightarrow> None)"

definition announce_exit :: "vm \<Rightarrow> vm option" where
  "announce_exit v =
     (case (vm_cmd v, errC v) of
        (Some (Exited e), Some c) \<Rightarrow>
          (if closed c then None
           else Some (v\<lparr>errC := Some \<lparr>queued = (case e of None \<Rightarrow> [] | Some x \<Rightarrow> [x]), closed = True\<rparr>\<rparr>))
      | _ \<Rightarrow> None)"

text \<open>
  A receive on the channel: a queued error, else \<open>nil\<close> if the channel is closed, else it
  waits.
\<close>

definition recv :: "err_chan \<Rightarrow> (string option \<times> err_chan) option" where
  "recv c =
     (case queued c of
        x # xs \<Rightarrow> Some (Some x, c\<lparr>queued := xs\<rparr>)
      | [] \<Rightarrow> if closed c then Some (None, c) else None)"

definition vm_Wait :: "vm \<Rightarrow> (string option \<times> vm) option" where
  "vm_Wait v =
     (case errC v of
        None \<Rightarrow> Some (None, v)
      | Some c \<Rightarrow> map_option (\<lambda>(e, c'). (e, v\<lparr>errC := Some c'\<rparr>)) (recv c))"

text \<open>\<open>WaitTimeout\<close>: \<open>fires\<close> says that the timer is the case the \<open>select\<close> takes.\<close>

definition vm_WaitTimeout :: "bool \<Rightarrow> vm \<Rightarrow> ((string option \<times> bool) \<times> vm) option" where
  "vm_WaitTimeout fires v =
     (case errC v of
        None \<Rightarrow> Some ((None, True), v)
      | Some c \<Rightarrow>
          (if fires then Some ((None, False), v)
           else map_option (\<lambda>(e, c'). ((e, True), v\<lparr>errC := Some c'\<rparr>)) (recv c)))"

section \<open>Stop\<close>

text \<open>
  The steps of \<open>Stop\<close>: call the shutdown RPC if there is a socket for it, wait ten seconds for
  the exit if it succeeded, else kill and wait five seconds. It always returns \<open>nil\<close>.
\<close>

datatype stop_pc = Stop_Rpc | Stop_Wait | Stop_Kill | Stop_Wait_Killed | Stop_Returned

datatype stop_choice = Rpc_Result bool | Timer_Fires | Receives | Proceed

fun vm_stop_step :: "stop_choice \<Rightarrow> stop_pc \<Rightarrow> vm \<Rightarrow> (stop_pc \<times> vm) option" where
  "vm_stop_step (Rpc_Result ok) Stop_Rpc v =
     Some (if shutdownSocketPath v \<noteq> [] \<and> ok then Stop_Wait else Stop_Kill, v)"
| "vm_stop_step Receives Stop_Wait v =
     map_option (\<lambda>(_, v'). (Stop_Returned, v')) (vm_WaitTimeout False v)"
| "vm_stop_step Timer_Fires Stop_Wait v =
     map_option (\<lambda>((_, exited), v'). (if exited then Stop_Returned else Stop_Kill, v'))
       (vm_WaitTimeout True v)"
| "vm_stop_step Proceed Stop_Kill v =
     Some (case vm_cmd v of
             Some p \<Rightarrow> (Stop_Wait_Killed, v\<lparr>vm_cmd := Some (kill p)\<rparr>)
           | None \<Rightarrow> (Stop_Returned, v))"
| "vm_stop_step Receives Stop_Wait_Killed v =
     map_option (\<lambda>(_, v'). (Stop_Returned, v')) (vm_WaitTimeout False v)"
| "vm_stop_step Timer_Fires Stop_Wait_Killed v =
     map_option (\<lambda>(_, v'). (Stop_Returned, v')) (vm_WaitTimeout True v)"
| "vm_stop_step _ _ v = None"

section \<open>Invariant\<close>

text \<open>
  Something to receive means that the child is gone; a channel that is not closed is empty.
\<close>

definition vm_ok :: "vm \<Rightarrow> bool" where
  "vm_ok v \<longleftrightarrow>
     (case errC v of
        None \<Rightarrow> True
      | Some c \<Rightarrow>
          vm_cmd v \<noteq> None \<and> (closed c \<longrightarrow> (\<exists>e. vm_cmd v = Some (Exited e))) \<and>
          (\<not> closed c \<longrightarrow> queued c = []))"

text \<open>A started VM has its exit channel; every step keeps that and the invariant.\<close>

definition vm_started :: "vm \<Rightarrow> bool" where
  "vm_started v \<longleftrightarrow> vm_ok v \<and> errC v \<noteq> None"

named_theorems vm_defs

lemmas [vm_defs] = vm_ok_def vm_started_def child_exit_def announce_exit_def vm_Wait_def
  vm_WaitTimeout_def recv_def kill_def

lemma vm_ok_NewVM: "vm_ok (NewVM c)"
  by (simp add: vm_ok_def NewVM_def)

lemma vm_Start_started: "vm_Start out v = (None, v') \<Longrightarrow> vm_started v' \<and> vm_cmd v' = Some Alive"
  by (cases out) (auto simp: vm_Start_def vm_defs)

lemma vm_Start_failed: "vm_Start out (NewVM c) = (Some e, v') \<Longrightarrow> vm_cmd v' \<noteq> Some Alive"
  by (cases out) (auto simp: vm_Start_def NewVM_def kill_def)

lemma child_exit_started: "child_exit e v = Some v' \<Longrightarrow> vm_started v \<Longrightarrow> vm_started v'"
  by (auto simp: vm_defs split: option.splits child.splits)

lemma announce_exit_started: "announce_exit v = Some v' \<Longrightarrow> vm_started v \<Longrightarrow> vm_started v'"
  by (auto simp: vm_defs split: option.splits child.splits if_splits)

lemma recv_started:
  "recv c = Some (x, c') \<Longrightarrow> errC v = Some c \<Longrightarrow> vm_started v \<Longrightarrow>
     vm_started (v\<lparr>errC := Some c'\<rparr>) \<and> (\<exists>e. vm_cmd v = Some (Exited e))"
  by (auto simp: vm_defs split: list.splits if_splits)

lemma vm_Wait_started:
  "vm_Wait v = Some (x, v') \<Longrightarrow> vm_started v \<Longrightarrow>
     vm_started v' \<and> (\<exists>e. vm_cmd v' = Some (Exited e)) \<and> vm_cmd v' = vm_cmd v"
  using recv_started [of _ _ _ v]
  by (fastforce simp: vm_Wait_def vm_started_def split: option.splits)

lemma vm_WaitTimeout_started:
  "vm_WaitTimeout fires v = Some ((x, exited), v') \<Longrightarrow> vm_started v \<Longrightarrow>
     vm_started v' \<and> vm_cmd v' = vm_cmd v \<and> exited = (\<not> fires) \<and>
     (exited \<longrightarrow> vm_cmd v \<noteq> Some Alive)"
  using recv_started [of _ _ _ v]
  by (fastforce simp: vm_WaitTimeout_def vm_started_def split: option.splits if_splits)

text \<open>The steps of \<open>Stop\<close> keep a started VM started, and only a receive or a kill ends them.\<close>

definition past_kill :: "stop_pc \<Rightarrow> bool" where
  "past_kill pc \<longleftrightarrow> pc = Stop_Wait_Killed \<or> pc = Stop_Returned"

lemma vm_stop_step_started:
  assumes "vm_stop_step ch pc v = Some (pc', v')" and "vm_started v"
    and "past_kill pc \<longrightarrow> vm_cmd v \<noteq> Some Alive"
  shows "vm_started v' \<and> (past_kill pc' \<longrightarrow> vm_cmd v' \<noteq> Some Alive)"
  using assms
proof (induction ch pc v rule: vm_stop_step.induct)
  case (4 v)
  then show ?case
    by (auto simp: vm_defs past_kill_def split: option.splits child.splits)
next
  case (2 v)
  then show ?case by (auto simp: past_kill_def dest!: vm_WaitTimeout_started)
next
  case (3 v)
  then show ?case by (auto simp: past_kill_def dest!: vm_WaitTimeout_started split: if_splits)
next
  case (5 v)
  then show ?case by (auto simp: past_kill_def dest!: vm_WaitTimeout_started)
next
  case (6 v)
  then show ?case by (auto simp: past_kill_def dest!: vm_WaitTimeout_started)
qed (auto simp: past_kill_def split: if_splits)

text \<open>Every step brings \<open>Stop\<close> closer to its return, and one is always possible.\<close>

fun stop_rank :: "stop_pc \<Rightarrow> nat" where
  "stop_rank Stop_Rpc = 4"
| "stop_rank Stop_Wait = 3"
| "stop_rank Stop_Kill = 2"
| "stop_rank Stop_Wait_Killed = 1"
| "stop_rank Stop_Returned = 0"

lemma vm_stop_step_rank: "vm_stop_step ch pc v = Some (pc', v') \<Longrightarrow> stop_rank pc' < stop_rank pc"
  by (induction ch pc v rule: vm_stop_step.induct) (auto split: if_splits option.splits)

lemma vm_stop_step_enabled: "pc \<noteq> Stop_Returned \<Longrightarrow> \<exists>ch r. vm_stop_step ch pc v = Some r"
proof (cases pc)
  case Stop_Rpc
  then show ?thesis by (intro exI [of _ "Rpc_Result True"]) simp
next
  case Stop_Kill
  then show ?thesis by (intro exI [of _ Proceed]) simp
qed (auto intro!: exI [of _ Timer_Fires] simp: vm_WaitTimeout_def split: option.split)

section \<open>Stop with the world around it\<close>

text \<open>
  While \<open>Stop\<close> runs, the child may exit, its exit be announced, and another goroutine receive
  from the channel.
\<close>

inductive stop_world :: "stop_pc \<times> vm \<Rightarrow> stop_pc \<times> vm \<Rightarrow> bool" where
  stop_itself: "vm_stop_step ch pc v = Some (pc', v') \<Longrightarrow> stop_world (pc, v) (pc', v')"
| child_exits: "child_exit e v = Some v' \<Longrightarrow> stop_world (pc, v) (pc, v')"
| exit_announced: "announce_exit v = Some v' \<Longrightarrow> stop_world (pc, v) (pc, v')"
| other_receives: "vm_Wait v = Some (x, v') \<Longrightarrow> stop_world (pc, v) (pc, v')"

lemma stop_world_inv:
  assumes "stop_world (pc, v) (pc', v')" "vm_started v" "past_kill pc \<longrightarrow> vm_cmd v \<noteq> Some Alive"
  shows "vm_started v' \<and> (past_kill pc' \<longrightarrow> vm_cmd v' \<noteq> Some Alive)"
  using assms(1)
proof cases
  case (stop_itself ch)
  then show ?thesis using vm_stop_step_started assms(2,3) by blast
next
  case (child_exits e)
  then show ?thesis using child_exit_started assms(2)
    by (auto simp: child_exit_def split: option.splits child.splits)
next
  case exit_announced
  then show ?thesis using announce_exit_started assms(2,3)
    by (auto simp: announce_exit_def split: option.splits child.splits if_splits)
next
  case (other_receives x)
  then show ?thesis using vm_Wait_started assms(2,3) by metis
qed

lemma stop_world_runs:
  assumes "stop_world\<^sup>*\<^sup>* (pc, v) (pc', v')" "vm_started v" "past_kill pc \<longrightarrow> vm_cmd v \<noteq> Some Alive"
  shows "vm_started v' \<and> (past_kill pc' \<longrightarrow> vm_cmd v' \<noteq> Some Alive)"
  using assms
proof (induction rule: rtranclp_induct2)
  case (step pc1 v1 pc2 v2)
  then show ?case using stop_world_inv by blast
qed auto

section \<open>Properties\<close>

text \<open>
  C23 (safety). However \<open>Stop\<close> interleaves with the child's exit and with other receivers,
  when it has returned on a started VM the child is no longer simply running: it has exited, or
  the kill signal has been sent to it.
\<close>

theorem vm_Stop_leaves_no_live_child:
  assumes "vm_started v" and "stop_world\<^sup>*\<^sup>* (Stop_Rpc, v) (Stop_Returned, v')"
  shows "vm_cmd v' \<noteq> Some Alive"
  using stop_world_runs [OF assms(2,1)] by (simp add: past_kill_def)

definition demo_vm :: vm where
  "demo_vm = snd (vm_Start Spawned
     (NewVM \<lparr>LogLevel = 3, VmmBinPath = ''krun-vmm'', vc_VCPUs = 1, vc_MemoryMiB = 256,
        vc_RootfsPath = ''/r'', vc_ExecPath = ''/bin/sh'', vc_Args = [], vc_Env = [], vc_Workdir = [],
        ConsolePath = ''/c'', NetSocketPath = ''/n'', MAC = [], vc_Volumes = [],
        ShutdownSocketPath = ''/s'', vc_ExecSocketPath = ''/e''\<rparr>))"

theorem vm_Stop_leaves_no_live_child_witness:
  "\<exists>v'. stop_world\<^sup>*\<^sup>* (Stop_Rpc, demo_vm) (Stop_Returned, v') \<and> vm_cmd v' \<noteq> Some Alive"
proof -
  let ?v = "demo_vm\<lparr>vm_cmd := Some Dying\<rparr>"
  have d: "vm_started demo_vm"
    by (simp add: demo_vm_def vm_Start_def NewVM_def vm_started_def vm_ok_def)
  have "stop_world (Stop_Rpc, demo_vm) (Stop_Kill, demo_vm)"
    by (rule stop_itself [of "Rpc_Result False"]) simp
  moreover have "stop_world (Stop_Kill, demo_vm) (Stop_Wait_Killed, ?v)"
    by (rule stop_itself [of Proceed]) (simp add: demo_vm_def vm_Start_def NewVM_def kill_def)
  moreover have "stop_world (Stop_Wait_Killed, ?v) (Stop_Returned, ?v)"
    by (rule stop_itself [of Timer_Fires])
      (simp add: demo_vm_def vm_Start_def NewVM_def vm_WaitTimeout_def)
  ultimately have "stop_world\<^sup>*\<^sup>* (Stop_Rpc, demo_vm) (Stop_Returned, ?v)"
    by (meson converse_rtranclp_into_rtranclp rtranclp.rtrancl_refl)
  then show ?thesis using vm_Stop_leaves_no_live_child [OF d] by blast
qed

text \<open>
  \<open>Stop\<close> always returns: at each of its steps one continuation is possible
  whatever the VM does, since its waits are timed, and each step it takes is one of at most
  four.
\<close>

theorem vm_Stop_terminates:
  "(pc = Stop_Returned \<or> (\<exists>ch r. vm_stop_step ch pc v = Some r)) \<and> stop_rank pc \<le> 4 \<and>
   (\<forall>ch. case vm_stop_step ch pc v of None \<Rightarrow> True | Some (pc', v') \<Rightarrow> stop_rank pc' < stop_rank pc)"
proof (intro conjI allI)
  show "pc = Stop_Returned \<or> (\<exists>ch r. vm_stop_step ch pc v = Some r)"
    using vm_stop_step_enabled by blast
  show "stop_rank pc \<le> 4" by (cases pc) simp_all
  show "case vm_stop_step ch pc v of None \<Rightarrow> True | Some (pc', v') \<Rightarrow> stop_rank pc' < stop_rank pc" for ch
    using vm_stop_step_rank by (auto split: option.split)
qed

text \<open>
  Once a started child's exit is announced, the first receiver gets its error
  and every later one gets \<open>nil\<close> at once: the monitor of the manager and a concurrent \<open>Stop\<close>
  both continue, and the error is reported once.
\<close>

theorem exit_error_delivered_once:
  assumes "vm_started v" and "child_exit e v = Some v1" and "announce_exit v1 = Some v2"
  shows "\<exists>v3. vm_Wait v2 = Some (e, v3) \<and> vm_Wait v3 = Some (None, v3)"
proof -
  from assms obtain c where "v2 = v1\<lparr>errC := Some \<lparr>queued = (case e of None \<Rightarrow> [] | Some x \<Rightarrow> [x]), closed = True\<rparr>\<rparr>"
    by (auto simp: vm_defs split: option.splits child.splits if_splits)
  then show ?thesis
    by (intro exI [of _ "v1\<lparr>errC := Some \<lparr>queued = [], closed = True\<rparr>\<rparr>"])
      (auto simp: vm_Wait_def recv_def split: option.split)
qed

theorem exit_error_delivered_once_witness:
  "\<exists>v1 v2 v3. child_exit (Some ''exit status 1'') demo_vm = Some v1 \<and> announce_exit v1 = Some v2 \<and>
     vm_Wait v2 = Some (Some ''exit status 1'', v3) \<and> vm_Wait v3 = Some (None, v3)"
proof -
  have d: "vm_started demo_vm"
    by (simp add: demo_vm_def vm_Start_def NewVM_def vm_started_def vm_ok_def)
  obtain v1 v2 where "child_exit (Some ''exit status 1'') demo_vm = Some v1" "announce_exit v1 = Some v2"
    by (simp add: demo_vm_def vm_Start_def NewVM_def child_exit_def announce_exit_def)
  with exit_error_delivered_once [OF d this] show ?thesis by blast
qed

end
