(* ===== verification/Sha256.thy ===== *)
theory Sha256 imports Prelude begin

text \<open>
  \<open>sha256.Sum256\<close> of Go's standard library, from FIPS 180-4 on 32-bit words, executable.
  The program uses it once, to derive a MAC address from a machine id; what that needs of the
  digest is its length, proved here for every message.
\<close>

unbundle bit_operations_syntax

definition rotr :: "nat \<Rightarrow> u32 \<Rightarrow> u32" where
  "rotr n x = drop_bit n x OR push_bit (32 - n) x"

text \<open>The first 32 bits of the fractional parts of the cube roots of the first 64 primes.\<close>

definition round_constants :: "u32 list" where
  "round_constants =
    [1116352408, 1899447441, 3049323471, 3921009573, 961987163, 1508970993, 2453635748, 2870763221,
     3624381080, 310598401, 607225278, 1426881987, 1925078388, 2162078206, 2614888103, 3248222580,
     3835390401, 4022224774, 264347078, 604807628, 770255983, 1249150122, 1555081692, 1996064986,
     2554220882, 2821834349, 2952996808, 3210313671, 3336571891, 3584528711, 113926993, 338241895,
     666307205, 773529912, 1294757372, 1396182291, 1695183700, 1986661051, 2177026350, 2456956037,
     2730485921, 2820302411, 3259730800, 3345764771, 3516065817, 3600352804, 4094571909, 275423344,
     430227734, 506948616, 659060556, 883997877, 958139571, 1322822218, 1537002063, 1747873779,
     1955562222, 2024104815, 2227730452, 2361852424, 2428436474, 2756734187, 3204031479, 3329325298]"

text \<open>The eight working variables, as a record.\<close>

record hash_state =
  wa :: u32  wb :: u32  wc :: u32  wd :: u32
  we :: u32  wf :: u32  wg :: u32  wh :: u32

definition initial_hash :: hash_state where
  "initial_hash =
     \<lparr>wa = 1779033703, wb = 3144134277, wc = 1013904242, wd = 2773480762,
      we = 1359893119, wf = 2600822924, wg = 528734635, wh = 1541459225\<rparr>"

definition hash_round :: "u32 \<times> u32 \<Rightarrow> hash_state \<Rightarrow> hash_state" where
  "hash_round kw h =
     (let e = we h; a = wa h;
          t1 = wh h + (rotr 6 e XOR rotr 11 e XOR rotr 25 e)
               + ((e AND wf h) XOR (NOT e AND wg h)) + fst kw + snd kw;
          t2 = (rotr 2 a XOR rotr 13 a XOR rotr 22 a)
               + ((a AND wb h) XOR (a AND wc h) XOR (wb h AND wc h))
      in \<lparr>wa = t1 + t2, wb = a, wc = wb h, wd = wc h,
          we = wd h + t1, wf = e, wg = wf h, wh = wg h\<rparr>)"

text \<open>The message schedule, the latest word first.\<close>

definition next_word :: "u32 list \<Rightarrow> u32" where
  "next_word ws =
     (let x = ws ! 1; y = ws ! 14
      in (rotr 17 x XOR rotr 19 x XOR drop_bit 10 x) + ws ! 6
         + (rotr 7 y XOR rotr 18 y XOR drop_bit 3 y) + ws ! 15)"

fun extend_schedule :: "nat \<Rightarrow> u32 list \<Rightarrow> u32 list" where
  "extend_schedule 0 ws = ws"
| "extend_schedule (Suc n) ws = extend_schedule n (next_word ws # ws)"

definition hash_block :: "u32 list \<Rightarrow> hash_state \<Rightarrow> hash_state" where
  "hash_block block h =
     (let ws = rev (extend_schedule 48 (rev block));
          g = fold hash_round (zip round_constants ws) h
      in \<lparr>wa = wa h + wa g, wb = wb h + wb g, wc = wc h + wc g, wd = wd h + wd g,
          we = we h + we g, wf = wf h + wf g, wg = wg h + wg g, wh = wh h + wh g\<rparr>)"

definition word_bytes :: "u32 \<Rightarrow> byte list" where
  "word_bytes w =
     [ucast (drop_bit 24 w), ucast (drop_bit 16 w), ucast (drop_bit 8 w), ucast w]"

fun bytes_words :: "byte list \<Rightarrow> u32 list" where
  "bytes_words (a # b # c # d # rest) =
     (push_bit 24 (ucast a) OR push_bit 16 (ucast b) OR push_bit 8 (ucast c) OR ucast d)
     # bytes_words rest"
| "bytes_words _ = []"

definition pad_message :: "byte list \<Rightarrow> byte list" where
  "pad_message msg =
     (let bits = word_of_int (8 * int (length msg)) :: u64;
          zeros = (55 + 64 - length msg mod 64) mod 64
      in msg @ 0x80 # replicate zeros 0 @
         word_bytes (ucast (drop_bit 32 bits)) @ word_bytes (ucast bits))"

fun hash_blocks :: "nat \<Rightarrow> u32 list \<Rightarrow> hash_state \<Rightarrow> hash_state" where
  "hash_blocks 0 ws h = h"
| "hash_blocks (Suc n) ws h = hash_blocks n (drop 16 ws) (hash_block (take 16 ws) h)"

definition sha256 :: "byte list \<Rightarrow> byte list" where
  "sha256 msg =
     (let ws = bytes_words (pad_message msg);
          h = hash_blocks (length ws div 16) ws initial_hash
      in concat (map word_bytes [wa h, wb h, wc h, wd h, we h, wf h, wg h, wh h]))"

lemma length_sha256 [simp]: "length (sha256 msg) = 32"
  by (simp add: sha256_def Let_def word_bytes_def)

end
