(* ===== verification/Mac_Address.thy ===== *)
theory Mac_Address imports Sha256 Go_Strings begin

text \<open>
  machine/mac.go: the guest's MAC address, derived from the machine id, and its textual form,
  which the virtual network uses to hand the guest its address.
\<close>

unbundle bit_operations_syntax

definition MACFromID :: "string \<Rightarrow> byte list" where
  "MACFromID vmID =
     (let h = sha256 (map of_char vmID);
          mac = [h ! 0 OR 0x02, h ! 1, h ! 2, h ! 3, h ! 4, h ! 5]
      in mac[0 := mac ! 0 AND NOT 0x01])"

text \<open>The verb \<open>%02x\<close> on a byte; \<open>FormatMAC\<close> indexes six bytes and panics on fewer.\<close>

definition hex_digit :: "nat \<Rightarrow> char" where
  "hex_digit n = ''0123456789abcdef'' ! n"

definition fmt_02x :: "byte \<Rightarrow> string" where
  "fmt_02x b = [hex_digit (unat b div 16), hex_digit (unat b mod 16)]"

definition FormatMAC :: "byte list \<Rightarrow> string option" where
  "FormatMAC mac =
     (if length mac < 6 then None
      else Some (join '':'' (map fmt_02x [mac ! 0, mac ! 1, mac ! 2, mac ! 3, mac ! 4, mac ! 5])))"

section \<open>Lemmas\<close>

lemma length_MACFromID [simp]: "length (MACFromID vmID) = 6"
  by (simp add: MACFromID_def Let_def)

lemma less_16_cases:
  "d < (16 :: nat) \<Longrightarrow> d = 0 \<or> d = 1 \<or> d = 2 \<or> d = 3 \<or> d = 4 \<or> d = 5 \<or> d = 6 \<or> d = 7 \<or>
     d = 8 \<or> d = 9 \<or> d = 10 \<or> d = 11 \<or> d = 12 \<or> d = 13 \<or> d = 14 \<or> d = 15"
  by arith

definition hex_val :: "char \<Rightarrow> nat" where
  "hex_val c = length (takeWhile (\<lambda>d. d \<noteq> c) ''0123456789abcdef'')"

lemma hex_val_digit: "d < 16 \<Longrightarrow> hex_val (hex_digit d) = d"
  by (drule less_16_cases, elim disjE) (simp_all add: hex_val_def hex_digit_def)

lemma fmt_02x_inject [simp]: "fmt_02x a = fmt_02x b \<longleftrightarrow> a = b"
proof
  have bound: "unat c div 16 < 16" for c :: byte
  proof -
    have "unat c < 2 ^ LENGTH(8)" by (rule unsigned_less)
    then show ?thesis by (simp add: less_mult_imp_div_less)
  qed
  have read_off: "16 * hex_val (fmt_02x c ! 0) + hex_val (fmt_02x c ! 1) = unat c" for c
    using bound [of c] by (simp add: fmt_02x_def hex_val_digit)
  assume "fmt_02x a = fmt_02x b"
  then have "unat a = unat b" using read_off [of a] read_off [of b] by simp
  then show "a = b" by (rule unsigned_word_eqI)
qed simp

lemma length_fmt_02x [simp]: "length (fmt_02x b) = 2"
  by (simp add: fmt_02x_def)

lemma FormatMAC_6:
  "FormatMAC [a, b, c, d, e, f] =
     Some (fmt_02x a @ '':'' @ fmt_02x b @ '':'' @ fmt_02x c @ '':'' @ fmt_02x d @ '':'' @
           fmt_02x e @ '':'' @ fmt_02x f)"
  by (simp add: FormatMAC_def)

lemma length_6_cases:
  assumes "length xs = 6"
  obtains a b c d e f where "xs = [a, b, c, d, e, f]"
  using assms by (auto simp: length_Suc_conv eval_nat_numeral)

lemma length_ge_6:
  "6 \<le> length xs \<Longrightarrow> \<exists>a b c d e f rest. xs = a # b # c # d # e # f # rest"
  by (auto simp: Suc_le_length_iff eval_nat_numeral)

section \<open>Properties\<close>

text \<open>
  Every machine id yields a six-byte address that is locally administered and
  unicast; the other 46 bits are the leading bits of the digest of the id.
\<close>

lemma MACFromID_local_unicast:
  "length (MACFromID vmID) = 6 \<and> bit (MACFromID vmID ! 0) 1 \<and> \<not> bit (MACFromID vmID ! 0) 0 \<and>
   drop_bit 2 (MACFromID vmID ! 0) = drop_bit 2 (sha256 (map of_char vmID) ! 0) \<and>
   tl (MACFromID vmID) = take 5 (tl (sha256 (map of_char vmID)))"
proof -
  obtain a b c d e f rest where h: "sha256 (map of_char vmID) = a # b # c # d # e # f # rest"
    using length_ge_6 [of "sha256 (map of_char vmID)"] by auto
  have "bit (MACFromID vmID ! 0) n = bit (sha256 (map of_char vmID) ! 0) n" if "2 \<le> n" for n
    using that by (auto simp: MACFromID_def h bit_simps dest: bit_imp_le_length)
  then have "drop_bit 2 (MACFromID vmID ! 0) = drop_bit 2 (sha256 (map of_char vmID) ! 0)"
    by (intro bit_word_eqI) (simp add: bit_drop_bit_eq)
  then show ?thesis
    by (auto simp: MACFromID_def h bit_simps dest: bit_imp_le_length)
qed

text \<open>
  On six-byte addresses the textual form loses nothing: it is defined, has 17
  characters, and two addresses with the same text are equal. Machines whose ids hash to
  different addresses get different DHCP leases.
\<close>

lemma FormatMAC_injective:
  assumes "length mac = 6" and "length mac' = 6"
  shows "(\<exists>s. FormatMAC mac = Some s \<and> length s = 17) \<and>
         (FormatMAC mac = FormatMAC mac' \<longrightarrow> mac = mac')"
proof -
  obtain a b c d e f where m: "mac = [a, b, c, d, e, f]" by (rule length_6_cases [OF assms(1)])
  obtain a' b' c' d' e' f' where m': "mac' = [a', b', c', d', e', f']"
    by (rule length_6_cases [OF assms(2)])
  show ?thesis by (auto simp: m m' FormatMAC_6)
qed

lemma FormatMAC_injective_witness:
  "FormatMAC [0x5a, 0x94, 0xef, 0xe4, 0x0c, 0x01] = Some ''5a:94:ef:e4:0c:01'' \<and>
   FormatMAC [0x5a, 0x94, 0xef, 0xe4, 0x0c, 0x01] \<noteq> FormatMAC [0x5a, 0x94, 0xef, 0xe4, 0x0c, 0x02]"
proof -
  have "FormatMAC [0x5a, 0x94, 0xef, 0xe4, 0x0c, 0x01] = Some ''5a:94:ef:e4:0c:01''"
    by (simp add: FormatMAC_6 fmt_02x_def hex_digit_def)
  then show ?thesis
    using FormatMAC_injective
      [of "[0x5a, 0x94, 0xef, 0xe4, 0x0c, 0x01]" "[0x5a, 0x94, 0xef, 0xe4, 0x0c, 0x02]"]
    by auto
qed

end
