(* ===== verification/Manager.thy ===== *)
theory Manager imports Machine Mac_Address Network Vm_Process begin

text \<open>
  The manager of machines (machine/manager.go). Its operations run in goroutines that share the
  manager's maps and the machine objects, so each operation is a sequence of program
  points, one per access to shared state: a critical section of \<open>mgr.mu\<close>, an access to a
  machine's state, a call on a VM or a network. \<open>thread_step\<close> executes one of them, with the
  code's locals in the program point; \<open>None\<close> means that the thread waits. The same function gives the sequential meaning of an
  operation (\<open>run_thread\<close>) and, in the theory of the lifecycle, all interleavings.

  Pointers to machines, VMs and networks are numbers into three stores. What the outside world
  answers (the network library, the operating system, timers, the guest) comes in a record of
  answers, one field per question.
\<close>

section \<open>State\<close>

record mgr =
  machines :: "string \<rightharpoonup> nat"
  vms :: "string \<rightharpoonup> nat"
  networks :: "string \<rightharpoonup> nat"
  vmmBinPath :: string
  socketDir :: string
  rootfsDir :: string
  krunLogLevel :: u32
  objs :: "nat \<Rightarrow> machine"
  vm_objs :: "nat \<Rightarrow> vm"
  net_objs :: "nat \<Rightarrow> vmnet"
  fresh :: nat
  clock :: nat
  clones :: "string set"

text \<open>What an unused store cell holds: nothing reads one.\<close>

definition no_machine :: machine where
  "no_machine =
     \<lparr>ID = [], Name = [],
      Config = \<lparr>VCPUs = 0, MemoryMiB = 0, RootfsPath = [], ExecPath = [], Args = [], Env = [],
                Workdir = [], Volumes = []\<rparr>,
      Network = \<lparr>ProxyAddr = []\<rparr>, State = StateCreated, ExecSocketPath = [],
      RootfsIsClone = False, CreatedAt = 0, UpdatedAt = 0\<rparr>"

definition no_vm :: vm where
  "no_vm = NewVM
     \<lparr>LogLevel = 0, VmmBinPath = [], vc_VCPUs = 0, vc_MemoryMiB = 0, vc_RootfsPath = [],
      vc_ExecPath = [], vc_Args = [], vc_Env = [], vc_Workdir = [], ConsolePath = [],
      NetSocketPath = [], MAC = [], vc_Volumes = [], ShutdownSocketPath = [], vc_ExecSocketPath = []\<rparr>"

definition no_net :: vmnet where
  "no_net = \<lparr>dialer = (\<lambda>_ _. Direct), sockPath = [], cancelled = True, listening = False, bound = False, net_done = True\<rparr>"

datatype new_error = Create_Socket_Dir string | Create_Rootfs_Dir string

text \<open>\<open>NewManager\<close>; \<open>mkdir\<close> is the error of \<open>os.MkdirAll\<close> on a path.\<close>

definition NewManager ::
  "(string \<Rightarrow> string option) \<Rightarrow> string \<Rightarrow> string \<Rightarrow> u32 \<Rightarrow> new_error + mgr" where
  "NewManager mkdir vmmBin sockDir logLevel =
     (case mkdir sockDir of
        Some e \<Rightarrow> Inl (Create_Socket_Dir e)
      | None \<Rightarrow>
          (let rootfs = path_join [sockDir, ''rootfs''] in
           case mkdir rootfs of
             Some e \<Rightarrow> Inl (Create_Rootfs_Dir e)
           | None \<Rightarrow>
               Inr \<lparr>machines = Map.empty, vms = Map.empty, networks = Map.empty,
                    vmmBinPath = vmmBin, socketDir = sockDir, rootfsDir = rootfs,
                    krunLogLevel = logLevel,
                    objs = (\<lambda>_. no_machine), vm_objs = (\<lambda>_. no_vm), net_objs = (\<lambda>_. no_net),
                    fresh = 0, clock = 0, clones = {}\<rparr>))"

text \<open>\<open>m.SetState\<close> through a pointer, and \<open>vmNet.Close\<close>.\<close>

definition set_state :: "nat \<Rightarrow> mstate \<Rightarrow> mgr \<Rightarrow> mgr" where
  "set_state r st s =
     s\<lparr>objs := (objs s)(r := SetState (clock s) st (objs s r)), clock := Suc (clock s)\<rparr>"

definition get_state :: "nat \<Rightarrow> mgr \<Rightarrow> mstate" where
  "get_state r s = GetState (objs s r)"

definition close_net :: "bool \<Rightarrow> nat \<Rightarrow> mgr \<Rightarrow> mgr" where
  "close_net srv n s = s\<lparr>net_objs := (net_objs s)(n := net_Close srv (net_objs s n))\<rparr>"

definition unregister :: "string \<Rightarrow> mgr \<Rightarrow> mgr" where
  "unregister i s = s\<lparr>vms := (vms s)(i := None), networks := (networks s)(i := None)\<rparr>"

section \<open>Results\<close>

datatype mgr_error =
    Not_Found string
  | Cannot_Start string mstate
  | Create_Network net_error
  | Start_VM vm_error
  | Cannot_Stop string mstate
  | Must_Be_Stopped string mstate
  | Clone_Base_Image string

datatype result = Ok | Ok_Machine nat | Err mgr_error

text \<open>The error texts, which the HTTP handlers send to the client.\<close>

fun net_error_text :: "net_error \<Rightarrow> string" where
  "net_error_text (Create_Virtual_Network e) = ''create virtual network: '' @ e"
| "net_error_text (Listen_Unixgram p e) = ''listen unixgram '' @ p @ '': '' @ e"

fun vm_error_text :: "vm_error \<Rightarrow> string" where
  "vm_error_text (Marshal_Config e) = ''marshal vmm config: '' @ e"
| "vm_error_text (Stdin_Pipe e) = ''stdin pipe: '' @ e"
| "vm_error_text (Start_Vmm e) = ''start krun-vmm: '' @ e"
| "vm_error_text (Write_Config e) = ''write config to krun-vmm: '' @ e"

fun error_text :: "mgr_error \<Rightarrow> string" where
  "error_text (Not_Found i) = ''machine '' @ i @ '' not found''"
| "error_text (Cannot_Start i st) =
     ''machine '' @ i @ '' is in state '' @ state_string st @ '', cannot start''"
| "error_text (Create_Network e) = ''create network: '' @ net_error_text e"
| "error_text (Start_VM e) = ''start VM: '' @ vm_error_text e"
| "error_text (Cannot_Stop i st) =
     ''machine '' @ i @ '' is in state '' @ state_string st @ '', cannot stop''"
| "error_text (Must_Be_Stopped i st) =
     ''machine '' @ i @ '' is in state '' @ state_string st @ '', must be stopped before delete''"
| "error_text (Clone_Base_Image e) = ''clone base image: '' @ e"

section \<open>Program points\<close>

text \<open>
  A program point is named after what the thread does next; its arguments are the locals:
  the machine's id and pointer, the network's and the VM's pointers, and for \<open>Stop\<close> the two
  map lookups it made at its start.
\<close>

datatype create_pc =
    Create_Enter string string config network_config
  | Create_Add machine

datatype start_pc =
    Start_Enter string
  | Start_Net string nat
  | Start_Spawn string nat nat
  | Start_Close string nat nat mgr_error
  | Start_Fail string nat mgr_error
  | Start_Register string nat nat nat
  | Start_Run string nat nat nat

datatype mon_pc =
    Mon_Wait string nat nat nat
  | Mon_Close string nat nat
  | Mon_State string nat
  | Mon_Delete string

datatype halt_pc =
    Stop_Enter string
  | Stop_Check string nat "nat option" "nat option"
  | Stop_Mark string nat "nat option" "nat option"
  | Stop_Net string nat "nat option" "nat option"
  | Stop_Vm string nat nat "nat option" stop_pc
  | Stop_Poll string nat "nat option"
  | Stop_Select string nat "nat option"
  | Stop_Force string nat "nat option"
  | Stop_Force_State string nat
  | Stop_Force_Delete string
  | Stop_No_VM string nat "nat option"
  | Stop_No_VM_State string nat

datatype delete_pc =
    Delete_Enter string bool
  | Delete_Rootfs nat bool

datatype thread =
    Creating create_pc
  | Starting start_pc
  | Monitoring mon_pc
  | Stopping halt_pc
  | Deleting delete_pc
  | Done result

text \<open>
  The answers: errors of \<open>proxy.SOCKS5\<close>, \<open>virtualnetwork.New\<close> and \<open>net.ListenUnixgram\<close>; what becomes of
  starting the child; whether a closed network's goroutine ends in time; the next event in
  \<open>vm.Stop\<close>; whether the ten-second deadline of \<open>Stop\<close> has fired; a new id; errors of
  cloning and of removing a directory.
\<close>

record answers =
  a_socks :: "string option"
  a_new_vn :: "string option"
  a_listen :: "string option"
  a_spawn :: spawn
  a_served :: bool
  a_stop :: stop_choice
  a_deadline :: bool
  a_uuid :: string
  a_clone :: "string option"
  a_remove :: "string option"

section \<open>What Start hands to the VM\<close>

text \<open>\<open>FormatMAC\<close> is defined on every address \<open>MACFromID\<close> makes (\<open>mac_string_defined\<close>).\<close>

definition mac_string :: "string \<Rightarrow> string" where
  "mac_string i = (case FormatMAC (MACFromID i) of Some t \<Rightarrow> t | None \<Rightarrow> [])"

lemma mac_string_defined: "FormatMAC (MACFromID i) = Some (mac_string i)"
  by (simp add: mac_string_def FormatMAC_def)

definition console_path :: "mgr \<Rightarrow> string \<Rightarrow> string" where
  "console_path s i = path_join [socketDir s, i @ ''.console'']"

definition shutdown_path :: "mgr \<Rightarrow> string \<Rightarrow> string" where
  "shutdown_path s i = path_join [socketDir s, i @ ''.shutdown.sock'']"

definition exec_path :: "mgr \<Rightarrow> string \<Rightarrow> string" where
  "exec_path s i = path_join [socketDir s, i @ ''.exec.sock'']"

definition start_net_opts :: "mgr \<Rightarrow> string \<Rightarrow> machine \<Rightarrow> net_opts" where
  "start_net_opts s i m =
     \<lparr>GuestMAC = mac_string i, SocketDir = socketDir s, opts_ProxyAddr = ProxyAddr (Network m)\<rparr>"

text \<open>Go's conversions \<open>uint8(int)\<close> and \<open>uint32(int)\<close> keep the low bits.\<close>

definition start_vm_config :: "mgr \<Rightarrow> string \<Rightarrow> machine \<Rightarrow> vmnet \<Rightarrow> vm_config" where
  "start_vm_config s i m n =
     \<lparr>LogLevel = krunLogLevel s, VmmBinPath = vmmBinPath s,
      vc_VCPUs = word_of_int (VCPUs (Config m)),
      vc_MemoryMiB = word_of_int (MemoryMiB (Config m)),
      vc_RootfsPath = RootfsPath (Config m), vc_ExecPath = ExecPath (Config m),
      vc_Args = Args (Config m), vc_Env = EnvSlice (Config m), vc_Workdir = Workdir (Config m),
      ConsolePath = console_path s i, NetSocketPath = SocketPath n, MAC = MACFromID i,
      vc_Volumes = map (\<lambda>v. \<lparr>vol_Tag = Tag v, vol_HostPath = HostPath v\<rparr>) (Volumes (Config m)),
      ShutdownSocketPath = shutdown_path s i, vc_ExecSocketPath = exec_path s i\<rparr>"

section \<open>The operations\<close>

type_synonym outcome = "(thread \<times> mgr \<times> thread list) option"

abbreviation goes :: "thread \<Rightarrow> mgr \<Rightarrow> outcome" where
  "goes t s \<equiv> Some (t, s, [])"

text \<open>
  \<open>Create\<close>: the new machine is built from the clone's outcome, then entered into the map.
\<close>

fun create_step :: "answers \<Rightarrow> create_pc \<Rightarrow> mgr \<Rightarrow> outcome" where
  "create_step a (Create_Enter name base cfg netCfg) s =
     (let i = a_uuid a; now = clock s; path = path_join [rootfsDir s, i] in
      if base \<noteq> [] then
        (case a_clone a of
           Some e \<Rightarrow> goes (Done (Err (Clone_Base_Image e))) s
         | None \<Rightarrow>
             goes (Creating (Create_Add
                 \<lparr>ID = i, Name = name, Config = cfg\<lparr>RootfsPath := path\<rparr>, Network = netCfg,
                  State = StateCreated, ExecSocketPath = [], RootfsIsClone = True,
                  CreatedAt = now, UpdatedAt = now\<rparr>))
               (s\<lparr>clones := insert path (clones s)\<rparr>))
      else
        goes (Creating (Create_Add
            \<lparr>ID = i, Name = name, Config = cfg, Network = netCfg,
             State = StateCreated, ExecSocketPath = [], RootfsIsClone = False,
             CreatedAt = now, UpdatedAt = now\<rparr>)) s)"
| "create_step a (Create_Add m) s =
     goes (Done (Ok_Machine (fresh s)))
       (s\<lparr>machines := (machines s)(ID m \<mapsto> fresh s), objs := (objs s)(fresh s := m),
          fresh := Suc (fresh s)\<rparr>)"

text \<open>\<open>Get\<close> and \<open>List\<close> read the map; \<open>List\<close> visits it in any order, here that of \<open>ids\<close>.\<close>

definition Get :: "string \<Rightarrow> mgr \<Rightarrow> mgr_error + nat" where
  "Get i s = (case machines s i of None \<Rightarrow> Inl (Not_Found i) | Some r \<Rightarrow> Inr r)"

definition List :: "string list \<Rightarrow> mgr \<Rightarrow> nat list" where
  "List ids s = map (\<lambda>i. the (machines s i)) (filter (\<lambda>i. machines s i \<noteq> None) ids)"

text \<open>
  \<open>Start\<close>, with the guard on the state and the move to \<open>starting\<close> in one critical section. Its
  last step also starts the monitor.
\<close>

fun start_step :: "answers \<Rightarrow> start_pc \<Rightarrow> mgr \<Rightarrow> outcome" where
  "start_step a (Start_Enter i) s =
     (case machines s i of
        None \<Rightarrow> goes (Done (Err (Not_Found i))) s
      | Some r \<Rightarrow>
          (if get_state r s \<noteq> StateCreated \<and> get_state r s \<noteq> StateStopped
           then goes (Done (Err (Cannot_Start i (get_state r s)))) s
           else goes (Starting (Start_Net i r)) (set_state r StateStarting s)))"
| "start_step a (Start_Net i r) s =
     (case NewVMNetwork (\<lambda>_. a_socks a) (\<lambda>_ _. a_new_vn a) (\<lambda>_. a_listen a) i
             (start_net_opts s i (objs s r)) of
        Inl e \<Rightarrow> goes (Starting (Start_Fail i r (Create_Network e))) s
      | Inr n \<Rightarrow>
          goes (Starting (Start_Spawn i r (fresh s)))
            (s\<lparr>net_objs := (net_objs s)(fresh s := n), fresh := Suc (fresh s)\<rparr>))"
| "start_step a (Start_Spawn i r n) s =
     (case vm_Start (a_spawn a) (NewVM (start_vm_config s i (objs s r) (net_objs s n))) of
        (Some e, v) \<Rightarrow> goes (Starting (Start_Close i r n (Start_VM e))) s
      | (None, v) \<Rightarrow>
          goes (Starting (Start_Register i r (fresh s) n))
            (s\<lparr>vm_objs := (vm_objs s)(fresh s := v), fresh := Suc (fresh s)\<rparr>))"
| "start_step a (Start_Close i r n e) s =
     goes (Starting (Start_Fail i r e)) (close_net (a_served a) n s)"
| "start_step a (Start_Fail i r e) s = goes (Done (Err e)) (set_state r StateStopped s)"
| "start_step a (Start_Register i r v n) s =
     goes (Starting (Start_Run i r v n))
       (s\<lparr>vms := (vms s)(i \<mapsto> v), networks := (networks s)(i \<mapsto> n)\<rparr>)"
| "start_step a (Start_Run i r v n) s =
     Some (Done Ok,
           set_state r StateRunning
             (s\<lparr>objs := (objs s)(r := (objs s r)\<lparr>ExecSocketPath := exec_path s i\<rparr>)\<rparr>),
           [Monitoring (Mon_Wait i r v n)])"

text \<open>The monitor, the goroutine that \<open>Start\<close> leaves behind.\<close>

fun monitor_step :: "answers \<Rightarrow> mon_pc \<Rightarrow> mgr \<Rightarrow> outcome" where
  "monitor_step a (Mon_Wait i r v n) s =
     (case vm_Wait (vm_objs s v) of
        None \<Rightarrow> None
      | Some (e, v') \<Rightarrow> goes (Monitoring (Mon_Close i r n)) (s\<lparr>vm_objs := (vm_objs s)(v := v')\<rparr>))"
| "monitor_step a (Mon_Close i r n) s =
     goes (Monitoring (Mon_State i r)) (close_net (a_served a) n s)"
| "monitor_step a (Mon_State i r) s =
     goes (Monitoring (Mon_Delete i)) (set_state r StateStopped s)"
| "monitor_step a (Mon_Delete i) s = goes (Done Ok) (unregister i s)"

text \<open>
  \<open>Stop\<close>. It looks the VM and the network up first and reads the state afterwards, outside the
  lock; closes the network; stops the VM; then polls until the monitor has set \<open>stopped\<close>, or the
  deadline fires and it cleans up itself.
\<close>

definition close_opt :: "bool \<Rightarrow> nat option \<Rightarrow> mgr \<Rightarrow> mgr" where
  "close_opt srv no s = (case no of None \<Rightarrow> s | Some n \<Rightarrow> close_net srv n s)"

fun halt_step :: "answers \<Rightarrow> halt_pc \<Rightarrow> mgr \<Rightarrow> outcome" where
  "halt_step a (Stop_Enter i) s =
     (case machines s i of
        None \<Rightarrow> goes (Done (Err (Not_Found i))) s
      | Some r \<Rightarrow> goes (Stopping (Stop_Check i r (vms s i) (networks s i))) s)"
| "halt_step a (Stop_Check i r vo no) s =
     (if get_state r s \<noteq> StateRunning
      then goes (Done (Err (Cannot_Stop i (get_state r s)))) s
      else goes (Stopping (Stop_Mark i r vo no)) s)"
| "halt_step a (Stop_Mark i r vo no) s =
     goes (Stopping (Stop_Net i r vo no)) (set_state r StateStopping s)"
| "halt_step a (Stop_Net i r vo no) s =
     goes (Stopping (case vo of Some v \<Rightarrow> Stop_Vm i r v no Stop_Rpc | None \<Rightarrow> Stop_No_VM i r no))
       (close_opt (a_served a) no s)"
| "halt_step a (Stop_Vm i r v no k) s =
     (if k = Stop_Returned then goes (Stopping (Stop_Poll i r no)) s
      else
        (case vm_stop_step (a_stop a) k (vm_objs s v) of
           None \<Rightarrow> None
         | Some (k', v') \<Rightarrow>
             goes (Stopping (Stop_Vm i r v no k')) (s\<lparr>vm_objs := (vm_objs s)(v := v')\<rparr>)))"
| "halt_step a (Stop_Poll i r no) s =
     (if get_state r s \<noteq> StateStopped then goes (Stopping (Stop_Select i r no)) s
      else goes (Done Ok) s)"
| "halt_step a (Stop_Select i r no) s =
     goes (Stopping (if a_deadline a then Stop_Force i r no else Stop_Poll i r no)) s"
| "halt_step a (Stop_Force i r no) s =
     goes (Stopping (Stop_Force_State i r)) (close_opt (a_served a) no s)"
| "halt_step a (Stop_Force_State i r) s =
     goes (Stopping (Stop_Force_Delete i)) (set_state r StateStopped s)"
| "halt_step a (Stop_Force_Delete i) s = goes (Done Ok) (unregister i s)"
| "halt_step a (Stop_No_VM i r no) s =
     goes (Stopping (Stop_No_VM_State i r)) (close_opt (a_served a) no s)"
| "halt_step a (Stop_No_VM_State i r) s = goes (Done Ok) (set_state r StateStopped s)"

text \<open>\<open>Delete\<close>; an error of removing the clone is only logged.\<close>

fun delete_step :: "answers \<Rightarrow> delete_pc \<Rightarrow> mgr \<Rightarrow> outcome" where
  "delete_step a (Delete_Enter i deleteRootfs) s =
     (case machines s i of
        None \<Rightarrow> goes (Done (Err (Not_Found i))) s
      | Some r \<Rightarrow>
          (if get_state r s \<noteq> StateStopped \<and> get_state r s \<noteq> StateCreated
           then goes (Done (Err (Must_Be_Stopped i (get_state r s)))) s
           else goes (Deleting (Delete_Rootfs r deleteRootfs))
                  (s\<lparr>machines := (machines s)(i := None)\<rparr>)))"
| "delete_step a (Delete_Rootfs r deleteRootfs) s =
     goes (Done Ok)
       (if deleteRootfs \<and> RootfsIsClone (objs s r) \<and> a_remove a = None
        then s\<lparr>clones := clones s - {RootfsPath (Config (objs s r))}\<rparr>
        else s)"

fun thread_step :: "answers \<Rightarrow> thread \<Rightarrow> mgr \<Rightarrow> outcome" where
  "thread_step a (Creating p) s = create_step a p s"
| "thread_step a (Starting p) s = start_step a p s"
| "thread_step a (Monitoring p) s = monitor_step a p s"
| "thread_step a (Stopping p) s = halt_step a p s"
| "thread_step a (Deleting p) s = delete_step a p s"
| "thread_step a (Done r) s = None"

text \<open>
  A call executed without interference: one answer per step, until it is done or waits. The
  threads it leaves behind are collected.
\<close>

fun run_thread :: "answers list \<Rightarrow> thread \<Rightarrow> mgr \<Rightarrow> (thread \<times> mgr \<times> thread list)" where
  "run_thread [] t s = (t, s, [])"
| "run_thread (a # as) t s =
     (case thread_step a t s of
        None \<Rightarrow> (t, s, [])
      | Some (t', s', ts) \<Rightarrow>
          (let (t'', s'', ts') = run_thread as t' s' in (t'', s'', ts @ ts')))"

text \<open>
  \<open>StopAll\<close> picks the running machines under the lock and stops them one after the other,
  ignoring errors; \<open>ids\<close> is the order in which the map is visited and \<open>answers_of\<close> gives the
  answers for each call.
\<close>

definition stop_all_ids :: "string list \<Rightarrow> mgr \<Rightarrow> string list" where
  "stop_all_ids ids s =
     filter (\<lambda>i. case machines s i of None \<Rightarrow> False | Some r \<Rightarrow> get_state r s = StateRunning) ids"

fun stop_each :: "(string \<times> answers list) list \<Rightarrow> mgr \<Rightarrow> mgr" where
  "stop_each [] s = s"
| "stop_each ((i, as) # rest) s =
     stop_each rest (fst (snd (run_thread as (Stopping (Stop_Enter i)) s)))"

definition StopAll :: "string list \<Rightarrow> (string \<Rightarrow> answers list) \<Rightarrow> mgr \<Rightarrow> mgr" where
  "StopAll ids answers_of s =
     stop_each (map (\<lambda>i. (i, answers_of i)) (stop_all_ids ids s)) s"

section \<open>Frame lemmas\<close>

lemma set_state_simps [simp, frame_simps]:
  "machines (set_state r st s) = machines s" "vms (set_state r st s) = vms s"
  "networks (set_state r st s) = networks s" "vm_objs (set_state r st s) = vm_objs s"
  "net_objs (set_state r st s) = net_objs s" "fresh (set_state r st s) = fresh s"
  "clones (set_state r st s) = clones s" "socketDir (set_state r st s) = socketDir s"
  "rootfsDir (set_state r st s) = rootfsDir s" "krunLogLevel (set_state r st s) = krunLogLevel s"
  "vmmBinPath (set_state r st s) = vmmBinPath s" "clock (set_state r st s) = Suc (clock s)"
  "objs (set_state r st s) = (objs s)(r := SetState (clock s) st (objs s r))"
  by (simp_all add: set_state_def)

lemma get_set_state [simp]: "get_state q (set_state r st s) = (if q = r then st else get_state q s)"
  by (simp add: get_state_def)

lemma close_net_simps [simp, frame_simps]:
  "machines (close_net b n s) = machines s" "vms (close_net b n s) = vms s"
  "networks (close_net b n s) = networks s" "vm_objs (close_net b n s) = vm_objs s"
  "fresh (close_net b n s) = fresh s" "clones (close_net b n s) = clones s"
  "objs (close_net b n s) = objs s" "clock (close_net b n s) = clock s"
  "net_objs (close_net b n s) = (net_objs s)(n := net_Close b (net_objs s n))"
  "get_state q (close_net b n s) = get_state q s"
  by (simp_all add: close_net_def get_state_def)

lemma close_opt_simps [simp, frame_simps]:
  "machines (close_opt b no s) = machines s" "vms (close_opt b no s) = vms s"
  "networks (close_opt b no s) = networks s" "vm_objs (close_opt b no s) = vm_objs s"
  "fresh (close_opt b no s) = fresh s" "clones (close_opt b no s) = clones s"
  "objs (close_opt b no s) = objs s" "get_state q (close_opt b no s) = get_state q s"
  by (simp_all add: close_opt_def split: option.split)

lemma unregister_simps [simp, frame_simps]:
  "machines (unregister i s) = machines s" "vms (unregister i s) = (vms s)(i := None)"
  "networks (unregister i s) = (networks s)(i := None)" "vm_objs (unregister i s) = vm_objs s"
  "net_objs (unregister i s) = net_objs s" "fresh (unregister i s) = fresh s"
  "clones (unregister i s) = clones s" "objs (unregister i s) = objs s"
  "get_state q (unregister i s) = get_state q s"
  by (simp_all add: unregister_def get_state_def)

end
