(* ===== verification/Lifecycle.thy ===== *)
theory Lifecycle imports Manager begin

text \<open>
  The manager under concurrency. A system is the manager's state and the threads that run in it:
  callers inside an operation and the monitors that \<open>Start\<close> leaves behind. A step is one program
  point of one thread, a new call, or something the world does to a child or a network. What is
  shown here concerns every interleaving; the theory of the registry restricts the clients.
\<close>

section \<open>Systems and their steps\<close>

record sys =
  mg :: mgr
  threads :: "thread list"

fun is_call :: "thread \<Rightarrow> bool" where
  "is_call (Creating (Create_Enter name base cfg netCfg)) = True"
| "is_call (Starting (Start_Enter i)) = True"
| "is_call (Stopping (Stop_Enter i)) = True"
| "is_call (Deleting (Delete_Enter i del)) = True"
| "is_call _ = False"

inductive world_step :: "mgr \<Rightarrow> mgr \<Rightarrow> bool" where
  child_gone: "child_exit e (vm_objs s v) = Some v' \<Longrightarrow> world_step s (s\<lparr>vm_objs := (vm_objs s)(v := v')\<rparr>)"
| exit_told: "announce_exit (vm_objs s v) = Some v' \<Longrightarrow> world_step s (s\<lparr>vm_objs := (vm_objs s)(v := v')\<rparr>)"
| net_ends: "world_step s (s\<lparr>net_objs := (net_objs s)(n := serve_exit (net_objs s n))\<rparr>)"

text \<open>The machine a thread works on, once it has one.\<close>

fun create_subject :: "create_pc \<Rightarrow> string option" where
  "create_subject (Create_Enter name base cfg netCfg) = None"
| "create_subject (Create_Add m) = Some (ID m)"

fun start_subject :: "start_pc \<Rightarrow> string" where
  "start_subject (Start_Enter i) = i"
| "start_subject (Start_Net i r) = i"
| "start_subject (Start_Spawn i r n) = i"
| "start_subject (Start_Close i r n e) = i"
| "start_subject (Start_Fail i r e) = i"
| "start_subject (Start_Register i r v n) = i"
| "start_subject (Start_Run i r v n) = i"

fun mon_subject :: "mon_pc \<Rightarrow> string" where
  "mon_subject (Mon_Wait i r v n) = i"
| "mon_subject (Mon_Close i r n) = i"
| "mon_subject (Mon_State i r) = i"
| "mon_subject (Mon_Delete i) = i"

fun halt_subject :: "halt_pc \<Rightarrow> string" where
  "halt_subject (Stop_Enter i) = i"
| "halt_subject (Stop_Check i r vo no) = i"
| "halt_subject (Stop_Mark i r vo no) = i"
| "halt_subject (Stop_Net i r vo no) = i"
| "halt_subject (Stop_Vm i r v no k) = i"
| "halt_subject (Stop_Poll i r no) = i"
| "halt_subject (Stop_Select i r no) = i"
| "halt_subject (Stop_Force i r no) = i"
| "halt_subject (Stop_Force_State i r) = i"
| "halt_subject (Stop_Force_Delete i) = i"
| "halt_subject (Stop_No_VM i r no) = i"
| "halt_subject (Stop_No_VM_State i r) = i"

fun subject :: "thread \<Rightarrow> string option" where
  "subject (Creating p) = create_subject p"
| "subject (Starting p) = Some (start_subject p)"
| "subject (Monitoring p) = Some (mon_subject p)"
| "subject (Stopping p) = Some (halt_subject p)"
| "subject (Deleting (Delete_Enter i del)) = Some i"
| "subject (Deleting (Delete_Rootfs r del)) = None"
| "subject (Done res) = None"

text \<open>
  \<open>uuid.New\<close> never gives an id that is in use. A discipline says what the clients do: which call
  they make beside which threads, and in which state and beside which threads a call gets to
  execute its first critical section.
\<close>

record discipline =
  may_call :: "thread \<Rightarrow> thread list \<Rightarrow> bool"
  may_enter :: "thread \<Rightarrow> mgr \<Rightarrow> thread list \<Rightarrow> bool"

definition draws_new :: "answers \<Rightarrow> thread \<Rightarrow> mgr \<Rightarrow> thread list \<Rightarrow> bool" where
  "draws_new a t s others \<longleftrightarrow>
     (case t of
        Creating (Create_Enter name base cfg netCfg) \<Rightarrow>
          machines s (a_uuid a) = None \<and> list_all (\<lambda>u. subject u \<noteq> Some (a_uuid a)) others
      | _ \<Rightarrow> True)"

inductive sys_step :: "discipline \<Rightarrow> sys \<Rightarrow> sys \<Rightarrow> bool" for may where
  sys_run: "thread_step a t s = Some (t', s', new) \<Longrightarrow> draws_new a t s (xs @ ys) \<Longrightarrow>
     may_enter may t s (xs @ ys) \<Longrightarrow>
     sys_step may \<lparr>mg = s, threads = xs @ t # ys\<rparr> \<lparr>mg = s', threads = xs @ t' # ys @ new\<rparr>"
| sys_call: "is_call t \<Longrightarrow> may_call may t xs \<Longrightarrow>
     sys_step may \<lparr>mg = s, threads = xs\<rparr> \<lparr>mg = s, threads = xs @ [t]\<rparr>"
| sys_world: "world_step s s' \<Longrightarrow> sys_step may \<lparr>mg = s, threads = xs\<rparr> \<lparr>mg = s', threads = xs\<rparr>"

definition anyone :: discipline where
  "anyone = \<lparr>may_call = (\<lambda>t others. True), may_enter = (\<lambda>t s others. True)\<rparr>"

definition started_with :: "mgr \<Rightarrow> sys" where
  "started_with s = \<lparr>mg = s, threads = []\<rparr>"

definition new_manager :: "mgr \<Rightarrow> bool" where
  "new_manager s \<longleftrightarrow> (\<exists>mkdir bin dir lvl. NewManager mkdir bin dir lvl = Inr s)"

lemma new_manager_fields:
  "new_manager s \<Longrightarrow> machines s = Map.empty \<and> vms s = Map.empty \<and> networks s = Map.empty \<and>
     vm_objs s = (\<lambda>_. no_vm) \<and> net_objs s = (\<lambda>_. no_net) \<and> fresh s = 0"
  by (auto simp: new_manager_def NewManager_def Let_def split: option.splits)

section \<open>Every live child has an owner\<close>

text \<open>The threads that answer for a child: \<open>Start\<close> until it returns, then the monitor.\<close>

fun owns :: "thread \<Rightarrow> string \<Rightarrow> nat \<Rightarrow> bool" where
  "owns (Starting (Start_Register i r v n)) j w \<longleftrightarrow> i = j \<and> v = w"
| "owns (Starting (Start_Run i r v n)) j w \<longleftrightarrow> i = j \<and> v = w"
| "owns (Monitoring (Mon_Wait i r v n)) j w \<longleftrightarrow> i = j \<and> v = w"
| "owns _ j w \<longleftrightarrow> False"

definition lives :: "vm \<Rightarrow> bool" where
  "lives v \<longleftrightarrow> vm_cmd v = Some Alive \<or> vm_cmd v = Some Dying"

lemmas thread_splits = option.splits if_splits sum.splits prod.splits

lemma no_child_no_life [simp]: "vm_cmd v = None \<Longrightarrow> \<not> lives v"
  by (simp add: lives_def)

definition child_ok :: "vm \<Rightarrow> bool" where
  "child_ok v \<longleftrightarrow> vm_cmd v = None \<or> vm_started v"

lemma vm_Wait_not_live: "vm_Wait v = Some (e, v') \<Longrightarrow> child_ok v \<Longrightarrow> child_ok v' \<and> \<not> lives v'"
  using vm_Wait_started [of v e v']
  by (auto simp: child_ok_def lives_def vm_Wait_def split: option.splits)

lemma vm_stop_step_child:
  "vm_stop_step ch k v = Some (k', v') \<Longrightarrow> child_ok v \<Longrightarrow> child_ok v' \<and> (lives v' \<longrightarrow> lives v)"
  unfolding child_ok_def
  by (induction ch k v rule: vm_stop_step.induct)
    (auto simp: lives_def vm_WaitTimeout_def vm_defs split: option.splits child.splits if_splits list.splits)

lemma world_child:
  "child_exit e v = Some v' \<Longrightarrow> child_ok v \<Longrightarrow> child_ok v' \<and> \<not> lives v'"
  "announce_exit v = Some v' \<Longrightarrow> child_ok v \<Longrightarrow> child_ok v' \<and> \<not> lives v'"
  using child_exit_started [of e v v'] announce_exit_started [of v v']
  by (auto simp: child_ok_def lives_def child_exit_def announce_exit_def
      split: option.splits child.splits if_splits)

text \<open>
  One step of a thread: no child is left half started, and a child that lives afterwards lived
  before under another thread's care or is in the care of this thread or of one it started.
\<close>

definition cared_for :: "outcome \<Rightarrow> thread \<Rightarrow> mgr \<Rightarrow> bool" where
  "cared_for out t s \<longleftrightarrow>
     (case out of
        None \<Rightarrow> True
      | Some (t', s', new) \<Rightarrow>
          fresh s \<le> fresh s' \<and>
          (\<forall>w. child_ok (vm_objs s' w) \<and>
             (lives (vm_objs s' w) \<longrightarrow> w < fresh s' \<and>
                (lives (vm_objs s w) \<and> (\<forall>i. \<not> owns t i w) \<or>
                 (\<exists>u \<in> set (t' # new). \<exists>i. owns u i w)))))"

lemma thread_step_cares:
  assumes ok: "\<forall>w. child_ok (vm_objs s w)" and new: "\<forall>w. lives (vm_objs s w) \<longrightarrow> w < fresh s"
  shows "cared_for (thread_step a t s) t s"
proof (cases t)
  case (Creating p)
  then show ?thesis using ok new
    by (cases p) (auto simp: cared_for_def Let_def less_Suc_eq split: thread_splits)
next
  case (Starting p)
  then show ?thesis using ok new
    by (cases p) (auto simp: cared_for_def Let_def less_Suc_eq child_ok_def dest!: vm_Start_started split: thread_splits)
next
  case (Monitoring p)
  then show ?thesis using ok new
    by (cases p) (auto simp: cared_for_def dest!: vm_Wait_not_live split: thread_splits)
next
  case (Stopping p)
  then show ?thesis using ok new
    by (cases p)
      (auto simp: cared_for_def Let_def dest!: vm_stop_step_child split: thread_splits halt_pc.splits)
next
  case (Deleting p)
  then show ?thesis using ok new
    by (cases p) (auto simp: cared_for_def split: thread_splits)
qed (simp add: cared_for_def)

definition owned_inv :: "sys \<Rightarrow> bool" where
  "owned_inv y \<longleftrightarrow>
     (\<forall>w. child_ok (vm_objs (mg y) w) \<and>
        (lives (vm_objs (mg y) w) \<longrightarrow>
           w < fresh (mg y) \<and> (\<exists>t \<in> set (threads y). \<exists>i. owns t i w)))"

lemma owned_step: "sys_step may y y' \<Longrightarrow> owned_inv y \<Longrightarrow> owned_inv y'"
proof (induction rule: sys_step.induct)
  case (sys_run a t s t' s' new xs ys)
  then have "cared_for (Some (t', s', new)) t s"
    using thread_step_cares [of s a t] by (auto simp: owned_inv_def)
  then show ?case using sys_run.prems
    by (fastforce simp: cared_for_def owned_inv_def)
next
  case (sys_call t s xs)
  then show ?case by (fastforce simp: owned_inv_def)
next
  case (sys_world s s' xs)
  from sys_world.hyps sys_world.prems show ?case
    by (cases rule: world_step.cases) (auto simp: owned_inv_def dest: world_child)
qed

lemma owned_runs: "(sys_step may)\<^sup>*\<^sup>* y y' \<Longrightarrow> owned_inv y \<Longrightarrow> owned_inv y'"
  by (induction rule: rtranclp_induct) (auto intro: owned_step)

lemma owned_new: "new_manager s \<Longrightarrow> owned_inv (started_with s)"
  by (auto simp: owned_inv_def started_with_def child_ok_def no_vm_def NewVM_def lives_def
      dest!: new_manager_fields)

section \<open>Executable runs\<close>

text \<open>A schedule as data, for concrete runs.\<close>

datatype event =
    Run nat answers
  | Call thread
  | Child_Gone nat "string option"
  | Exit_Told nat

fun play :: "discipline \<Rightarrow> event \<Rightarrow> sys \<Rightarrow> sys option" where
  "play may (Run k a) y =
     (if k < length (threads y) \<and>
         draws_new a (threads y ! k) (mg y) (take k (threads y) @ drop (Suc k) (threads y)) \<and>
         may_enter may (threads y ! k) (mg y) (take k (threads y) @ drop (Suc k) (threads y)) then
        (case thread_step a (threads y ! k) (mg y) of
           None \<Rightarrow> None
         | Some (t', s', new) \<Rightarrow> Some \<lparr>mg = s', threads = (threads y)[k := t'] @ new\<rparr>)
      else None)"
| "play may (Call t) y =
     (if is_call t \<and> may_call may t (threads y) then Some (y\<lparr>threads := threads y @ [t]\<rparr>) else None)"
| "play may (Child_Gone v e) y =
     map_option (\<lambda>v'. y\<lparr>mg := (mg y)\<lparr>vm_objs := (vm_objs (mg y))(v := v')\<rparr>\<rparr>) (child_exit e (vm_objs (mg y) v))"
| "play may (Exit_Told v) y =
     map_option (\<lambda>v'. y\<lparr>mg := (mg y)\<lparr>vm_objs := (vm_objs (mg y))(v := v')\<rparr>\<rparr>) (announce_exit (vm_objs (mg y) v))"

fun replay :: "discipline \<Rightarrow> event list \<Rightarrow> sys \<Rightarrow> sys option" where
  "replay may [] y = Some y"
| "replay may (e # es) y = (case play may e y of None \<Rightarrow> None | Some y' \<Rightarrow> replay may es y')"

lemma play_step: "play may ev y = Some y' \<Longrightarrow> sys_step may y y'"
proof (cases ev)
  case (Run k a)
  moreover assume "play may ev y = Some y'"
  ultimately obtain t' s' new where k: "k < length (threads y)"
    and new_id: "draws_new a (threads y ! k) (mg y) (take k (threads y) @ drop (Suc k) (threads y))"
      "may_enter may (threads y ! k) (mg y) (take k (threads y) @ drop (Suc k) (threads y))"
    and st: "thread_step a (threads y ! k) (mg y) = Some (t', s', new)"
    and y': "y' = \<lparr>mg = s', threads = (threads y)[k := t'] @ new\<rparr>"
    by (auto split: if_splits option.splits)
  have "y = \<lparr>mg = mg y, threads = take k (threads y) @ threads y ! k # drop (Suc k) (threads y)\<rparr>"
    using k by (simp add: id_take_nth_drop [symmetric])
  moreover have "y' = \<lparr>mg = s', threads = take k (threads y) @ t' # drop (Suc k) (threads y) @ new\<rparr>"
    using k y' by (simp add: upd_conv_take_nth_drop)
  ultimately show ?thesis using sys_run [OF st new_id] by metis
next
  case (Call t)
  moreover assume "play may ev y = Some y'"
  ultimately show ?thesis using sys_call [of t may "threads y" "mg y"] by (cases y) (auto split: if_splits)
next
  case (Child_Gone v e)
  moreover assume "play may ev y = Some y'"
  ultimately show ?thesis
    using sys_world [OF child_gone [of e "mg y" v], where may = may and xs = "threads y"] by (cases y) auto
next
  case (Exit_Told v)
  moreover assume "play may ev y = Some y'"
  ultimately show ?thesis
    using sys_world [OF exit_told [of "mg y" v], where may = may and xs = "threads y"] by (cases y) auto
qed

lemma replay_steps: "replay may es y = Some y' \<Longrightarrow> (sys_step may)\<^sup>*\<^sup>* y y'"
  by (induction es arbitrary: y)
    (auto split: option.splits dest: play_step intro: converse_rtranclp_into_rtranclp)

definition calm_answers :: answers where
  "calm_answers =
     \<lparr>a_socks = None, a_new_vn = None, a_listen = None, a_spawn = Spawned, a_served = True, a_stop = Proceed,
      a_deadline = False, a_uuid = ''u1'', a_clone = None, a_remove = None\<rparr>"

definition demo_config :: config where
  "demo_config = \<lparr>VCPUs = 2, MemoryMiB = 512, RootfsPath = ''/r'', ExecPath = ''/bin/sh'', Args = [],
     Env = [], Workdir = [], Volumes = []\<rparr>"

definition demo_mgr :: mgr where
  "demo_mgr = (case NewManager (\<lambda>_. None) ''krun-vmm'' ''/s'' 3 of Inr s \<Rightarrow> s)"

text \<open>Create a machine, then start it.\<close>

definition boot :: "event list" where
  "boot =
     [Call (Creating (Create_Enter ''web'' [] demo_config \<lparr>ProxyAddr = []\<rparr>)),
      Run 0 calm_answers, Run 0 calm_answers,
      Call (Starting (Start_Enter ''u1'')),
      Run 1 calm_answers, Run 1 calm_answers, Run 1 calm_answers, Run 1 calm_answers, Run 1 calm_answers]"

lemma demo_mgr_new: "new_manager demo_mgr"
  unfolding new_manager_def demo_mgr_def
  by (rule exI [of _ "\<lambda>_. None"], rule exI [of _ "''krun-vmm''"], rule exI [of _ "''/s''"],
      rule exI [of _ 3]) (simp add: NewManager_def Let_def)

lemmas run_simps = calm_answers_def demo_config_def demo_mgr_def NewManager_def started_with_def
  get_state_def NewVMNetwork_def vm_Start_def lives_def NewVM_def Let_def SetState_def GetState_def
  draws_new_def boot_def anyone_def

section \<open>Properties\<close>


lemma boot_runs:
  "\<exists>y. (sys_step anyone)\<^sup>*\<^sup>* (started_with demo_mgr) y \<and> lives (vm_objs (mg y) 2)"
proof -
  have "case replay anyone boot (started_with demo_mgr) of
          Some y \<Rightarrow> lives (vm_objs (mg y) 2) | None \<Rightarrow> False"
    by (simp add: run_simps)
  then show ?thesis by (auto split: option.splits dest: replay_steps)
qed


end
