(* ===== verification/Registry.thy ===== *)
theory Registry imports Lifecycle begin

text \<open>
  The manager's registry (its maps of VMs and networks and the machines' states) under calm
  clients. They may call \<open>Start\<close> and \<open>Delete\<close> at any time, beside anything and each other; such a
  call gets past its guard only while no monitor and no \<open>Stop\<close> works on its machine, and is
  rejected at any time. \<open>Stop\<close> is called on a machine that no other call has got hold of, beside its
  monitor or not. Then a running machine is registered and its state moves along the edges of the
  lifecycle only. That the monitor has to be waited for is shown by a run of a client that
  waits for its own calls only.
\<close>

section \<open>Clients\<close>

text \<open>A thread that has yet to execute the critical section with the guard of \<open>Start\<close> or \<open>Delete\<close>.\<close>

fun entering :: "thread \<Rightarrow> bool" where
  "entering (Starting (Start_Enter i)) \<longleftrightarrow> True"
| "entering (Deleting (Delete_Enter i del)) \<longleftrightarrow> True"
| "entering _ \<longleftrightarrow> False"

definition on :: "string \<Rightarrow> thread list \<Rightarrow> thread list" where
  "on i ts = filter (\<lambda>t. subject t = Some i \<and> \<not> entering t) ts"

definition settled :: "mgr \<Rightarrow> string \<Rightarrow> bool" where
  "settled s i \<longleftrightarrow>
     (case machines s i of
        None \<Rightarrow> False
      | Some r \<Rightarrow> get_state r s = StateCreated \<or> get_state r s = StateStopped)"

fun winding_up :: "thread \<Rightarrow> bool" where
  "winding_up (Monitoring m) \<longleftrightarrow> True"
| "winding_up (Stopping h) \<longleftrightarrow> True"
| "winding_up _ \<longleftrightarrow> False"

fun calm_call :: "thread \<Rightarrow> thread list \<Rightarrow> bool" where
  "calm_call (Stopping p) others \<longleftrightarrow>
     (case on (halt_subject p) others of [] \<Rightarrow> True | [Monitoring m] \<Rightarrow> True | _ \<Rightarrow> False)"
| "calm_call t others \<longleftrightarrow> True"

definition calm_enter :: "thread \<Rightarrow> mgr \<Rightarrow> thread list \<Rightarrow> bool" where
  "calm_enter t s others \<longleftrightarrow>
     (case subject t of
        None \<Rightarrow> True
      | Some i \<Rightarrow> entering t \<and> settled s i \<longrightarrow> \<not> list_ex winding_up (on i others))"

definition calm :: discipline where
  "calm = \<lparr>may_call = calm_call, may_enter = calm_enter\<rparr>"

section \<open>The invariant of one machine\<close>

text \<open>\<open>at_state s i r st\<close>: machine \<open>i\<close> is the object \<open>r\<close>, which is in state \<open>st\<close>.\<close>

definition at_state :: "mgr \<Rightarrow> string \<Rightarrow> nat \<Rightarrow> mstate \<Rightarrow> bool" where
  "at_state s i r st \<longleftrightarrow> machines s i = Some r \<and> get_state r s = st"

definition registered :: "mgr \<Rightarrow> string \<Rightarrow> bool" where
  "registered s i \<longleftrightarrow> vms s i \<noteq> None \<and> networks s i \<noteq> None"

definition unregistered :: "mgr \<Rightarrow> string \<Rightarrow> bool" where
  "unregistered s i \<longleftrightarrow> vms s i = None \<and> networks s i = None"

definition idle :: "mgr \<Rightarrow> string \<Rightarrow> bool" where
  "idle s i \<longleftrightarrow> unregistered s i \<and>
     (case machines s i of
        None \<Rightarrow> True
      | Some r \<Rightarrow> get_state r s = StateCreated \<or> get_state r s = StateStopped)"

fun start_ok :: "mgr \<Rightarrow> start_pc \<Rightarrow> bool" where
  "start_ok s (Start_Enter i) \<longleftrightarrow> False"
| "start_ok s (Start_Net i r) \<longleftrightarrow> at_state s i r StateStarting \<and> unregistered s i"
| "start_ok s (Start_Spawn i r n) \<longleftrightarrow> at_state s i r StateStarting \<and> unregistered s i"
| "start_ok s (Start_Close i r n e) \<longleftrightarrow> at_state s i r StateStarting \<and> unregistered s i"
| "start_ok s (Start_Fail i r e) \<longleftrightarrow> at_state s i r StateStarting \<and> unregistered s i"
| "start_ok s (Start_Register i r v n) \<longleftrightarrow> at_state s i r StateStarting \<and> unregistered s i"
| "start_ok s (Start_Run i r v n) \<longleftrightarrow>
     at_state s i r StateStarting \<and> vms s i = Some v \<and> networks s i = Some n"

text \<open>
  A monitor before it gives the registration up: its machine runs and is registered, or a forced
  \<open>Stop\<close> has already stopped and unregistered it.
\<close>

fun mon_ok :: "mgr \<Rightarrow> mon_pc \<Rightarrow> bool" where
  "mon_ok s (Mon_Wait i r v n) \<longleftrightarrow>
     at_state s i r StateRunning \<and> vms s i = Some v \<and> networks s i = Some n \<or>
     at_state s i r StateStopped \<and> unregistered s i"
| "mon_ok s (Mon_Close i r n) \<longleftrightarrow>
     at_state s i r StateRunning \<and> registered s i \<or> at_state s i r StateStopped \<and> unregistered s i"
| "mon_ok s (Mon_State i r) \<longleftrightarrow>
     at_state s i r StateRunning \<and> registered s i \<or> at_state s i r StateStopped \<and> unregistered s i"
| "mon_ok s (Mon_Delete i) \<longleftrightarrow> (\<exists>r. at_state s i r StateStopped)"

text \<open>\<open>Stop\<close> without its monitor: the monitor has finished.\<close>

definition stop_done :: "mgr \<Rightarrow> string \<Rightarrow> nat \<Rightarrow> bool" where
  "stop_done s i r \<longleftrightarrow>
     unregistered s i \<and> (at_state s i r StateStopping \<or> at_state s i r StateStopped)"

fun halt_ok :: "mgr \<Rightarrow> halt_pc \<Rightarrow> bool" where
  "halt_ok s (Stop_Enter i) \<longleftrightarrow> idle s i"
| "halt_ok s (Stop_Check i r vo no) \<longleftrightarrow> idle s i \<and> machines s i = Some r"
| "halt_ok s (Stop_Mark i r vo no) \<longleftrightarrow> at_state s i r StateStopped \<and> unregistered s i \<and> vo \<noteq> None"
| "halt_ok s (Stop_Net i r vo no) \<longleftrightarrow> stop_done s i r \<and> vo \<noteq> None"
| "halt_ok s (Stop_Vm i r v no k) \<longleftrightarrow> stop_done s i r"
| "halt_ok s (Stop_Poll i r no) \<longleftrightarrow> stop_done s i r"
| "halt_ok s (Stop_Select i r no) \<longleftrightarrow> stop_done s i r"
| "halt_ok s (Stop_Force i r no) \<longleftrightarrow> stop_done s i r"
| "halt_ok s (Stop_Force_State i r) \<longleftrightarrow> stop_done s i r"
| "halt_ok s (Stop_Force_Delete i) \<longleftrightarrow> unregistered s i \<and> (\<exists>r. at_state s i r StateStopped)"
| "halt_ok s (Stop_No_VM i r no) \<longleftrightarrow> False"
| "halt_ok s (Stop_No_VM_State i r) \<longleftrightarrow> False"

text \<open>\<open>Stop\<close> beside the monitor. \<open>late\<close>: the monitor has only its map entries left to delete.\<close>

fun late :: "mon_pc \<Rightarrow> bool" where
  "late (Mon_Delete i) \<longleftrightarrow> True"
| "late _ \<longleftrightarrow> False"

fun mon_on :: "mgr \<Rightarrow> mon_pc \<Rightarrow> nat \<Rightarrow> bool" where
  "mon_on s (Mon_Wait i r v n) q \<longleftrightarrow> r = q \<and> vms s i = Some v \<and> networks s i = Some n"
| "mon_on s (Mon_Close i r n) q \<longleftrightarrow> r = q"
| "mon_on s (Mon_State i r) q \<longleftrightarrow> r = q"
| "mon_on s (Mon_Delete i) q \<longleftrightarrow> True"

definition stop_beside :: "mgr \<Rightarrow> mon_pc \<Rightarrow> string \<Rightarrow> nat \<Rightarrow> bool" where
  "stop_beside s m i r \<longleftrightarrow> registered s i \<and> mon_on s m r \<and>
     (at_state s i r StateStopping \<or> late m \<and> at_state s i r StateStopped)"

fun pair_ok :: "mgr \<Rightarrow> mon_pc \<Rightarrow> halt_pc \<Rightarrow> bool" where
  "pair_ok s m (Stop_Enter i) \<longleftrightarrow> mon_ok s m"
| "pair_ok s m (Stop_Check i r vo no) \<longleftrightarrow> mon_ok s m \<and> machines s i = Some r \<and>
     (get_state r s = StateRunning \<longrightarrow> vo \<noteq> None)"
| "pair_ok s m (Stop_Mark i r vo no) \<longleftrightarrow> registered s i \<and> mon_on s m r \<and> vo \<noteq> None \<and>
     at_state s i r (if late m then StateStopped else StateRunning)"
| "pair_ok s m (Stop_Net i r vo no) \<longleftrightarrow> stop_beside s m i r \<and> vo \<noteq> None"
| "pair_ok s m (Stop_Vm i r v no k) \<longleftrightarrow> stop_beside s m i r"
| "pair_ok s m (Stop_Poll i r no) \<longleftrightarrow> stop_beside s m i r"
| "pair_ok s m (Stop_Select i r no) \<longleftrightarrow> stop_beside s m i r"
| "pair_ok s m (Stop_Force i r no) \<longleftrightarrow> stop_beside s m i r"
| "pair_ok s m (Stop_Force_State i r) \<longleftrightarrow> stop_beside s m i r"
| "pair_ok s m (Stop_Force_Delete i) \<longleftrightarrow>
     registered s i \<and> (\<exists>r. mon_on s m r \<and> at_state s i r StateStopped)"
| "pair_ok s m (Stop_No_VM i r no) \<longleftrightarrow> False"
| "pair_ok s m (Stop_No_VM_State i r) \<longleftrightarrow> False"

fun alone_ok :: "mgr \<Rightarrow> thread \<Rightarrow> bool" where
  "alone_ok s (Creating (Create_Enter name base cfg netCfg)) \<longleftrightarrow> True"
| "alone_ok s (Creating (Create_Add m)) \<longleftrightarrow>
     State m = StateCreated \<and> machines s (ID m) = None \<and> unregistered s (ID m)"
| "alone_ok s (Starting p) \<longleftrightarrow> start_ok s p"
| "alone_ok s (Monitoring p) \<longleftrightarrow> mon_ok s p"
| "alone_ok s (Stopping p) \<longleftrightarrow> halt_ok s p"
| "alone_ok s (Deleting (Delete_Enter i del)) \<longleftrightarrow> False"
| "alone_ok s (Deleting (Delete_Rootfs r del)) \<longleftrightarrow> True"
| "alone_ok s (Done res) \<longleftrightarrow> True"

fun machine_ok :: "mgr \<Rightarrow> string \<Rightarrow> thread list \<Rightarrow> bool" where
  "machine_ok s i [] \<longleftrightarrow> idle s i"
| "machine_ok s i [t] \<longleftrightarrow> alone_ok s t"
| "machine_ok s i [Monitoring m, Stopping h] \<longleftrightarrow> pair_ok s m h"
| "machine_ok s i _ \<longleftrightarrow> False"

definition objs_ok :: "mgr \<Rightarrow> bool" where
  "objs_ok s \<longleftrightarrow> (\<forall>i r. machines s i = Some r \<longrightarrow> r < fresh s \<and> ID (objs s r) = i)"

definition calm_inv :: "sys \<Rightarrow> bool" where
  "calm_inv y \<longleftrightarrow> objs_ok (mg y) \<and> (\<forall>i. machine_ok (mg y) i (on i (threads y)))"

section \<open>What the invariant of a machine depends on\<close>

definition view :: "mgr \<Rightarrow> string \<Rightarrow> nat option \<times> nat option \<times> nat option \<times> mstate option" where
  "view s i = (machines s i, vms s i, networks s i, map_option (\<lambda>r. get_state r s) (machines s i))"

lemmas reg_defs = at_state_def registered_def unregistered_def idle_def stop_done_def stop_beside_def

lemma at_state_cong: "view s' i = view s i \<Longrightarrow> at_state s' i r st = at_state s i r st"
  by (auto simp: view_def at_state_def)

lemma reg_cong:
  "view s' i = view s i \<Longrightarrow> machines s' i = machines s i \<and> vms s' i = vms s i \<and> networks s' i = networks s i \<and>
     registered s' i = registered s i \<and> unregistered s' i = unregistered s i \<and> idle s' i = idle s i"
  by (auto simp: view_def reg_defs split: option.splits)

lemma start_ok_cong: "view s' i = view s i \<Longrightarrow> start_subject p = i \<Longrightarrow> start_ok s' p = start_ok s p"
  using reg_cong [of s' i s] at_state_cong [of s' i s] by (cases p) auto

lemma mon_ok_cong: "view s' i = view s i \<Longrightarrow> mon_subject p = i \<Longrightarrow> mon_ok s' p = mon_ok s p"
  using reg_cong [of s' i s] at_state_cong [of s' i s] by (cases p) auto

lemma mon_on_cong: "view s' i = view s i \<Longrightarrow> mon_subject p = i \<Longrightarrow> mon_on s' p r = mon_on s p r"
  using reg_cong [of s' i s] by (cases p) auto

lemma halt_ok_cong: "view s' i = view s i \<Longrightarrow> halt_subject p = i \<Longrightarrow> halt_ok s' p = halt_ok s p"
  using reg_cong [of s' i s] at_state_cong [of s' i s] by (cases p) (auto simp: stop_done_def)

lemma pair_ok_cong:
  "view s' i = view s i \<Longrightarrow> mon_subject m = i \<Longrightarrow> halt_subject h = i \<Longrightarrow> pair_ok s' m h = pair_ok s m h"
  using reg_cong [of s' i s] at_state_cong [of s' i s] mon_ok_cong [of s' i s m] mon_on_cong [of s' i s m]
  by (cases h) (auto simp: stop_beside_def, auto simp: view_def)

lemma alone_ok_cong: "view s' i = view s i \<Longrightarrow> subject t = Some i \<Longrightarrow> alone_ok s' t = alone_ok s t"
  using reg_cong [of s' i s] start_ok_cong [of s' i s] mon_ok_cong [of s' i s] halt_ok_cong [of s' i s]
  by (cases "(s, t)" rule: alone_ok.cases) auto

lemma machine_ok_cong:
  "view s' i = view s i \<Longrightarrow> list_all (\<lambda>t. subject t = Some i \<and> \<not> entering t) ts \<Longrightarrow>
     machine_ok s' i ts = machine_ok s i ts"
  using reg_cong [of s' i s] alone_ok_cong [of s' i s] pair_ok_cong [of s' i s]
  by (cases "(s, i, ts)" rule: machine_ok.cases) auto

lemma subject_on: "list_all (\<lambda>t. subject t = Some i \<and> \<not> entering t) (on i ts)"
  by (simp add: on_def list_all_iff)

lemma machine_ok_view:
  "view s' i = view s i \<Longrightarrow> machine_ok s' i (on i ts) = machine_ok s i (on i ts)"
  by (rule machine_ok_cong [OF _ subject_on])

lemma on_append [simp]: "on i (xs @ ys) = on i xs @ on i ys"
  by (simp add: on_def)

lemma on_Nil [simp]: "on i [] = []"
  by (simp add: on_def)

lemma on_Cons:
  "on i (t # ts) = (if subject t = Some i \<and> \<not> entering t then t # on i ts else on i ts)"
  by (simp add: on_def)

lemma on_halting:
  "on i (Monitoring m # ts) = (if mon_subject m = i then Monitoring m # on i ts else on i ts)"
  "on i (Stopping h # ts) = (if halt_subject h = i then Stopping h # on i ts else on i ts)"
  "on i (Done res # ts) = on i ts"
  by (simp_all add: on_Cons)

lemma on_cut: "on i (xs @ t # ys) = on i xs @ on i [t] @ on i ys"
  by (simp add: on_Cons)

section \<open>A step leaves other machines alone\<close>

text \<open>The object a thread is about to write is the one its machine's entry points to.\<close>

fun writes_own :: "mgr \<Rightarrow> thread \<Rightarrow> bool" where
  "writes_own s (Starting (Start_Fail i r e)) \<longleftrightarrow> machines s i = Some r"
| "writes_own s (Starting (Start_Run i r v n)) \<longleftrightarrow> machines s i = Some r"
| "writes_own s (Monitoring (Mon_State i r)) \<longleftrightarrow> machines s i = Some r"
| "writes_own s (Stopping (Stop_Mark i r vo no)) \<longleftrightarrow> machines s i = Some r"
| "writes_own s (Stopping (Stop_Force_State i r)) \<longleftrightarrow> machines s i = Some r"
| "writes_own s (Stopping (Stop_No_VM_State i r)) \<longleftrightarrow> machines s i = Some r"
| "writes_own s _ \<longleftrightarrow> True"

lemma alone_writes_own: "alone_ok s t \<Longrightarrow> writes_own s t"
  by (cases "(s, t)" rule: writes_own.cases) (auto simp: reg_defs)

lemma pair_writes_own: "pair_ok s m h \<Longrightarrow> writes_own s (Stopping h)"
  by (cases h) (auto simp: reg_defs)

lemma objs_ok_other: "objs_ok s \<Longrightarrow> machines s j = Some r \<Longrightarrow> machines s i = Some r \<Longrightarrow> i = j"
  unfolding objs_ok_def by metis

lemma get_state_upd [simp]:
  "get_state r (s\<lparr>vms := f\<rparr>) = get_state r s" "get_state r (s\<lparr>networks := g\<rparr>) = get_state r s"
  "get_state r (s\<lparr>vm_objs := h\<rparr>) = get_state r s" "get_state r (s\<lparr>net_objs := k\<rparr>) = get_state r s"
  "get_state r (s\<lparr>machines := m\<rparr>) = get_state r s" "get_state r (s\<lparr>fresh := x\<rparr>) = get_state r s"
  "get_state r (s\<lparr>clones := c\<rparr>) = get_state r s"
  "get_state r (s\<lparr>objs := o'\<rparr>) = GetState (o' r)"
  by (simp_all add: get_state_def)

lemma view_eqI:
  assumes "machines s' i = machines s i" "vms s' i = vms s i" "networks s' i = networks s i"
    and "\<And>r. machines s i = Some r \<Longrightarrow> get_state r s' = get_state r s"
  shows "view s' i = view s i"
  using assms by (cases "machines s i") (auto simp: view_def)

lemma step_other:
  assumes st: "thread_step a t s = Some (t', s', new)" and ok: "objs_ok s" and own: "writes_own s t"
    and t: "subject t = Some j" and i: "i \<noteq> j"
  shows "view s' i = view s i"
proof -
  have q: "q < fresh s" "machines s j \<noteq> Some q" if "machines s i = Some q" for q
    using that ok i objs_ok_other by (auto simp: objs_ok_def)
  show ?thesis
  proof (cases t)
    case (Creating p)
    then show ?thesis using st own t i q
      by (cases p) (auto intro!: view_eqI simp: get_state_def Let_def split: thread_splits)
  next
    case (Starting p)
    then show ?thesis using st own t i q
      by (cases p) (auto intro!: view_eqI simp: get_state_def GetState_def split: thread_splits)
  next
    case (Monitoring p)
    then show ?thesis using st own t i q
      by (cases p) (auto intro!: view_eqI split: thread_splits)
  next
    case (Stopping p)
    then show ?thesis using st own t i q
      by (cases p) (auto intro!: view_eqI split: thread_splits halt_pc.splits)
  next
    case (Deleting p)
    then show ?thesis using st own t i q
      by (cases p) (auto intro!: view_eqI split: thread_splits)
  qed (use st in simp)
qed

section \<open>A step keeps the invariant of its machine\<close>

lemma alone_step:
  assumes "thread_step a t s = Some (t', s', new)" "alone_ok s t" "subject t = Some i"
  shows "machine_ok s' i (on i (t' # new))"
proof (cases t)
  case (Creating p)
  then show ?thesis using assms
    by (cases p) (auto simp: on_Cons reg_defs get_state_def GetState_def Let_def split: thread_splits)
next
  case (Starting p)
  then show ?thesis using assms
    by (cases p) (auto simp: on_Cons reg_defs get_state_def GetState_def split: thread_splits)
next
  case (Monitoring p)
  then show ?thesis using assms
    by (cases p) (auto simp: on_Cons reg_defs split: thread_splits)
next
  case (Stopping p)
  then show ?thesis using assms
    by (cases p) (auto simp: on_Cons reg_defs split: thread_splits halt_pc.splits)
next
  case (Deleting p)
  then show ?thesis using assms
    by (cases p) (auto simp: on_Cons reg_defs split: thread_splits)
qed (use assms in simp)

lemma pair_step_stop:
  assumes "thread_step a (Stopping h) s = Some (t', s', new)" "pair_ok s m h"
    and "halt_subject h = i" "mon_subject m = i"
  shows "machine_ok s' i (Monitoring m # on i (t' # new))"
  using assms
  by (cases h; cases m) (auto simp: on_halting reg_defs split: thread_splits halt_pc.splits)

lemma pair_step_mon:
  assumes "thread_step a (Monitoring m) s = Some (t', s', new)" "pair_ok s m h"
    and "halt_subject h = i" "mon_subject m = i"
  shows "machine_ok s' i (on i (t' # new) @ [Stopping h])"
  using assms
  by (cases h; cases m) (auto simp: on_halting reg_defs split: thread_splits halt_pc.splits)

lemma objs_ok_set_state [simp]: "objs_ok (set_state r st s) = objs_ok s"
  by (auto simp: objs_ok_def)

lemma objs_ok_step:
  assumes st: "thread_step a t s = Some (t', s', new)" and ok: "objs_ok s"
  shows "objs_ok s'"
proof -
  have q: "q \<noteq> fresh s \<and> q < Suc (fresh s) \<and> ID (objs s q) = i" if "machines s i = Some q" for q i
    using that ok by (fastforce simp: objs_ok_def)
  show ?thesis
  proof (cases t)
    case (Creating p)
    then show ?thesis using st ok q
      by (cases p) (auto simp: objs_ok_def Let_def split: thread_splits)
  next
    case (Starting p)
    then show ?thesis using st ok q
      by (cases p) (auto split: thread_splits, auto simp: objs_ok_def)
  next
    case (Monitoring p)
    then show ?thesis using st ok
      by (cases p) (auto simp: objs_ok_def split: thread_splits)
  next
    case (Stopping p)
    then show ?thesis using st ok
      by (cases p) (auto simp: objs_ok_def split: thread_splits halt_pc.splits)
  next
    case (Deleting p)
    then show ?thesis using st ok
      by (cases p) (auto simp: objs_ok_def split: thread_splits)
  qed (use st in simp)
qed

section \<open>The invariant of the system\<close>

lemma step_subject:
  assumes st: "thread_step a t s = Some (t', s', new)" and t: "subject t = Some j"
  shows "list_all (\<lambda>u. subject u = None \<or> subject u = Some j) (t' # new)"
proof (cases t)
  case (Creating p)
  then show ?thesis using st t by (cases p) auto
next
  case (Starting p)
  then show ?thesis using st t by (cases p) (auto split: thread_splits)
next
  case (Monitoring p)
  then show ?thesis using st t by (cases p) (auto split: thread_splits)
next
  case (Stopping p)
  then show ?thesis using st t by (cases p) (auto split: thread_splits halt_pc.splits)
next
  case (Deleting p)
  then show ?thesis using st t by (cases p) (auto split: thread_splits)
qed (use st in simp)

lemma step_without_subject:
  assumes st: "thread_step a t s = Some (t', s', new)" and t: "subject t = None"
  shows "(\<forall>i. view s' i = view s i) \<and> new = [] \<and>
    (subject t' = None \<or>
     (\<exists>m. t' = Creating (Create_Add m) \<and> State m = StateCreated \<and>
        (draws_new a t s others \<longrightarrow> machines s (ID m) = None \<and> on (ID m) others = [])))"
proof (cases t)
  case (Creating p)
  then show ?thesis using st t
    by (cases p)
      (auto simp: view_def get_state_def draws_new_def on_def list_all_iff Let_def filter_empty_conv
        split: thread_splits)
next
  case (Deleting p)
  then show ?thesis using st t by (cases p) (auto simp: view_def get_state_def)
qed (use assms in auto)

lemma machine_ok_parts:
  assumes "machine_ok s i (A @ t # B)"
  obtains "A = []" "B = []" "alone_ok s t"
  | m h where "A = [Monitoring m]" "t = Stopping h" "B = []" "pair_ok s m h"
  | m h where "A = []" "t = Monitoring m" "B = [Stopping h]" "pair_ok s m h"
  using assms
  by (cases "(s, i, A @ t # B)" rule: machine_ok.cases) (auto simp: append_eq_Cons_conv Cons_eq_append_conv)

lemma only_start_spawns:
  assumes "thread_step a t s = Some (t', s', new)" "t = Monitoring m \<or> t = Stopping h"
  shows "new = []"
proof (cases t)
  case (Monitoring p)
  then show ?thesis using assms(1) by (cases p) (auto split: thread_splits)
next
  case (Stopping p)
  then show ?thesis using assms(1) by (cases p) (auto split: thread_splits)
qed (use assms in auto)

lemma machine_step:
  assumes st: "thread_step a t s = Some (t', s', new)" and t: "subject t = Some i"
    and ok: "machine_ok s i (on i xs @ t # on i ys)"
  shows "writes_own s t \<and> machine_ok s' i (on i (xs @ t' # ys @ new))"
  using ok
proof (cases rule: machine_ok_parts)
  case 1
  then show ?thesis using alone_step [OF st _ t] alone_writes_own by (auto simp: on_Cons split: if_splits)
next
  case (2 m h)
  then have i: "halt_subject h = i" "mon_subject m = i"
    using t subject_on [of i xs] by auto
  have "new = []" using only_start_spawns [OF st] 2 by blast
  then show ?thesis using pair_step_stop [of a h s t' s' new m i] st i 2 pair_writes_own
    by (auto simp: on_Cons split: if_splits)
next
  case (3 m h)
  then have i: "halt_subject h = i" "mon_subject m = i"
    using t subject_on [of i ys] by auto
  have "new = []" using only_start_spawns [OF st] 3 by blast
  moreover have "writes_own s t" using 3 i by (cases m; cases h) (auto simp: reg_defs)
  ultimately show ?thesis using pair_step_mon [of a m s t' s' new h i] st i 3
    by (auto simp: on_Cons split: if_splits)
qed

section \<open>Edges of the lifecycle\<close>

fun edge :: "mstate \<Rightarrow> mstate \<Rightarrow> bool" where
  "edge StateCreated st \<longleftrightarrow> st = StateStarting"
| "edge StateStarting st \<longleftrightarrow> st = StateRunning \<or> st = StateStopped"
| "edge StateRunning st \<longleftrightarrow> st = StateStopping \<or> st = StateStopped"
| "edge StateStopping st \<longleftrightarrow> st = StateStopped"
| "edge StateStopped st \<longleftrightarrow> st = StateStarting \<or> st = StateStopping"

definition moves :: "mgr \<Rightarrow> mgr \<Rightarrow> string \<Rightarrow> bool" where
  "moves s s' i \<longleftrightarrow>
     (case (machines s i, machines s' i) of
        (Some r, Some r') \<Rightarrow> get_state r' s' = get_state r s \<or> edge (get_state r s) (get_state r' s')
      | _ \<Rightarrow> True)"

lemma moves_view: "view s' i = view s i \<Longrightarrow> moves s s' i"
  by (auto simp: moves_def view_def split: option.split)

lemma alone_moves:
  assumes "thread_step a t s = Some (t', s', new)" "alone_ok s t" "subject t = Some i"
  shows "moves s s' i"
proof (cases t)
  case (Creating p)
  then show ?thesis using assms by (cases p) (auto simp: moves_def)
next
  case (Starting p)
  then show ?thesis using assms
    by (cases p) (auto simp: moves_def reg_defs get_state_def GetState_def split: thread_splits)
next
  case (Monitoring p)
  then show ?thesis using assms
    by (cases p) (auto simp: moves_def reg_defs split: thread_splits)
next
  case (Stopping p)
  then show ?thesis using assms
    by (cases p) (auto simp: moves_def reg_defs split: thread_splits)
next
  case (Deleting p)
  then show ?thesis using assms by (cases p) (auto simp: moves_def split: thread_splits)
qed (use assms in simp)

lemma pair_moves_stop:
  "thread_step a (Stopping h) s = Some (t', s', new) \<Longrightarrow> pair_ok s m h \<Longrightarrow> halt_subject h = i \<Longrightarrow>
     mon_subject m = i \<Longrightarrow> moves s s' i"
  by (cases h; cases m) (auto simp: moves_def reg_defs split: thread_splits)

lemma pair_moves_mon:
  "thread_step a (Monitoring m) s = Some (t', s', new) \<Longrightarrow> pair_ok s m h \<Longrightarrow> halt_subject h = i \<Longrightarrow>
     mon_subject m = i \<Longrightarrow> moves s s' i"
  by (cases h; cases m) (auto simp: moves_def reg_defs split: thread_splits)

lemma machine_moves:
  assumes st: "thread_step a t s = Some (t', s', new)" and t: "subject t = Some i"
    and ok: "machine_ok s i (on i xs @ t # on i ys)"
  shows "moves s s' i"
  using ok
proof (cases rule: machine_ok_parts)
  case 1
  then show ?thesis using alone_moves [OF st _ t] by simp
next
  case (2 m h)
  then show ?thesis using pair_moves_stop [of a h s t' s' new m i] st t subject_on [of i xs] by auto
next
  case (3 m h)
  then show ?thesis using pair_moves_mon [of a m s t' s' new h i] st t subject_on [of i ys] by auto
qed

section \<open>Steps of the system\<close>

text \<open>A call that executes its guard: it is rejected, or the machine is idle.\<close>

lemma idle_machine:
  assumes "machine_ok s i (on i ts)" and "settled s i" and "\<not> list_ex winding_up (on i ts)"
  shows "on i ts = [] \<and> idle s i"
proof (cases "(s, i, on i ts)" rule: machine_ok.cases)
  case (2 s' i' t)
  then have t: "subject t = Some i" "alone_ok s t" "\<not> winding_up t"
    using assms subject_on [of i ts] by auto
  then have False
    using assms(2) by (cases "(s, t)" rule: alone_ok.cases; simp; rename_tac p; case_tac p)
      (auto simp: settled_def reg_defs split: option.splits)
  then show ?thesis ..
qed (use assms in auto)

lemma entering_step:
  assumes st: "thread_step a t s = Some (t', s', new)" and t: "subject t = Some i" "entering t"
    and en: "calm_enter t s (xs @ ys)" and ok: "machine_ok s i (on i (xs @ ys))"
  shows "writes_own s t \<and> machine_ok s' i (on i (xs @ t' # ys @ new)) \<and> moves s s' i"
proof (cases "settled s i")
  case False
  then show ?thesis using st t ok
    by (cases t rule: entering.cases)
      (auto simp: settled_def on_Cons moves_def split: option.splits if_splits)
next
  case True
  then have "on i (xs @ ys) = [] \<and> idle s i"
    using en t by (intro idle_machine [OF ok]) (simp_all add: calm_enter_def)
  then show ?thesis using True st t
    by (cases t rule: entering.cases)
      (auto simp: settled_def on_Cons reg_defs moves_def split: option.splits if_splits)
qed

lemma calm_run:
  assumes st: "thread_step a t s = Some (t', s', new)" and dn: "draws_new a t s (xs @ ys)"
    and en: "calm_enter t s (xs @ ys)"
    and inv: "calm_inv \<lparr>mg = s, threads = xs @ t # ys\<rparr>"
  shows "calm_inv \<lparr>mg = s', threads = xs @ t' # ys @ new\<rparr> \<and> moves s s' i"
proof -
  have ok: "objs_ok s" and mok: "machine_ok s i (on i (xs @ t # ys))" for i
    using inv by (simp_all add: calm_inv_def)
  have "machine_ok s' i (on i (xs @ t' # ys @ new)) \<and> moves s s' i" for i
  proof (cases "subject t")
    case None
    note n = step_without_subject [OF st None, of "xs @ ys"]
    have "machine_ok s i (on i (xs @ t' # ys))"
    proof (cases "subject t' = Some i")
      case True
      then obtain m where m: "t' = Creating (Create_Add m)" "State m = StateCreated"
        "machines s (ID m) = None" "on (ID m) (xs @ ys) = []" using n dn by auto
      then have "idle s i" using mok [of i] True None by (simp add: on_Cons)
      then show ?thesis using m True by (simp add: on_Cons idle_def)
    next
      case False
      then show ?thesis using mok [of i] None by (simp add: on_Cons)
    qed
    then show ?thesis using n machine_ok_view [of s' i s "xs @ t' # ys"] moves_view by simp
  next
    case (Some j)
    have own: "writes_own s t \<and> machine_ok s' j (on j (xs @ t' # ys @ new)) \<and> moves s s' j"
    proof (cases "entering t")
      case True
      then have "machine_ok s j (on j (xs @ ys))" using mok [of j] by (simp add: on_Cons)
      then show ?thesis by (rule entering_step [OF st Some True en])
    next
      case False
      then have "machine_ok s j (on j xs @ t # on j ys)" using mok [of j] Some by (simp add: on_Cons)
      then show ?thesis using machine_step [OF st Some] machine_moves [OF st Some] by blast
    qed
    show ?thesis
    proof (cases "i = j")
      case False
      have "on i [t'] = []" "on i new = []"
        using step_subject [OF st Some] False by (auto simp: on_def list_all_iff filter_empty_conv)
      then have "on i (xs @ t' # ys @ new) = on i (xs @ t # ys)"
        using Some False by (auto simp: on_Cons split: if_splits)
      moreover have "view s' i = view s i" using step_other [OF st ok _ Some] own False by blast
      ultimately show ?thesis using mok [of i] machine_ok_view moves_view by metis
    qed (use own in simp)
  qed
  then show ?thesis using objs_ok_step [OF st ok] by (simp add: calm_inv_def)
qed

lemma calm_called:
  assumes "is_call t" "calm_call t xs" "calm_inv \<lparr>mg = s, threads = xs\<rparr>"
  shows "calm_inv \<lparr>mg = s, threads = xs @ [t]\<rparr>"
proof -
  have ok: "machine_ok s i (on i xs)" for i using assms(3) by (simp add: calm_inv_def)
  have "machine_ok s i (on i xs @ on i [t])" for i
  proof (cases "subject t = Some i")
    case True
    from assms(1) show ?thesis
    proof (cases t rule: is_call.cases)
      case (3 j)
      then show ?thesis using assms(2) ok [of i] True
        by (auto simp: on_Cons split: list.splits thread.splits)
    qed (use ok [of i] True in \<open>auto simp: on_Cons\<close>)
  next
    case False
    then show ?thesis using ok [of i] by (simp add: on_Cons)
  qed
  then show ?thesis using assms(3) by (simp add: calm_inv_def)
qed

lemma objs_ok_cong:
  "machines s' = machines s \<Longrightarrow> objs s' = objs s \<Longrightarrow> fresh s' = fresh s \<Longrightarrow> objs_ok s' = objs_ok s"
  by (simp add: objs_ok_def)

lemma world_view: "world_step s s' \<Longrightarrow> view s' i = view s i"
  by (erule world_step.cases; simp add: view_def)

lemma world_objs: "world_step s s' \<Longrightarrow> objs_ok s' = objs_ok s"
  by (erule world_step.cases; rule objs_ok_cong; simp)

lemma calm_step:
  "sys_step calm y y' \<Longrightarrow> calm_inv y \<Longrightarrow> calm_inv y' \<and> moves (mg y) (mg y') i"
proof (induction rule: sys_step.induct)
  case (sys_world s s' xs)
  have v: "view s' j = view s j" for j by (rule world_view [OF sys_world.hyps])
  have "machine_ok s' j (on j xs) = machine_ok s j (on j xs)" for j by (rule machine_ok_view [OF v])
  then show ?case
    using world_objs [OF sys_world.hyps] sys_world.prems moves_view [OF v] by (simp add: calm_inv_def)
next
  case (sys_run a t s t' s' new xs ys)
  then show ?case using calm_run by (simp add: calm_def)
next
  case (sys_call t xs s)
  then show ?case using calm_called by (simp add: calm_def moves_view)
qed

lemma calm_runs: "(sys_step calm)\<^sup>*\<^sup>* y y' \<Longrightarrow> calm_inv y \<Longrightarrow> calm_inv y'"
  by (induction rule: rtranclp_induct) (auto dest: calm_step)

lemma calm_new: "new_manager s \<Longrightarrow> calm_inv (started_with s)"
  by (auto simp: calm_inv_def started_with_def objs_ok_def idle_def unregistered_def
      dest!: new_manager_fields)

section \<open>Threads of a running machine, owners of a child\<close>

lemma running_threads:
  assumes "machine_ok s i ts" "list_all (\<lambda>t. subject t = Some i \<and> \<not> entering t) ts"
    and "machines s i = Some r" "get_state r s = StateRunning"
  shows "registered s i \<and> (\<exists>m. ts = [Monitoring m] \<or> (\<exists>h. ts = [Monitoring m, Stopping h]))"
proof (cases "(s, i, ts)" rule: machine_ok.cases)
  case (2 s' i' t)
  then show ?thesis using assms
    by (cases t rule: subject.cases; simp; rename_tac p; case_tac p) (auto simp: reg_defs)
next
  case (3 s' i' m h)
  then show ?thesis using assms
    by (cases h; cases m) (auto simp: reg_defs)
qed (use assms in \<open>auto simp: idle_def\<close>)

lemma owns_subject: "owns t i v \<Longrightarrow> subject t = Some i \<and> \<not> entering t"
  by (cases "(t, i, v)" rule: owns.cases) auto

lemma one_owner:
  "machine_ok s i ts \<Longrightarrow> t \<in> set ts \<Longrightarrow> u \<in> set ts \<Longrightarrow> owns t i v \<Longrightarrow> owns u i w \<Longrightarrow> v = w"
  by (cases "(s, i, ts)" rule: machine_ok.cases; cases "(t, i, v)" rule: owns.cases) auto

section \<open>Properties\<close>

lemma calm_reachable:
  "new_manager s \<Longrightarrow> (sys_step calm)\<^sup>*\<^sup>* (started_with s) y \<Longrightarrow>
     calm_inv y \<and> machine_ok (mg y) i (on i (threads y))"
  using calm_runs [of "started_with s" y] calm_new [of s] by (simp add: calm_inv_def)

lemma boot_calm:
  "\<exists>y. (sys_step calm)\<^sup>*\<^sup>* (started_with demo_mgr) y \<and> machines (mg y) ''u1'' = Some 0 \<and>
     get_state 0 (mg y) = StateRunning \<and> lives (vm_objs (mg y) 2) \<and>
     threads y = [Done (Ok_Machine 0), Done Ok, Monitoring (Mon_Wait ''u1'' 0 2 1)]"
proof -
  have "case replay calm boot (started_with demo_mgr) of
          Some y \<Rightarrow> machines (mg y) ''u1'' = Some 0 \<and> get_state 0 (mg y) = StateRunning \<and>
            lives (vm_objs (mg y) 2) \<and>
            threads y = [Done (Ok_Machine 0), Done Ok, Monitoring (Mon_Wait ''u1'' 0 2 1)]
        | None \<Rightarrow> False"
    by (simp add: run_simps calm_def calm_enter_def on_def)
  then show ?thesis by (auto split: option.splits dest: replay_steps)
qed

text \<open>
  C1 (invariant). Under calm clients, a running machine has its VM and its network registered,
  and the only threads that work on it are one monitor and at most one \<open>Stop\<close>.
\<close>

theorem running_is_registered:
  assumes "new_manager s" and "(sys_step calm)\<^sup>*\<^sup>* (started_with s) y"
    and "machines (mg y) i = Some r" and "get_state r (mg y) = StateRunning"
  shows "registered (mg y) i \<and>
    (\<exists>m. on i (threads y) = [Monitoring m] \<or> (\<exists>h. on i (threads y) = [Monitoring m, Stopping h]))"
  using running_threads [OF _ subject_on assms(3,4)] calm_reachable [OF assms(1,2)] by blast

theorem running_is_registered_witness:
  "\<exists>y :: sys. get_state 0 (mg y) = StateRunning \<and> registered (mg y) ''u1'' \<and>
     (\<exists>m. on ''u1'' (threads y) = [Monitoring m] \<or>
       (\<exists>h. on ''u1'' (threads y) = [Monitoring m, Stopping h]))"
proof -
  obtain y where y: "(sys_step calm)\<^sup>*\<^sup>* (started_with demo_mgr) y" "machines (mg y) ''u1'' = Some 0"
    "get_state 0 (mg y) = StateRunning" using boot_calm by blast
  from running_is_registered [OF demo_mgr_new y] y(3) show ?thesis by blast
qed

text \<open>
  C2 (safety). Under calm clients a machine has one child at most: two live children that are in
  the care of threads of the same machine (every live child is in the care of some thread) are
  the same.
\<close>

theorem one_child_per_machine:
  assumes "new_manager s" and "(sys_step calm)\<^sup>*\<^sup>* (started_with s) y"
    and "t \<in> set (threads y)" "owns t i v" and "u \<in> set (threads y)" "owns u i w"
  shows "v = w"
proof (rule one_owner)
  show "machine_ok (mg y) i (on i (threads y))" using calm_reachable [OF assms(1,2)] by blast
  show "t \<in> set (on i (threads y))" "u \<in> set (on i (threads y))"
    using assms(3-6) owns_subject by (auto simp: on_def)
qed (use assms in auto)

theorem one_child_per_machine_witness:
  "\<exists>(y :: sys) t. t \<in> set (threads y) \<and> owns t ''u1'' 2 \<and>
     (\<forall>u w. u \<in> set (threads y) \<and> owns u ''u1'' w \<longrightarrow> 2 = w)"
proof -
  obtain y where y: "(sys_step calm)\<^sup>*\<^sup>* (started_with demo_mgr) y"
    and t: "Monitoring (Mon_Wait ''u1'' 0 2 1) \<in> set (threads y)" using boot_calm by force
  have "owns (Monitoring (Mon_Wait ''u1'' 0 2 1)) ''u1'' 2" by simp
  with one_child_per_machine [OF demo_mgr_new y t this] t show ?thesis by blast
qed

text \<open>
  C3 (refinement). Under calm clients every step of the system moves each machine along an edge
  of the lifecycle or leaves its state alone: created and stopped lead to starting only (stopped
  also to stopping, when a \<open>Stop\<close> that saw the machine run marks it after it has ended),
  starting to running or stopped, running to stopping or stopped, stopping to stopped.
\<close>

theorem lifecycle_edges:
  assumes "new_manager s" and "(sys_step calm)\<^sup>*\<^sup>* (started_with s) y" and "sys_step calm y y'"
  shows "moves (mg y) (mg y') i"
  using calm_step [OF assms(3)] calm_reachable [OF assms(1,2)] by blast

theorem lifecycle_edges_witness:
  "\<exists>y y' :: sys. sys_step calm y y' \<and> moves (mg y) (mg y') ''u1''"
proof -
  obtain y where y: "(sys_step calm)\<^sup>*\<^sup>* (started_with demo_mgr) y"
    and t: "threads y = [Done (Ok_Machine 0), Done Ok, Monitoring (Mon_Wait ''u1'' 0 2 1)]"
    using boot_calm by blast
  have "play calm (Call (Stopping (Stop_Enter ''u1''))) y =
      Some (y\<lparr>threads := threads y @ [Stopping (Stop_Enter ''u1'')]\<rparr>)" by (simp add: t calm_def on_def)
  from play_step [OF this] lifecycle_edges [OF demo_mgr_new y] show ?thesis by blast
qed

section \<open>A client that waits for its own calls only\<close>

definition serial :: discipline where
  "serial =
     \<lparr>may_call = (\<lambda>t others.
        list_all (\<lambda>u. case u of Done res \<Rightarrow> True | Monitoring m \<Rightarrow> True | _ \<Rightarrow> False) others),
      may_enter = (\<lambda>t s others. True)\<rparr>"

fun succeeded :: "thread \<Rightarrow> bool" where
  "succeeded (Done Ok) = True"
| "succeeded (Done (Ok_Machine r)) = True"
| "succeeded (Monitoring m) = True"
| "succeeded _ = False"

text \<open>
  Stop, start, stop: the first monitor is overtaken between its last two critical sections, by
  the second \<open>Start\<close>, whose registration it then deletes.
\<close>

definition first_stop :: "event list" where
  "first_stop =
     (let go = calm_answers
      in [Call (Stopping (Stop_Enter ''u1'')), Run 3 go, Run 3 go, Run 3 go, Run 3 go,
          Run 3 (go\<lparr>a_stop := Rpc_Result False\<rparr>), Run 3 go, Child_Gone 2 None, Exit_Told 2,
          Run 3 (go\<lparr>a_stop := Receives\<rparr>), Run 3 go, Run 2 go, Run 2 go, Run 2 go, Run 3 go])"

definition second_start :: "event list" where
  "second_start =
     (let go = calm_answers
      in [Call (Starting (Start_Enter ''u1'')), Run 4 go, Run 4 go, Run 4 go, Run 4 go,
          Run 2 go, Run 4 go])"

definition second_stop :: "event list" where
  "second_stop =
     (let go = calm_answers
      in [Call (Stopping (Stop_Enter ''u1'')),
          Run 6 go, Run 6 go, Run 6 go, Run 6 go, Run 6 go, Run 6 go])"

lemmas overtaking = calm_answers_def draws_new_def serial_def Let_def vm_defs vm_WaitTimeout_def
  at_state_def

lemma replay_append:
  "replay may (es @ fs) y = (case replay may es y of None \<Rightarrow> None | Some y' \<Rightarrow> replay may fs y')"
  by (induction es arbitrary: y) (auto split: option.split)

lemma first_stop_runs:
  assumes "threads y = [d, e, Monitoring (Mon_Wait ''u1'' 0 2 1)]" "list_all succeeded [d, e]"
    "\<forall>m. d \<noteq> Monitoring m" "\<forall>m. e \<noteq> Monitoring m"
    and "at_state (mg y) ''u1'' 0 StateRunning" "vms (mg y) ''u1'' = Some 2"
    "networks (mg y) ''u1'' = Some 1" "vm_cmd (vm_objs (mg y) 2) = Some Alive"
    "errC (vm_objs (mg y) 2) = Some \<lparr>queued = [], closed = False\<rparr>" "fresh (mg y) = 3"
  shows "\<exists>y'. replay serial first_stop y = Some y' \<and>
    threads y' = [d, e, Monitoring (Mon_Delete ''u1''), Done Ok] \<and>
    at_state (mg y') ''u1'' 0 StateStopped \<and> fresh (mg y') = 3"
  using assms
  by (cases d rule: succeeded.cases; cases e rule: succeeded.cases)
    (auto simp: first_stop_def overtaking)

lemma second_start_runs:
  assumes "threads y = [d, e, Monitoring (Mon_Delete ''u1''), Done Ok]" "list_all succeeded [d, e]"
    "\<forall>m. d \<noteq> Monitoring m" "\<forall>m. e \<noteq> Monitoring m"
    and "at_state (mg y) ''u1'' 0 StateStopped" "fresh (mg y) = 3"
  shows "\<exists>y'. replay serial second_start y = Some y' \<and>
    threads y' = [d, e, Done Ok, Done Ok, Done Ok, Monitoring (Mon_Wait ''u1'' 0 4 3)] \<and>
    at_state (mg y') ''u1'' 0 StateRunning \<and> unregistered (mg y') ''u1'' \<and>
    vm_cmd (vm_objs (mg y') 4) = Some Alive \<and> \<not> cancelled (net_objs (mg y') 3)"
  using assms
  by (cases d rule: succeeded.cases; cases e rule: succeeded.cases)
    (auto simp: second_start_def overtaking NewVMNetwork_def vm_Start_def unregistered_def)

lemma second_stop_runs:
  assumes "threads y = [d, e, Done Ok, Done Ok, Done Ok, t]" "list_all succeeded [d, e, t]"
    and "at_state (mg y) ''u1'' 0 StateRunning" "unregistered (mg y) ''u1''"
  shows "\<exists>y'. replay serial second_stop y = Some y' \<and>
    threads y' = [d, e, Done Ok, Done Ok, Done Ok, t, Done Ok] \<and>
    at_state (mg y') ''u1'' 0 StateStopped \<and> unregistered (mg y') ''u1'' \<and>
    vm_objs (mg y') = vm_objs (mg y) \<and> net_objs (mg y') = net_objs (mg y)"
  using assms
  by (cases d rule: succeeded.cases; cases e rule: succeeded.cases; cases t rule: succeeded.cases)
    (auto simp: second_stop_def overtaking unregistered_def close_opt_def)

lemma boot_serial:
  "\<exists>y. replay serial boot (started_with demo_mgr) = Some y \<and>
     threads y = [Done (Ok_Machine 0), Done Ok, Monitoring (Mon_Wait ''u1'' 0 2 1)] \<and>
     at_state (mg y) ''u1'' 0 StateRunning \<and> vms (mg y) ''u1'' = Some 2 \<and>
     networks (mg y) ''u1'' = Some 1 \<and> vm_cmd (vm_objs (mg y) 2) = Some Alive \<and>
     errC (vm_objs (mg y) 2) = Some \<lparr>queued = [], closed = False\<rparr> \<and> fresh (mg y) = 3"
  by (simp add: run_simps serial_def at_state_def)

text \<open>
  C33 (safety). Waiting for one's own calls is not enough: a client that makes one call at a time
  can reach a state where every call has succeeded and the machine is stopped and unregistered,
  while its child runs on, unsignalled, with its network open. The cause is that the monitor
  publishes \<open>stopped\<close> before it deletes its map entries.
\<close>

theorem serial_client_orphans_child:
  "\<exists>s y v n. new_manager s \<and> (sys_step serial)\<^sup>*\<^sup>* (started_with s) y \<and>
     list_all succeeded (threads y) \<and>
     at_state (mg y) ''u1'' 0 StateStopped \<and> unregistered (mg y) ''u1'' \<and>
     Monitoring (Mon_Wait ''u1'' 0 v n) \<in> set (threads y) \<and>
     vm_cmd (vm_objs (mg y) v) = Some Alive \<and> \<not> cancelled (net_objs (mg y) n)"
proof -
  obtain y1 where y1: "replay serial boot (started_with demo_mgr) = Some y1"
    "threads y1 = [Done (Ok_Machine 0), Done Ok, Monitoring (Mon_Wait ''u1'' 0 2 1)]"
    "at_state (mg y1) ''u1'' 0 StateRunning" "vms (mg y1) ''u1'' = Some 2"
    "networks (mg y1) ''u1'' = Some 1" "vm_cmd (vm_objs (mg y1) 2) = Some Alive"
    "errC (vm_objs (mg y1) 2) = Some \<lparr>queued = [], closed = False\<rparr>" "fresh (mg y1) = 3"
    using boot_serial by blast
  obtain y2 where y2: "replay serial first_stop y1 = Some y2"
    "threads y2 = [Done (Ok_Machine 0), Done Ok, Monitoring (Mon_Delete ''u1''), Done Ok]"
    "at_state (mg y2) ''u1'' 0 StateStopped" "fresh (mg y2) = 3"
    using first_stop_runs [OF y1(2) _ _ _ y1(3-8)] by auto
  obtain y3 where y3: "replay serial second_start y2 = Some y3"
    "threads y3 = [Done (Ok_Machine 0), Done Ok, Done Ok, Done Ok, Done Ok,
       Monitoring (Mon_Wait ''u1'' 0 4 3)]"
    "at_state (mg y3) ''u1'' 0 StateRunning" "unregistered (mg y3) ''u1''"
    "vm_cmd (vm_objs (mg y3) 4) = Some Alive" "\<not> cancelled (net_objs (mg y3) 3)"
    using second_start_runs [OF y2(2) _ _ _ y2(3,4)] by auto
  obtain y4 where y4: "replay serial second_stop y3 = Some y4"
    "threads y4 = [Done (Ok_Machine 0), Done Ok, Done Ok, Done Ok, Done Ok,
       Monitoring (Mon_Wait ''u1'' 0 4 3), Done Ok]"
    "at_state (mg y4) ''u1'' 0 StateStopped" "unregistered (mg y4) ''u1''"
    "vm_objs (mg y4) = vm_objs (mg y3)" "net_objs (mg y4) = net_objs (mg y3)"
    using second_stop_runs [OF y3(2) _ y3(3,4)] by auto
  have "replay serial (boot @ first_stop @ second_start @ second_stop) (started_with demo_mgr) = Some y4"
    using y1(1) y2(1) y3(1) y4(1) by (simp add: replay_append)
  moreover have "Monitoring (Mon_Wait ''u1'' 0 4 3) \<in> set (threads y4)" "list_all succeeded (threads y4)"
    using y4(2) by simp_all
  ultimately show ?thesis using demo_mgr_new replay_steps y4(3-6) y3(5,6) by metis
qed

end
