(* ===== verification/Operations.thy ===== *)
theory Operations imports Lifecycle begin

text \<open>
  What each operation of the manager does when it runs without interference: results, errors,
  what it changes and what it leaves alone; and what no operation ever changes, however they
  interleave.
\<close>

lemma run_thread_inv:
  assumes "run_thread as t s = (t', s', ts)" and "P t s ts0"
    and "\<And>a t s ts1 t' s' new.
      P t s ts1 \<Longrightarrow> thread_step a t s = Some (t', s', new) \<Longrightarrow> P t' s' (ts1 @ new)"
  shows "P t' s' (ts0 @ ts)"
  using assms(1,2)
proof (induction as arbitrary: t s ts ts0)
  case (Cons a as)
  show ?case
  proof (cases "thread_step a t s")
    case (Some out)
    obtain t1 s1 new t2 s2 ts2 where o: "out = (t1, s1, new)" "run_thread as t1 s1 = (t2, s2, ts2)"
      by (cases out, cases "run_thread as (fst out) (fst (snd out))") auto
    then have res: "t2 = t'" "s2 = s'" "ts = new @ ts2" using Cons.prems(1) Some by auto
    have "P t1 s1 (ts0 @ new)" using assms(3) [OF Cons.prems(2)] Some o by simp
    then have "P t' s' ((ts0 @ new) @ ts2)" using Cons.IH o(2) res by blast
    then show ?thesis using res by simp
  qed (use Cons in simp)
qed simp

lemma run_thread_done [simp]: "run_thread as (Done res) s = (Done res, s, [])"
  by (cases as) simp_all

section \<open>Rejected calls\<close>

definition rejects :: "thread \<Rightarrow> mgr \<Rightarrow> mgr_error \<Rightarrow> bool" where
  "rejects t s e \<longleftrightarrow> (\<forall>a. thread_step a t s = Some (Done (Err e), s, []))"

definition state_of :: "mgr \<Rightarrow> string \<Rightarrow> mstate option" where
  "state_of s i = map_option (\<lambda>r. get_state r s) (machines s i)"

text \<open>
  \<open>Start\<close>, \<open>Delete\<close>, \<open>Stop\<close> and \<open>Get\<close> fail on an id the manager does not know with
  \<open>not found\<close>; \<open>Start\<close> and \<open>Delete\<close> fail on a machine that is starting, running or stopping, \<open>Stop\<close>
  on one that is not running, with that state. A rejected call changes nothing at all, and no
  other id or state is rejected.
\<close>

lemma rejected_calls:
  "(rejects (Starting (Start_Enter i)) s e =
      (case state_of s i of
         None \<Rightarrow> e = Not_Found i
       | Some st \<Rightarrow> st \<notin> {StateCreated, StateStopped} \<and> e = Cannot_Start i st)) \<and>
   (rejects (Deleting (Delete_Enter i del)) s e =
      (case state_of s i of
         None \<Rightarrow> e = Not_Found i
       | Some st \<Rightarrow> st \<notin> {StateCreated, StateStopped} \<and> e = Must_Be_Stopped i st)) \<and>
   (rejects (Stopping (Stop_Enter i)) s e = (machines s i = None \<and> e = Not_Found i)) \<and>
   (rejects (Stopping (Stop_Check i r vo no)) s e =
      (get_state r s \<noteq> StateRunning \<and> e = Cannot_Stop i (get_state r s))) \<and>
   ((Get i s = Inl e) = (machines s i = None \<and> e = Not_Found i))"
  by (auto simp: rejects_def Get_def state_of_def split: option.splits if_splits)

section \<open>Start\<close>

definition all_well :: "answers \<Rightarrow> bool" where
  "all_well a \<longleftrightarrow> a_new_vn a = None \<and> a_listen a = None \<and> a_spawn a = Spawned"

definition sent_config :: "mgr \<Rightarrow> string \<Rightarrow> machine \<Rightarrow> vmm_config" where
  "sent_config s i m =
     \<lparr>j_log_level = krunLogLevel s, j_vcpus = word_of_int (VCPUs (Config m)),
      j_memory_mib = word_of_int (MemoryMiB (Config m)), j_rootfs_path = RootfsPath (Config m),
      j_exec_path = ExecPath (Config m), j_args = Args (Config m), j_env = EnvSlice (Config m),
      j_workdir = Workdir (Config m), j_console_path = path_join [socketDir s, i @ ''.console''],
      j_net_socket_path = path_join [socketDir s, i @ ''.sock''], j_mac = MACFromID i,
      j_volumes = map (\<lambda>v. \<lparr>vol_Tag = Tag v, vol_HostPath = HostPath v\<rparr>) (Volumes (Config m)),
      j_shutdown_socket_path = path_join [socketDir s, i @ ''.shutdown.sock''],
      j_exec_socket_path = path_join [socketDir s, i @ ''.exec.sock'']\<rparr>"

lemma start_run:
  assumes "machines s i = Some r" and "get_state r s = StateCreated \<or> get_state r s = StateStopped"
    and "list_all all_well as" and "length as = 5"
  shows "\<exists>s' v n. run_thread as (Starting (Start_Enter i)) s =
      (Done Ok, s', [Monitoring (Mon_Wait i r v n)]) \<and>
    get_state r s' = StateRunning \<and>
    ExecSocketPath (objs s' r) = path_join [socketDir s, i @ ''.exec.sock''] \<and>
    vms s' = (vms s)(i \<mapsto> v) \<and> networks s' = (networks s)(i \<mapsto> n) \<and> machines s' = machines s \<and>
    vm_cmd (vm_objs s' v) = Some Alive \<and> vm_stdin (vm_objs s' v) = Some (sent_config s i (objs s r)) \<and>
    dialer (net_objs s' n) = buildDialer (\<lambda>_. a_socks (as ! 1)) (start_net_opts s i (objs s r)) \<and>
    listening (net_objs s' n) \<and> sockPath (net_objs s' n) = path_join [socketDir s, i @ ''.sock''] \<and>
    (objs s')(r := no_machine) = (objs s)(r := no_machine) \<and>
    (vm_objs s')(v := no_vm) = (vm_objs s)(v := no_vm) \<and>
    (net_objs s')(n := no_net) = (net_objs s)(n := no_net)"
proof -
  obtain a1 a2 a3 a4 a5 where as: "as = [a1, a2, a3, a4, a5]"
    using assms(4) by (auto simp: length_Suc_conv eval_nat_numeral)
  show ?thesis using assms(1-3)
    by (auto simp: as all_well_def NewVMNetwork_def vm_Start_def NewVM_def Let_def get_state_def
        GetState_def SetState_def net_sock_path_def start_net_opts_def start_vm_config_def
        exec_path_def child_config_def sent_config_def console_path_def shutdown_path_def
        SocketPath_def)
qed

text \<open>
  C6 (functional). \<open>Start\<close> on a created or stopped machine, when nothing fails and nothing
  interferes: the machine is running with its exec socket recorded, its network listens on
  \<open>id.sock\<close>, its VM is registered with a running child, which has been sent exactly this
  configuration, and one monitor is left behind; no other machine, entry or object has changed.
\<close>

theorem Start_succeeds:
  assumes "machines s i = Some r" and "get_state r s = StateCreated \<or> get_state r s = StateStopped"
    and "list_all all_well as" and "length as = 5"
  shows "\<exists>s' v n. run_thread as (Starting (Start_Enter i)) s =
      (Done Ok, s', [Monitoring (Mon_Wait i r v n)]) \<and>
    get_state r s' = StateRunning \<and>
    ExecSocketPath (objs s' r) = path_join [socketDir s, i @ ''.exec.sock''] \<and>
    vms s' = (vms s)(i \<mapsto> v) \<and> networks s' = (networks s)(i \<mapsto> n) \<and> machines s' = machines s \<and>
    vm_cmd (vm_objs s' v) = Some Alive \<and> vm_stdin (vm_objs s' v) = Some (sent_config s i (objs s r)) \<and>
    dialer (net_objs s' n) = buildDialer (\<lambda>_. a_socks (as ! 1)) (start_net_opts s i (objs s r)) \<and>
    listening (net_objs s' n) \<and> sockPath (net_objs s' n) = path_join [socketDir s, i @ ''.sock''] \<and>
    (objs s')(r := no_machine) = (objs s)(r := no_machine) \<and>
    (vm_objs s')(v := no_vm) = (vm_objs s)(v := no_vm) \<and>
    (net_objs s')(n := no_net) = (net_objs s)(n := no_net)"
  using assms by (rule start_run)

definition created_mgr :: mgr where
  "created_mgr =
     fst (snd (run_thread [calm_answers, calm_answers]
       (Creating (Create_Enter ''web'' [] demo_config \<lparr>ProxyAddr = []\<rparr>)) demo_mgr))"

lemma created_mgr_machine: "machines created_mgr ''u1'' = Some 0" "get_state 0 created_mgr = StateCreated"
  by (simp_all add: created_mgr_def run_simps)

theorem Start_succeeds_witness:
  "\<exists>s' v n. run_thread (replicate 5 calm_answers) (Starting (Start_Enter ''u1'')) created_mgr =
      (Done Ok, s', [Monitoring (Mon_Wait ''u1'' 0 v n)]) \<and> get_state 0 s' = StateRunning \<and>
    vm_stdin (vm_objs s' v) = Some (sent_config created_mgr ''u1'' (objs created_mgr 0))"
proof -
  have "list_all all_well (replicate 5 calm_answers)" by (simp add: all_well_def calm_answers_def eval_nat_numeral)
  with Start_succeeds [OF created_mgr_machine(1) disjI1 [OF created_mgr_machine(2)] this]
  show ?thesis by (metis length_replicate)
qed

text \<open>What holds between the steps of a \<open>Start\<close> that is going to fail.\<close>

definition only_nets :: "mgr \<Rightarrow> mgr \<Rightarrow> nat set \<Rightarrow> bool" where
  "only_nets s0 s open_ones \<longleftrightarrow>
     machines s = machines s0 \<and> vms s = vms s0 \<and> networks s = networks s0 \<and>
     vm_objs s = vm_objs s0 \<and>
     (\<forall>n. n \<in> open_ones \<or> net_objs s n = net_objs s0 n \<or>
       cancelled (net_objs s n) \<and> \<not> listening (net_objs s n))"

fun failing :: "mgr \<Rightarrow> string \<Rightarrow> nat \<Rightarrow> thread \<Rightarrow> mgr \<Rightarrow> bool" where
  "failing s0 i r (Starting (Start_Enter j)) s \<longleftrightarrow> j = i \<and> s = s0"
| "failing s0 i r (Starting (Start_Net j q)) s \<longleftrightarrow> q = r \<and> only_nets s0 s {}"
| "failing s0 i r (Starting (Start_Spawn j q n)) s \<longleftrightarrow> q = r \<and> only_nets s0 s {n}"
| "failing s0 i r (Starting (Start_Close j q n e)) s \<longleftrightarrow>
     q = r \<and> only_nets s0 s {n} \<and> (\<exists>ve. e = Start_VM ve)"
| "failing s0 i r (Starting (Start_Fail j q e)) s \<longleftrightarrow>
     q = r \<and> only_nets s0 s {} \<and> (\<exists>ne ve. e = Create_Network ne \<or> e = Start_VM ve)"
| "failing s0 i r (Starting _) s \<longleftrightarrow> True"
| "failing s0 i r (Done (Err e)) s \<longleftrightarrow>
     get_state r s = StateStopped \<and> only_nets s0 s {} \<and>
     (\<exists>ne ve. e = Create_Network ne \<or> e = Start_VM ve)"
| "failing s0 i r (Done Ok) s \<longleftrightarrow> True"
| "failing s0 i r _ s \<longleftrightarrow> False"

lemma failing_step:
  assumes "failing s0 i r t s" and "thread_step a t s = Some (t', s', new)"
    and "machines s0 i = Some r" "get_state r s0 = StateCreated \<or> get_state r s0 = StateStopped"
  shows "failing s0 i r t' s' \<and> (t' \<noteq> Done Ok \<longrightarrow> new = [])"
proof (cases t)
  case (Starting p)
  then show ?thesis using assms
    by (cases p)
      (auto simp: only_nets_def split: option.splits if_splits sum.splits prod.splits)
qed (use assms in auto)

text \<open>
  C13 (error). When \<open>Start\<close> fails after its guard, because of the network or of the child, the
  machine is stopped, so that it can be started again, nothing is registered, no monitor is left,
  and a network it had made is cancelled and no longer listens.
\<close>

theorem Start_fails_cleanly:
  assumes "run_thread as (Starting (Start_Enter i)) s = (Done (Err e), s', ts)"
    and "machines s i = Some r" and "get_state r s = StateCreated \<or> get_state r s = StateStopped"
  shows "get_state r s' = StateStopped \<and> machines s' = machines s \<and> vms s' = vms s \<and>
    networks s' = networks s \<and> vm_objs s' = vm_objs s \<and> ts = [] \<and>
    (\<forall>n. net_objs s' n = net_objs s n \<or> cancelled (net_objs s' n) \<and> \<not> listening (net_objs s' n)) \<and>
    (\<exists>ne ve. e = Create_Network ne \<or> e = Start_VM ve)"
proof -
  let ?P = "\<lambda>t u (us :: thread list). failing s i r t u \<and> (t \<noteq> Done Ok \<longrightarrow> us = [])"
  have "?P (Done (Err e)) s' ([] @ ts)"
  proof (rule run_thread_inv [OF assms(1)])
    fix a t u us t' u' new
    assume "?P t u us" "thread_step a t u = Some (t', u', new)"
    then show "?P t' u' (us @ new)"
      using failing_step [of s i r t u a t' u' new] assms(2,3) by (cases t) auto
  qed simp
  then show ?thesis by (auto simp: only_nets_def)
qed

theorem Start_fails_cleanly_witness:
  "\<exists>s' ts. run_thread (replicate 5 (calm_answers\<lparr>a_spawn := Spawn_Fails ''no such file''\<rparr>))
      (Starting (Start_Enter ''u1'')) created_mgr =
      (Done (Err (Start_VM (Start_Vmm ''no such file''))), s', ts) \<and>
    get_state 0 s' = StateStopped \<and> vms s' = vms created_mgr \<and> ts = []"
proof -
  let ?as = "replicate 5 (calm_answers\<lparr>a_spawn := Spawn_Fails ''no such file''\<rparr>)"
  obtain s' ts where run: "run_thread ?as (Starting (Start_Enter ''u1'')) created_mgr =
      (Done (Err (Start_VM (Start_Vmm ''no such file''))), s', ts)"
    by (simp add: eval_nat_numeral created_mgr_machine NewVMNetwork_def calm_answers_def vm_Start_def Let_def)
  show ?thesis
    using Start_fails_cleanly [OF run created_mgr_machine(1)] created_mgr_machine(2) run by blast
qed


section \<open>What no step changes\<close>

definition identity :: "machine \<Rightarrow> string \<times> string \<times> config \<times> network_config \<times> bool \<times> nat" where
  "identity m = (ID m, Name m, Config m, Network m, RootfsIsClone m, CreatedAt m)"

text \<open>
  C36 (invariant). No step of any thread, in any interleaving, changes the id, the name, the
  configuration, the network configuration, the ownership of the root file system or the time of
  creation of a machine that exists; states, exec sockets and update times are all that changes.
\<close>

theorem identity_preserved:
  assumes "thread_step a t s = Some (t', s', new)" and "r < fresh s"
  shows "identity (objs s' r) = identity (objs s r)"
proof (cases t)
  case (Creating p)
  then show ?thesis using assms by (cases p) (auto simp: Let_def split: option.splits if_splits)
next
  case (Starting p)
  then show ?thesis using assms
    by (cases p) (auto simp: identity_def split: option.splits if_splits sum.splits prod.splits)
next
  case (Monitoring p)
  then show ?thesis using assms
    by (cases p) (auto simp: identity_def split: option.splits if_splits)
next
  case (Stopping p)
  then show ?thesis using assms
    by (cases p) (auto simp: identity_def split: option.splits if_splits)
next
  case (Deleting p)
  then show ?thesis using assms
    by (cases p) (auto split: option.splits if_splits)
qed (use assms in simp)

theorem identity_preserved_witness:
  "\<exists>t' s' new. thread_step calm_answers (Starting (Start_Enter ''u1'')) created_mgr = Some (t', s', new) \<and>
     identity (objs s' 0) = identity (objs created_mgr 0)"
proof -
  have f: "0 < fresh created_mgr" by (simp add: created_mgr_def run_simps)
  obtain t' s' new where
    "thread_step calm_answers (Starting (Start_Enter ''u1'')) created_mgr = Some (t', s', new)"
    by (simp add: created_mgr_machine)
  with identity_preserved [OF this f] show ?thesis by blast
qed

section \<open>Create and Delete\<close>

text \<open>
  \<open>Create\<close> gives a machine that \<open>Get\<close> finds under the drawn id, created, with the
  given name, configuration and network. With a base image its root file system is the clone of
  its own under the manager's directory, in place of the configured path; without one the path is
  kept. If cloning fails nothing changes.
\<close>

definition create_call :: "string \<Rightarrow> string \<Rightarrow> config \<Rightarrow> network_config \<Rightarrow> thread" where
  "create_call name base cfg netCfg = Creating (Create_Enter name base cfg netCfg)"

definition own_clone :: "mgr \<Rightarrow> string \<Rightarrow> string" where
  "own_clone s i = path_join [rootfsDir s, i]"

theorem Create_then_Get:
  "case run_thread [a, b] (create_call name base cfg netCfg) s of
     (Done (Ok_Machine r), s', new) \<Rightarrow>
       Get (a_uuid a) s' = Inr r \<and> new = [] \<and> r = fresh s \<and>
       ID (objs s' r) = a_uuid a \<and> Name (objs s' r) = name \<and> Network (objs s' r) = netCfg \<and>
       get_state r s' = StateCreated \<and> RootfsIsClone (objs s' r) = (base \<noteq> []) \<and>
       Config (objs s' r) = (if base = [] then cfg else cfg\<lparr>RootfsPath := own_clone s (a_uuid a)\<rparr>) \<and>
       clones s' = (if base = [] then clones s else insert (own_clone s (a_uuid a)) (clones s)) \<and>
       machines s' = (machines s)(a_uuid a \<mapsto> r) \<and> objs s' = (objs s)(r := objs s' r) \<and>
       vms s' = vms s \<and> networks s' = networks s
   | (Done (Err (Clone_Base_Image e)), s', new) \<Rightarrow>
       base \<noteq> [] \<and> a_clone a = Some e \<and> s' = s \<and> new = []
   | _ \<Rightarrow> False"
  by (cases "a_clone a")
    (auto simp: create_call_def own_clone_def Get_def get_state_def GetState_def Let_def)

text \<open>
  \<open>Delete\<close> on a created or stopped machine removes it from the manager and, when
  asked to and the machine's root file system is a clone, that clone; a path the user gave is
  never removed, nor any other machine's clone.
\<close>

lemma Delete_removes_own_clone:
  assumes "machines s i = Some r" and "get_state r s = StateCreated \<or> get_state r s = StateStopped"
  shows "run_thread [a, b] (Deleting (Delete_Enter i del)) s =
    (Done Ok,
     s\<lparr>machines := (machines s)(i := None),
       clones := clones s -
         (if del \<and> RootfsIsClone (objs s r) \<and> a_remove b = None
          then {RootfsPath (Config (objs s r))} else {})\<rparr>,
     [])"
  using assms by (auto simp: get_state_def)

lemma Delete_removes_own_clone_witness:
  "\<exists>s'. run_thread [calm_answers, calm_answers] (Deleting (Delete_Enter ''u1'' True)) created_mgr =
     (Done Ok, s', []) \<and> machines s' ''u1'' = None"
  using Delete_removes_own_clone [OF created_mgr_machine(1) disjI1 [OF created_mgr_machine(2)],
      of calm_answers calm_answers True] by simp

section \<open>Paths\<close>

text \<open>
  C37 (safety). The files the manager keeps per machine in one directory (network socket, console
  log, shutdown and exec sockets) are pairwise different, for one machine and for two, as long as
  ids contain neither dots nor slashes, as UUIDs do not.
\<close>

definition machine_files :: "mgr \<Rightarrow> string \<Rightarrow> string list" where
  "machine_files s i =
     [net_sock_path i (start_net_opts s i no_machine), console_path s i, shutdown_path s i, exec_path s i]"

definition dotless :: "string \<Rightarrow> bool" where
  "dotless i \<longleftrightarrow> CHR ''.'' \<notin> set i \<and> CHR ''/'' \<notin> set i"

lemma dotless_append:
  "dotless i \<Longrightarrow> dotless j \<Longrightarrow> (i @ CHR ''.'' # x = j @ CHR ''.'' # y) = (i = j \<and> x = y)"
  unfolding dotless_def
  by (induction i arbitrary: j; case_tac j) auto

lemma plain_dotted: "dotless i \<Longrightarrow> length x > 2 \<Longrightarrow> CHR ''/'' \<notin> set x \<Longrightarrow> plain_elem (i @ CHR ''.'' # x)"
  by (cases i) (auto simp: plain_elem_def dotless_def)

theorem machine_files_distinct:
  assumes "socketDir s \<noteq> []" and "dotless i" and "dotless j"
  shows "distinct (machine_files s i) \<and>
    (set (machine_files s i) \<inter> set (machine_files s j) = {}) = (i \<noteq> j)"
proof -
  obtain pre where pre: "\<And>n. plain_elem n \<Longrightarrow> path_join [socketDir s, n] = pre @ n"
    using path_join_name [OF assms(1), of "''x''"] by (auto simp: plain_elem_def)
  have files: "machine_files s k = map (\<lambda>x. pre @ k @ CHR ''.'' # x)
      [''sock'', ''console'', ''shutdown.sock'', ''exec.sock'']" if "dotless k" for k
    using that by (simp add: machine_files_def net_sock_path_def start_net_opts_def console_path_def
        shutdown_path_def exec_path_def pre plain_dotted)
  show ?thesis
    using assms(2,3) by (auto simp: files dotless_append)
qed

theorem machine_files_distinct_witness:
  "distinct (machine_files demo_mgr ''u1'') \<and>
   set (machine_files demo_mgr ''u1'') \<inter> set (machine_files demo_mgr ''u2'') = {}"
  using machine_files_distinct [of demo_mgr "''u1''" "''u2''"] by (simp add: demo_mgr_def NewManager_def Let_def dotless_def)

section \<open>Stop returns\<close>

fun halt_rank :: "halt_pc \<Rightarrow> nat" where
  "halt_rank (Stop_Enter i) = 14"
| "halt_rank (Stop_Check i r vo no) = 13"
| "halt_rank (Stop_Mark i r vo no) = 12"
| "halt_rank (Stop_Net i r vo no) = 11"
| "halt_rank (Stop_Vm i r v no k) = 6 + stop_rank k"
| "halt_rank (Stop_Poll i r no) = 5"
| "halt_rank (Stop_Select i r no) = 4"
| "halt_rank (Stop_Force i r no) = 3"
| "halt_rank (Stop_Force_State i r) = 2"
| "halt_rank (Stop_Force_Delete i) = 1"
| "halt_rank (Stop_No_VM i r no) = 2"
| "halt_rank (Stop_No_VM_State i r) = 1"

lemma stop_vm_enabled:
  assumes "k \<noteq> Stop_Returned"
  obtains a :: answers and k' v' where "a_deadline a" "vm_stop_step (a_stop a) k v = Some (k', v')"
proof -
  obtain ch r where st: "vm_stop_step ch k v = Some r" using vm_stop_step_enabled [OF assms] by blast
  have "vm_stop_step (a_stop (calm_answers\<lparr>a_stop := ch, a_deadline := True\<rparr>)) k v = Some (fst r, snd r)"
    using st by simp
  then show thesis by (rule that [rotated]) simp
qed

text \<open>
  C24 (liveness). A \<open>Stop\<close> is never stuck, whatever its VM, its monitor and the rest of the system
  do: at each of its points a step is possible, also when the deadline has fired; and every step
  it takes brings it closer to its return, of the at most fourteen it needs, except going round
  the polling loop before the deadline.
\<close>

theorem Stop_returns:
  "(\<exists>a x. a_deadline a \<and> thread_step a (Stopping p) s = Some x) \<and> halt_rank p \<le> 14 \<and>
   (case thread_step a (Stopping p) s of
      Some (Stopping p', s', new) \<Rightarrow>
        new = [] \<and> halt_rank p' < halt_rank p + (if a_deadline a then 0 else 2)
    | Some (Done res, s', new) \<Rightarrow> new = []
    | Some _ \<Rightarrow> False
    | None \<Rightarrow> True)"
proof (intro conjI)
  have some: "\<exists>a :: answers. a_deadline a"
    by (rule exI [of _ "calm_answers\<lparr>a_deadline := True\<rparr>"]) simp
  show "\<exists>a x. a_deadline a \<and> thread_step a (Stopping p) s = Some x"
  proof (cases p)
    case (Stop_Vm i r v no k)
    then show ?thesis
    proof (cases "k = Stop_Returned")
      case False
      obtain a :: answers and k' v' where "a_deadline a" "vm_stop_step (a_stop a) k (vm_objs s v) = Some (k', v')"
        by (rule stop_vm_enabled [OF False, of "vm_objs s v"])
      then show ?thesis using False Stop_Vm by (intro exI [of _ a]) simp
    qed (use some in auto)
  qed (use some in \<open>auto split: option.split\<close>)
  show "halt_rank p \<le> 14"
  proof (cases p)
    case (Stop_Vm i r v no k)
    then show ?thesis by (cases k) simp_all
  qed simp_all
  show "case thread_step a (Stopping p) s of
      Some (Stopping p', s', new) \<Rightarrow>
        new = [] \<and> halt_rank p' < halt_rank p + (if a_deadline a then 0 else 2)
    | Some (Done res, s', new) \<Rightarrow> new = []
    | Some _ \<Rightarrow> False
    | None \<Rightarrow> True"
    by (cases p) (auto dest: vm_stop_step_rank split: option.split)
qed

end
