(* ===== verification/Krun_Lib.thy ===== *)
theory Krun_Lib imports Go_Strings begin

text \<open>
  The bindings to libkrun (krun/lib.go): loading the library and registering its functions
  (\<open>Open\<close>), one wrapper per C function, and the two helpers that hand Go strings to C. The C
  library is a parameter: a function of the symbol, the arguments as C receives them and its own
  state, with a 32-bit result.
\<close>

section \<open>What C receives\<close>

text \<open>
  A C string pointer is null or points to the bytes up to the end of its Go slice; an array of
  them is null or points to its elements. purego passes a Go string as a NUL-terminated copy
  (\<open>C_string\<close>) and a byte slice as a pointer to its bytes (\<open>C_bytes\<close>).
\<close>

datatype c_char = Null_Char | Chars string

datatype c_array = Null_Array | Elems "c_char list"

datatype c_arg =
    C_u8 byte | C_u16 u16 | C_u32 u32 | C_u64 u64 | C_i32 "32 word" | C_int int | C_bool bool
  | C_string string | C_bytes "byte list" | C_ptr nat | C_char c_char | C_array c_array

type_synonym 's clib = "string \<Rightarrow> c_arg list \<Rightarrow> 's \<Rightarrow> 32 word \<times> 's"

text \<open>
  A loaded library: the functions that are registered (a field that is not stays \<open>nil\<close>) and the
  strings kept for C. A call gives a value, an error with the symbol and the code, or panics.
\<close>

record krun_lib =
  funcs :: "string list"
  passedDown :: "string list"

datatype 'a krun_result = K_Ok 'a | K_Err string int | K_Panic

type_synonym ('s, 'a) krun_call = "krun_lib \<Rightarrow> 's \<Rightarrow> 'a krun_result \<times> krun_lib \<times> 's"

text \<open>The error's text, \<open>symbol: code\<close>.\<close>

definition krun_error_text :: "string \<Rightarrow> int \<Rightarrow> string" where
  "krun_error_text cf n = cf @ '': '' @ fmt_d n"

section \<open>Strings for C\<close>

definition cString :: "string \<Rightarrow> krun_lib \<Rightarrow> c_char \<times> krun_lib" where
  "cString a l =
     (if a = [] then (Null_Char, l)
      else
        (let b = (if has_suffix a [CHR 0x00] then a else a @ [CHR 0x00])
         in (Chars b, l\<lparr>passedDown := passedDown l @ [b]\<rparr>)))"

text \<open>A Go slice of strings: \<open>nil\<close> or its elements. Both \<open>nil\<close> and the empty slice have length 0.\<close>

type_synonym go_slice = "string list option"

fun cStrings :: "string list \<Rightarrow> krun_lib \<Rightarrow> c_char list \<times> krun_lib" where
  "cStrings [] l = ([], l)"
| "cStrings (x # xs) l =
     (let (p, l1) = cString x l; (ps, l2) = cStrings xs l1 in (p # ps, l2))"

definition cStringArray :: "go_slice \<Rightarrow> krun_lib \<Rightarrow> c_array \<times> krun_lib" where
  "cStringArray a l =
     (case a of
        None \<Rightarrow> (Null_Array, l)
      | Some xs \<Rightarrow>
          (if length xs = 0 then (Null_Array, l)
           else (let (ps, l') = cStrings xs l in (Elems (ps @ [Null_Char]), l'))))"

section \<open>Calls\<close>

text \<open>The two shapes of a wrapper: the result is zero or an error; the result is a value or negative.\<close>

definition call_zero :: "'s clib \<Rightarrow> string \<Rightarrow> c_arg list \<Rightarrow> ('s, unit) krun_call" where
  "call_zero c cf args l s =
     (if cf \<notin> set (funcs l) then (K_Panic, l, s)
      else (let (ret, s') = c cf args s in (if ret \<noteq> 0 then K_Err cf (sint ret) else K_Ok (), l, s')))"

definition call_value ::
  "(32 word \<Rightarrow> 'a) \<Rightarrow> 's clib \<Rightarrow> string \<Rightarrow> c_arg list \<Rightarrow> ('s, 'a) krun_call" where
  "call_value f c cf args l s =
     (if cf \<notin> set (funcs l) then (K_Panic, l, s)
      else (let (ret, s') = c cf args s
            in (if sint ret < 0 then K_Err cf (sint ret) else K_Ok (f ret), l, s')))"

definition call_id :: "'s clib \<Rightarrow> string \<Rightarrow> c_arg list \<Rightarrow> ('s, u32) krun_call" where
  "call_id = call_value (\<lambda>ret. ret)"

definition call_bool :: "'s clib \<Rightarrow> string \<Rightarrow> c_arg list \<Rightarrow> ('s, bool) krun_call" where
  "call_bool = call_value (\<lambda>ret. ret = 1)"

definition call_int :: "'s clib \<Rightarrow> string \<Rightarrow> c_arg list \<Rightarrow> ('s, int) krun_call" where
  "call_int = call_value sint"

section \<open>The wrappers\<close>

text \<open>In the order of the source.\<close>

definition SetLogLevel :: "'s clib \<Rightarrow> u32 \<Rightarrow> ('s, unit) krun_call" where
  "SetLogLevel c level =
     call_zero c ''krun_set_log_level'' [C_u32 level]"

definition InitLog :: "'s clib \<Rightarrow> int \<Rightarrow> u32 \<Rightarrow> u32 \<Rightarrow> u32 \<Rightarrow> ('s, unit) krun_call" where
  "InitLog c targetFd level style opts =
     call_zero c ''krun_init_log''
       [C_i32 (word_of_int targetFd), C_u32 level, C_u32 style, C_u32 opts]"

definition CreateCtx :: "'s clib \<Rightarrow> ('s, u32) krun_call" where
  "CreateCtx c =
     call_id c ''krun_create_ctx'' []"

definition FreeCtx :: "'s clib \<Rightarrow> u32 \<Rightarrow> ('s, unit) krun_call" where
  "FreeCtx c ctxID =
     call_zero c ''krun_free_ctx'' [C_u32 ctxID]"

definition SetVMConfig :: "'s clib \<Rightarrow> u32 \<Rightarrow> byte \<Rightarrow> u32 \<Rightarrow> ('s, unit) krun_call" where
  "SetVMConfig c ctxID vcpus memMiB =
     call_zero c ''krun_set_vm_config'' [C_u32 ctxID, C_u8 vcpus, C_u32 memMiB]"

definition SetRoot :: "'s clib \<Rightarrow> u32 \<Rightarrow> string \<Rightarrow> ('s, unit) krun_call" where
  "SetRoot c ctxID path =
     call_zero c ''krun_set_root'' [C_u32 ctxID, C_string path]"

definition AddDisk :: "'s clib \<Rightarrow> u32 \<Rightarrow> string \<Rightarrow> string \<Rightarrow> bool \<Rightarrow> ('s, unit) krun_call" where
  "AddDisk c ctxID blockID diskPath readOnly =
     call_zero c ''krun_add_disk''
       [C_u32 ctxID, C_string blockID, C_string diskPath, C_bool readOnly]"

definition AddDisk2 ::
  "'s clib \<Rightarrow> u32 \<Rightarrow> string \<Rightarrow> string \<Rightarrow> u32 \<Rightarrow> bool \<Rightarrow> ('s, unit) krun_call" where
  "AddDisk2 c ctxID blockID diskPath diskFormat readOnly =
     call_zero c ''krun_add_disk2''
       [C_u32 ctxID, C_string blockID, C_string diskPath, C_u32 diskFormat, C_bool readOnly]"

definition AddDisk3 ::
  "'s clib \<Rightarrow> u32 \<Rightarrow> string \<Rightarrow> string \<Rightarrow> u32 \<Rightarrow> bool \<Rightarrow> bool \<Rightarrow> u32 \<Rightarrow>
   ('s, unit) krun_call" where
  "AddDisk3 c ctxID blockID diskPath diskFormat readOnly directIO syncMode =
     call_zero c ''krun_add_disk3''
       [C_u32 ctxID, C_string blockID, C_string diskPath, C_u32 diskFormat, C_bool readOnly,
        C_bool directIO, C_u32 syncMode]"

definition SetRootDiskRemount ::
  "'s clib \<Rightarrow> u32 \<Rightarrow> string \<Rightarrow> string \<Rightarrow> string \<Rightarrow> ('s, unit) krun_call" where
  "SetRootDiskRemount c ctxID device fstype opts l s =
     (let (p1, l1) = cString device l;
          (p2, l2) = cString fstype l1;
          (p3, l3) = cString opts l2
      in call_zero c ''krun_set_root_disk_remount''
           [C_u32 ctxID, C_char p1, C_char p2, C_char p3] l3 s)"

definition AddVirtioFS :: "'s clib \<Rightarrow> u32 \<Rightarrow> string \<Rightarrow> string \<Rightarrow> ('s, unit) krun_call" where
  "AddVirtioFS c ctxID tag hostPath =
     call_zero c ''krun_add_virtiofs'' [C_u32 ctxID, C_string tag, C_string hostPath]"

definition AddVirtioFS2 ::
  "'s clib \<Rightarrow> u32 \<Rightarrow> string \<Rightarrow> string \<Rightarrow> u64 \<Rightarrow> ('s, unit) krun_call" where
  "AddVirtioFS2 c ctxID tag hostPath shmSize =
     call_zero c ''krun_add_virtiofs2''
       [C_u32 ctxID, C_string tag, C_string hostPath, C_u64 shmSize]"

definition AddNetUnixgram ::
  "'s clib \<Rightarrow> u32 \<Rightarrow> string \<Rightarrow> byte list \<Rightarrow> u32 \<Rightarrow> u32 \<Rightarrow> ('s, unit) krun_call" where
  "AddNetUnixgram c ctxID sockPath mac feats flags =
     call_zero c ''krun_add_net_unixgram''
       [C_u32 ctxID, C_string sockPath, C_int (-1), C_bytes mac, C_u32 feats, C_u32 flags]"

definition AddNetUnixstream ::
  "'s clib \<Rightarrow> u32 \<Rightarrow> string \<Rightarrow> byte list \<Rightarrow> u32 \<Rightarrow> u32 \<Rightarrow> ('s, unit) krun_call" where
  "AddNetUnixstream c ctxID sockPath mac feats flags =
     call_zero c ''krun_add_net_unixstream''
       [C_u32 ctxID, C_string sockPath, C_int (-1), C_bytes mac, C_u32 feats, C_u32 flags]"

definition AddNetTap ::
  "'s clib \<Rightarrow> u32 \<Rightarrow> string \<Rightarrow> byte list \<Rightarrow> u32 \<Rightarrow> u32 \<Rightarrow> ('s, unit) krun_call" where
  "AddNetTap c ctxID tapName mac feats flags =
     call_zero c ''krun_add_net_tap''
       [C_u32 ctxID, C_string tapName, C_bytes mac, C_u32 feats, C_u32 flags]"

definition SetNetMAC :: "'s clib \<Rightarrow> u32 \<Rightarrow> byte list \<Rightarrow> ('s, unit) krun_call" where
  "SetNetMAC c ctxID mac =
     call_zero c ''krun_set_net_mac'' [C_u32 ctxID, C_bytes mac]"

definition SetPortMap :: "'s clib \<Rightarrow> u32 \<Rightarrow> go_slice \<Rightarrow> ('s, unit) krun_call" where
  "SetPortMap c ctxID portMap l s =
     (let (p1, l1) = cStringArray portMap l
      in call_zero c ''krun_set_port_map''
           [C_u32 ctxID, C_array p1] l1 s)"

definition SetGPUOptions :: "'s clib \<Rightarrow> u32 \<Rightarrow> u32 \<Rightarrow> ('s, unit) krun_call" where
  "SetGPUOptions c ctxID virglFlags =
     call_zero c ''krun_set_gpu_options'' [C_u32 ctxID, C_u32 virglFlags]"

definition SetGPUOptions2 :: "'s clib \<Rightarrow> u32 \<Rightarrow> u32 \<Rightarrow> u64 \<Rightarrow> ('s, unit) krun_call" where
  "SetGPUOptions2 c ctxID virglFlags shmSize =
     call_zero c ''krun_set_gpu_options2'' [C_u32 ctxID, C_u32 virglFlags, C_u64 shmSize]"

definition AddDisplay :: "'s clib \<Rightarrow> u32 \<Rightarrow> u32 \<Rightarrow> u32 \<Rightarrow> ('s, u32) krun_call" where
  "AddDisplay c ctxID width height =
     call_id c ''krun_add_display'' [C_u32 ctxID, C_u32 width, C_u32 height]"

definition DisplaySetEDID :: "'s clib \<Rightarrow> u32 \<Rightarrow> u32 \<Rightarrow> byte list \<Rightarrow> ('s, unit) krun_call" where
  "DisplaySetEDID c ctxID displayID edid =
     call_zero c ''krun_display_set_edid''
       [C_u32 ctxID, C_u32 displayID, C_bytes edid, C_u64 (of_nat (length edid))]"

definition DisplaySetDPI :: "'s clib \<Rightarrow> u32 \<Rightarrow> u32 \<Rightarrow> u32 \<Rightarrow> ('s, unit) krun_call" where
  "DisplaySetDPI c ctxID displayID dpi =
     call_zero c ''krun_display_set_dpi'' [C_u32 ctxID, C_u32 displayID, C_u32 dpi]"

definition DisplaySetPhysicalSize ::
  "'s clib \<Rightarrow> u32 \<Rightarrow> u32 \<Rightarrow> u16 \<Rightarrow> u16 \<Rightarrow> ('s, unit) krun_call" where
  "DisplaySetPhysicalSize c ctxID displayID widthMM heightMM =
     call_zero c ''krun_display_set_physical_size''
       [C_u32 ctxID, C_u32 displayID, C_u16 widthMM, C_u16 heightMM]"

definition DisplaySetRefreshRate :: "'s clib \<Rightarrow> u32 \<Rightarrow> u32 \<Rightarrow> u32 \<Rightarrow> ('s, unit) krun_call" where
  "DisplaySetRefreshRate c ctxID displayID refreshRate =
     call_zero c ''krun_display_set_refresh_rate''
       [C_u32 ctxID, C_u32 displayID, C_u32 refreshRate]"

definition SetDisplayBackend :: "'s clib \<Rightarrow> u32 \<Rightarrow> nat \<Rightarrow> u64 \<Rightarrow> ('s, unit) krun_call" where
  "SetDisplayBackend c ctxID backend backendSize =
     call_zero c ''krun_set_display_backend'' [C_u32 ctxID, C_ptr backend, C_u64 backendSize]"

definition AddInputDevice ::
  "'s clib \<Rightarrow> u32 \<Rightarrow> nat \<Rightarrow> u64 \<Rightarrow> nat \<Rightarrow> u64 \<Rightarrow> ('s, unit) krun_call" where
  "AddInputDevice c ctxID cfgBackend cfgSize evtBackend evtSize =
     call_zero c ''krun_add_input_device''
       [C_u32 ctxID, C_ptr cfgBackend, C_u64 cfgSize, C_ptr evtBackend, C_u64 evtSize]"

definition AddInputDeviceFD :: "'s clib \<Rightarrow> u32 \<Rightarrow> int \<Rightarrow> ('s, unit) krun_call" where
  "AddInputDeviceFD c ctxID inputFd =
     call_zero c ''krun_add_input_device_fd'' [C_u32 ctxID, C_int inputFd]"

definition SetSndDevice :: "'s clib \<Rightarrow> u32 \<Rightarrow> bool \<Rightarrow> ('s, unit) krun_call" where
  "SetSndDevice c ctxID enable =
     call_zero c ''krun_set_snd_device'' [C_u32 ctxID, C_bool enable]"

definition SetConsoleOutput :: "'s clib \<Rightarrow> u32 \<Rightarrow> string \<Rightarrow> ('s, unit) krun_call" where
  "SetConsoleOutput c ctxID path =
     call_zero c ''krun_set_console_output'' [C_u32 ctxID, C_string path]"

definition DisableImplicitConsole :: "'s clib \<Rightarrow> u32 \<Rightarrow> ('s, unit) krun_call" where
  "DisableImplicitConsole c ctxID =
     call_zero c ''krun_disable_implicit_console'' [C_u32 ctxID]"

definition SetKernelConsole :: "'s clib \<Rightarrow> u32 \<Rightarrow> string \<Rightarrow> ('s, unit) krun_call" where
  "SetKernelConsole c ctxID consoleID =
     call_zero c ''krun_set_kernel_console'' [C_u32 ctxID, C_string consoleID]"

definition AddVirtioConsoleDefault ::
  "'s clib \<Rightarrow> u32 \<Rightarrow> int \<Rightarrow> int \<Rightarrow> int \<Rightarrow> ('s, unit) krun_call" where
  "AddVirtioConsoleDefault c ctxID inputFd outputFd errFd =
     call_zero c ''krun_add_virtio_console_default''
       [C_u32 ctxID, C_int inputFd, C_int outputFd, C_int errFd]"

definition AddSerialConsoleDefault :: "'s clib \<Rightarrow> u32 \<Rightarrow> int \<Rightarrow> int \<Rightarrow> ('s, unit) krun_call" where
  "AddSerialConsoleDefault c ctxID inputFd outputFd =
     call_zero c ''krun_add_serial_console_default'' [C_u32 ctxID, C_int inputFd, C_int outputFd]"

definition AddVirtioConsoleMultiport :: "'s clib \<Rightarrow> u32 \<Rightarrow> ('s, u32) krun_call" where
  "AddVirtioConsoleMultiport c ctxID =
     call_id c ''krun_add_virtio_console_multiport'' [C_u32 ctxID]"

definition AddConsolePortTTY ::
  "'s clib \<Rightarrow> u32 \<Rightarrow> u32 \<Rightarrow> string \<Rightarrow> int \<Rightarrow> ('s, unit) krun_call" where
  "AddConsolePortTTY c ctxID consoleID nm ttyFd =
     call_zero c ''krun_add_console_port_tty''
       [C_u32 ctxID, C_u32 consoleID, C_string nm, C_int ttyFd]"

definition AddConsolePortInOut ::
  "'s clib \<Rightarrow> u32 \<Rightarrow> u32 \<Rightarrow> string \<Rightarrow> int \<Rightarrow> int \<Rightarrow> ('s, unit) krun_call" where
  "AddConsolePortInOut c ctxID consoleID nm inputFd outputFd =
     call_zero c ''krun_add_console_port_inout''
       [C_u32 ctxID, C_u32 consoleID, C_string nm, C_int inputFd, C_int outputFd]"

definition AddVsock :: "'s clib \<Rightarrow> u32 \<Rightarrow> u32 \<Rightarrow> ('s, unit) krun_call" where
  "AddVsock c ctxID tsiFeatures =
     call_zero c ''krun_add_vsock'' [C_u32 ctxID, C_u32 tsiFeatures]"

definition AddVsockPort :: "'s clib \<Rightarrow> u32 \<Rightarrow> u32 \<Rightarrow> string \<Rightarrow> ('s, unit) krun_call" where
  "AddVsockPort c ctxID port socketPath =
     call_zero c ''krun_add_vsock_port'' [C_u32 ctxID, C_u32 port, C_string socketPath]"

definition AddVsockPort2 ::
  "'s clib \<Rightarrow> u32 \<Rightarrow> u32 \<Rightarrow> string \<Rightarrow> bool \<Rightarrow> ('s, unit) krun_call" where
  "AddVsockPort2 c ctxID port socketPath listen =
     call_zero c ''krun_add_vsock_port2''
       [C_u32 ctxID, C_u32 port, C_string socketPath, C_bool listen]"

definition DisableImplicitVsock :: "'s clib \<Rightarrow> u32 \<Rightarrow> ('s, unit) krun_call" where
  "DisableImplicitVsock c ctxID =
     call_zero c ''krun_disable_implicit_vsock'' [C_u32 ctxID]"

definition SetExec ::
  "'s clib \<Rightarrow> u32 \<Rightarrow> string \<Rightarrow> go_slice \<Rightarrow> go_slice \<Rightarrow> ('s, unit) krun_call" where
  "SetExec c ctxID execPath argv envp l s =
     (let (p1, l1) = cStringArray argv l;
          (p2, l2) = cStringArray envp l1
      in call_zero c ''krun_set_exec''
           [C_u32 ctxID, C_string execPath, C_array p1, C_array p2] l2 s)"

definition SetEnv :: "'s clib \<Rightarrow> u32 \<Rightarrow> go_slice \<Rightarrow> ('s, unit) krun_call" where
  "SetEnv c ctxID envp l s =
     (let (p1, l1) = cStringArray envp l
      in call_zero c ''krun_set_env''
           [C_u32 ctxID, C_array p1] l1 s)"

definition SetWorkdir :: "'s clib \<Rightarrow> u32 \<Rightarrow> string \<Rightarrow> ('s, unit) krun_call" where
  "SetWorkdir c ctxID path =
     call_zero c ''krun_set_workdir'' [C_u32 ctxID, C_string path]"

definition SetFirmware :: "'s clib \<Rightarrow> u32 \<Rightarrow> string \<Rightarrow> ('s, unit) krun_call" where
  "SetFirmware c ctxID firmwarePath =
     call_zero c ''krun_set_firmware'' [C_u32 ctxID, C_string firmwarePath]"

definition SetKernel ::
  "'s clib \<Rightarrow> u32 \<Rightarrow> string \<Rightarrow> u32 \<Rightarrow> string \<Rightarrow> string \<Rightarrow> ('s, unit) krun_call" where
  "SetKernel c ctxID kernelPath kernelFormat initramfsPath cmdline l s =
     (let (p1, l1) = cString initramfsPath l;
          (p2, l2) = cString cmdline l1
      in call_zero c ''krun_set_kernel''
           [C_u32 ctxID, C_string kernelPath, C_u32 kernelFormat, C_char p1, C_char p2] l2 s)"

definition SetRlimits :: "'s clib \<Rightarrow> u32 \<Rightarrow> go_slice \<Rightarrow> ('s, unit) krun_call" where
  "SetRlimits c ctxID rlimits l s =
     (let (p1, l1) = cStringArray rlimits l
      in call_zero c ''krun_set_rlimits''
           [C_u32 ctxID, C_array p1] l1 s)"

definition SetSMBIOSOEMStrings :: "'s clib \<Rightarrow> u32 \<Rightarrow> go_slice \<Rightarrow> ('s, unit) krun_call" where
  "SetSMBIOSOEMStrings c ctxID oemStrings l s =
     (let (p1, l1) = cStringArray oemStrings l
      in call_zero c ''krun_set_smbios_oem_strings''
           [C_u32 ctxID, C_array p1] l1 s)"

definition Setuid :: "'s clib \<Rightarrow> u32 \<Rightarrow> u32 \<Rightarrow> ('s, unit) krun_call" where
  "Setuid c ctxID uid =
     call_zero c ''krun_setuid'' [C_u32 ctxID, C_u32 uid]"

definition Setgid :: "'s clib \<Rightarrow> u32 \<Rightarrow> u32 \<Rightarrow> ('s, unit) krun_call" where
  "Setgid c ctxID gid =
     call_zero c ''krun_setgid'' [C_u32 ctxID, C_u32 gid]"

definition SplitIRQChip :: "'s clib \<Rightarrow> u32 \<Rightarrow> bool \<Rightarrow> ('s, unit) krun_call" where
  "SplitIRQChip c ctxID enable =
     call_zero c ''krun_split_irqchip'' [C_u32 ctxID, C_bool enable]"

definition SetNestedVirt :: "'s clib \<Rightarrow> u32 \<Rightarrow> bool \<Rightarrow> ('s, unit) krun_call" where
  "SetNestedVirt c ctxID enabled =
     call_zero c ''krun_set_nested_virt'' [C_u32 ctxID, C_bool enabled]"

definition CheckNestedVirt :: "'s clib \<Rightarrow> ('s, bool) krun_call" where
  "CheckNestedVirt c =
     call_bool c ''krun_check_nested_virt'' []"

definition HasFeature :: "'s clib \<Rightarrow> u64 \<Rightarrow> ('s, bool) krun_call" where
  "HasFeature c feature =
     call_bool c ''krun_has_feature'' [C_u64 feature]"

definition GetMaxVCPUs :: "'s clib \<Rightarrow> ('s, int) krun_call" where
  "GetMaxVCPUs c =
     call_int c ''krun_get_max_vcpus'' []"

definition SetTEEConfigFile :: "'s clib \<Rightarrow> u32 \<Rightarrow> string \<Rightarrow> ('s, unit) krun_call" where
  "SetTEEConfigFile c ctxID file =
     call_zero c ''krun_set_tee_config_file'' [C_u32 ctxID, C_string file]"

definition GetShutdownEventFD :: "'s clib \<Rightarrow> u32 \<Rightarrow> ('s, int) krun_call" where
  "GetShutdownEventFD c ctxID =
     call_int c ''krun_get_shutdown_eventfd'' [C_u32 ctxID]"

definition StartEnter :: "'s clib \<Rightarrow> u32 \<Rightarrow> ('s, unit) krun_call" where
  "StartEnter c ctxID =
     call_zero c ''krun_start_enter'' [C_u32 ctxID]"

section \<open>Loading\<close>

text \<open>The fields of the table of functions: C symbol and whether it is optional.\<close>

definition krun_symbols :: "(string \<times> bool) list" where
  "krun_symbols =
     [(''krun_set_log_level'', False), (''krun_init_log'', False), (''krun_create_ctx'', False),
      (''krun_free_ctx'', False), (''krun_set_vm_config'', False), (''krun_set_root'', False),
      (''krun_add_disk'', False), (''krun_add_disk2'', False), (''krun_add_disk3'', False),
      (''krun_set_root_disk_remount'', False), (''krun_add_virtiofs'', False),
      (''krun_add_virtiofs2'', False), (''krun_add_net_unixgram'', False),
      (''krun_add_net_unixstream'', False), (''krun_add_net_tap'', False),
      (''krun_set_net_mac'', False), (''krun_set_port_map'', False),
      (''krun_set_gpu_options'', False), (''krun_set_gpu_options2'', False),
      (''krun_add_display'', False), (''krun_display_set_edid'', False),
      (''krun_display_set_dpi'', False), (''krun_display_set_physical_size'', False),
      (''krun_display_set_refresh_rate'', False), (''krun_set_display_backend'', False),
      (''krun_add_input_device'', False), (''krun_add_input_device_fd'', False),
      (''krun_set_snd_device'', False), (''krun_set_console_output'', False),
      (''krun_disable_implicit_console'', False), (''krun_set_kernel_console'', False),
      (''krun_add_virtio_console_default'', False), (''krun_add_serial_console_default'', False),
      (''krun_add_virtio_console_multiport'', False), (''krun_add_console_port_tty'', False),
      (''krun_add_console_port_inout'', False), (''krun_add_vsock'', False),
      (''krun_add_vsock_port'', False), (''krun_add_vsock_port2'', False),
      (''krun_disable_implicit_vsock'', False), (''krun_set_exec'', False),
      (''krun_set_env'', False), (''krun_set_workdir'', False), (''krun_set_firmware'', False),
      (''krun_set_kernel'', False), (''krun_set_rlimits'', False),
      (''krun_set_smbios_oem_strings'', False), (''krun_setuid'', False),
      (''krun_setgid'', False), (''krun_split_irqchip'', False),
      (''krun_set_nested_virt'', False), (''krun_check_nested_virt'', False),
      (''krun_has_feature'', False), (''krun_get_max_vcpus'', False),
      (''krun_set_tee_config_file'', True), (''krun_get_shutdown_eventfd'', True),
      (''krun_start_enter'', False)]"

text \<open>
  \<open>RegisterLibFunc\<close> panics with an error when the library lacks the symbol; the deferred function
  turns the panic into the result and closes the library.
\<close>

fun register :: "(string \<Rightarrow> bool) \<Rightarrow> (string \<times> bool) list \<Rightarrow> string list \<Rightarrow> string + string list" where
  "register has [] acc = Inr acc"
| "register has ((cf, opt) # rest) acc =
     (if opt \<and> \<not> has cf then register has rest acc
      else if has cf then register has rest (acc @ [cf])
      else Inl cf)"

datatype open_error = Dlopen string string | Missing_Symbol string

text \<open>
  \<open>Open\<close>, with how often the library has been closed; \<open>dl\<close> is the error of \<open>dlopen\<close>, \<open>has\<close> tells
  the symbols of the library.
\<close>

definition Open :: "string option \<Rightarrow> (string \<Rightarrow> bool) \<Rightarrow> string \<Rightarrow> (open_error + krun_lib) \<times> nat" where
  "Open dl has path =
     (case dl of
        Some e \<Rightarrow> (Inl (Dlopen path e), 0)
      | None \<Rightarrow>
          (case register has krun_symbols [] of
             Inl cf \<Rightarrow> (Inl (Missing_Symbol cf), 1)
           | Inr fs \<Rightarrow> (Inr \<lparr>funcs = fs, passedDown = []\<rparr>, 0)))"

section \<open>What C sees\<close>

text \<open>
  How C reads what it is given: a string up to its first NUL, an array of strings up to its first
  null pointer.
\<close>

definition c_chars :: "string \<Rightarrow> string" where
  "c_chars b = takeWhile (\<lambda>x. x \<noteq> CHR 0x00) b"

fun c_read :: "c_char list \<Rightarrow> string list" where
  "c_read [] = []"
| "c_read (Null_Char # ps) = []"
| "c_read (Chars b # ps) = c_chars b # c_read ps"

definition c_argv :: "c_array \<Rightarrow> string list" where
  "c_argv a = (case a of Null_Array \<Rightarrow> [] | Elems ps \<Rightarrow> c_read ps)"

lemma c_chars_terminated: "c_chars (x @ [CHR 0x00]) = c_chars x"
  by (induction x) (auto simp: c_chars_def)

lemma cString_reads:
  "cString x l = (p, l') \<Longrightarrow> p = Null_Char \<and> x = [] \<or> (\<exists>b. p = Chars b \<and> x \<noteq> [] \<and> c_chars b = c_chars x)"
  by (auto simp: cString_def Let_def c_chars_terminated split: if_splits)

lemma cStrings_read:
  "cStrings xs l = (ps, l') \<Longrightarrow>
     c_read (ps @ [Null_Char]) = map c_chars (takeWhile (\<lambda>x. x \<noteq> []) xs)"
proof (induction xs arbitrary: l ps l')
  case (Cons x xs)
  obtain p l1 qs l2 where c: "cString x l = (p, l1)" "cStrings xs l1 = (qs, l2)"
    by (cases "cString x l", cases "cStrings xs (snd (cString x l))") auto
  then have "ps = p # qs" using Cons.prems by simp
  then show ?case using Cons.IH [OF c(2)] cString_reads [OF c(1)] by auto
qed simp

text \<open>Strings given to C are kept, and what was kept stays.\<close>

definition kept :: "c_char \<Rightarrow> krun_lib \<Rightarrow> bool" where
  "kept p l \<longleftrightarrow> (case p of Null_Char \<Rightarrow> True | Chars b \<Rightarrow> b \<in> set (passedDown l))"

definition grows :: "krun_lib \<Rightarrow> krun_lib \<Rightarrow> bool" where
  "grows l l' \<longleftrightarrow> funcs l' = funcs l \<and> (\<exists>bs. passedDown l' = passedDown l @ bs)"

lemma grows_refl [simp]: "grows l l"
  by (simp add: grows_def)

lemma grows_trans: "grows l l' \<Longrightarrow> grows l' l'' \<Longrightarrow> grows l l''"
  by (auto simp: grows_def)

lemma kept_grows: "kept p l \<Longrightarrow> grows l l' \<Longrightarrow> kept p l'"
  by (auto simp: kept_def grows_def split: c_char.splits)

lemma cString_keeps: "cString x l = (p, l') \<Longrightarrow> kept p l' \<and> grows l l'"
  by (auto simp: cString_def kept_def grows_def Let_def split: if_splits)

lemma cStrings_keep: "cStrings xs l = (ps, l') \<Longrightarrow> list_all (\<lambda>p. kept p l') ps \<and> grows l l'"
proof (induction xs arbitrary: l ps l')
  case (Cons x xs)
  obtain p l1 qs l2 where c: "cString x l = (p, l1)" "cStrings xs l1 = (qs, l2)"
    by (cases "cString x l", cases "cStrings xs (snd (cString x l))") auto
  then show ?case
    using Cons cString_keeps [OF c(1)] grows_trans kept_grows by fastforce
qed simp

fun all_kept :: "c_array \<Rightarrow> krun_lib \<Rightarrow> bool" where
  "all_kept Null_Array l \<longleftrightarrow> True"
| "all_kept (Elems ps) l \<longleftrightarrow> list_all (\<lambda>p. kept p l) ps"

section \<open>Properties\<close>

text \<open>
  C40 (error). \<open>Open\<close> succeeds exactly when the library can be opened and has every symbol that is
  not optional; then the registered functions are the symbols that exist, so that only a wrapper
  of a missing optional one can panic. A library that was opened is closed again exactly when
  \<open>Open\<close> fails.
\<close>

lemma register_inv:
  "register has tbl acc =
     (case filter (\<lambda>(cf, opt). \<not> opt \<and> \<not> has cf) tbl of
        [] \<Rightarrow> Inr (acc @ filter has (map fst tbl))
      | (cf, opt) # rest \<Rightarrow> Inl cf)"
  by (induction has tbl acc rule: register.induct) (auto split: list.split)

theorem Open_spec:
  "(case Open dl has path of
      (Inr l, n) \<Rightarrow>
        dl = None \<and> list_all (\<lambda>(cf, opt). opt \<or> has cf) krun_symbols \<and>
        funcs l = filter has (map fst krun_symbols) \<and> passedDown l = [] \<and> n = 0
    | (Inl (Dlopen p e), n) \<Rightarrow> dl = Some e \<and> p = path \<and> n = 0
    | (Inl (Missing_Symbol cf), n) \<Rightarrow>
        dl = None \<and> (cf, False) \<in> set krun_symbols \<and> \<not> has cf \<and> n = 1)"
proof (cases "filter (\<lambda>(cf, opt). \<not> opt \<and> \<not> has cf) krun_symbols")
  case Nil
  then have "list_all (\<lambda>(cf, opt). opt \<or> has cf) krun_symbols"
    by (auto simp: filter_empty_conv list_all_iff)
  then show ?thesis using Nil by (simp add: Open_def register_inv split: option.split)
next
  case (Cons x xs)
  then have "x \<in> set krun_symbols \<and> \<not> snd x \<and> \<not> has (fst x)"
    by (metis (mono_tags, lifting) case_prod_beta filter_eq_ConsD in_set_conv_decomp)
  then show ?thesis using Cons
    by (cases x) (auto simp: Open_def register_inv split: option.split)
qed

text \<open>
  The arguments C reads from an array made by \<open>cStringArray\<close> are the given
  strings up to the first empty one: an empty argument or environment entry becomes a null
  pointer, which ends the array for C, and drops what follows it.
\<close>

lemma cStringArray_stops_at_empty:
  "c_argv (fst (cStringArray (Some xs) l)) = map c_chars (takeWhile (\<lambda>x. x \<noteq> []) xs)"
  by (cases "cStrings xs l") (auto simp: cStringArray_def c_argv_def dest: cStrings_read)

text \<open>
  \<open>SetPortMap\<close> with \<open>nil\<close> and with an empty slice is the same call of C, and so
  are \<open>SetExec\<close> and \<open>SetEnv\<close> with either as environment.
\<close>

theorem nil_and_empty_slices_agree:
  "SetPortMap c ctx None l s = SetPortMap c ctx (Some []) l s \<and>
   SetEnv c ctx None l s = SetEnv c ctx (Some []) l s \<and>
   SetExec c ctx path argv None l s = SetExec c ctx path argv (Some []) l s"
  by (simp add: SetPortMap_def SetEnv_def SetExec_def cStringArray_def Let_def)

text \<open>
  Every string \<open>SetExec\<close> hands to C is kept reachable in \<open>passedDown\<close> when the call
  is made and after it, and nothing kept before is dropped.
\<close>

theorem SetExec_keeps_strings:
  "\<exists>argv_c env_c l'.
     SetExec c ctx path argv env l s =
       call_zero c ''krun_set_exec'' [C_u32 ctx, C_string path, C_array argv_c, C_array env_c] l' s \<and>
     all_kept argv_c l' \<and> all_kept env_c l' \<and> grows l l'"
proof -
  have arr: "all_kept (fst (cStringArray a k)) (snd (cStringArray a k)) \<and> grows k (snd (cStringArray a k))"
    for a k
    using cStrings_keep [of "the a" k]
    by (auto simp: cStringArray_def kept_def Let_def split: option.split prod.split)
  have mono: "all_kept a k \<Longrightarrow> grows k k' \<Longrightarrow> all_kept a k'" for a k k'
    by (cases a) (auto simp: list_all_iff intro: kept_grows)
  show ?thesis
    using arr [of argv l] arr [of env "snd (cStringArray argv l)"] mono grows_trans
    by (auto simp: SetExec_def Let_def split: prod.split) blast
qed

end
