(* ===== verification/Krun_Const.thy ===== *)
theory Krun_Const imports Prelude begin

text \<open>
  The named constants of the bindings (krun/lib.go): what libkrun takes for log levels, formats, features
  and flags. krun-vmm and krun-api use those of network devices and log levels; the others are
  for callers of the remaining bindings.
\<close>

text \<open>Logging: levels, styles, the option and the default target.\<close>

definition LogLevelOff :: u32 where "LogLevelOff = 0"
definition LogLevelError :: u32 where "LogLevelError = 1"
definition LogLevelWarn :: u32 where "LogLevelWarn = 2"
definition LogLevelInfo :: u32 where "LogLevelInfo = 3"
definition LogLevelDebug :: u32 where "LogLevelDebug = 4"
definition LogLevelTrace :: u32 where "LogLevelTrace = 5"
definition LogStyleAuto :: u32 where "LogStyleAuto = 0"
definition LogStyleAlways :: u32 where "LogStyleAlways = 1"
definition LogStyleNever :: u32 where "LogStyleNever = 2"
definition LogOptionNoEnv :: u32 where "LogOptionNoEnv = 1"
definition LogTargetDefault :: int where "LogTargetDefault = -1"

text \<open>Features of network devices, from virtio_net.h, and the flag of vfkit sockets.\<close>

definition NetFeatureCsum :: u32 where "NetFeatureCsum = push_bit 0 1"
definition NetFeatureGuestCsum :: u32 where "NetFeatureGuestCsum = push_bit 1 1"
definition NetFeatureGuestTSO4 :: u32 where "NetFeatureGuestTSO4 = push_bit 7 1"
definition NetFeatureGuestTSO6 :: u32 where "NetFeatureGuestTSO6 = push_bit 8 1"
definition NetFeatureGuestUFO :: u32 where "NetFeatureGuestUFO = push_bit 10 1"
definition NetFeatureHostTSO4 :: u32 where "NetFeatureHostTSO4 = push_bit 11 1"
definition NetFeatureHostTSO6 :: u32 where "NetFeatureHostTSO6 = push_bit 12 1"
definition NetFeatureHostUFO :: u32 where "NetFeatureHostUFO = push_bit 14 1"

definition CompatNetFeatures :: u32 where
  "CompatNetFeatures = or NetFeatureCsum (or NetFeatureGuestCsum (or NetFeatureGuestTSO4
     (or NetFeatureGuestUFO (or NetFeatureHostTSO4 NetFeatureHostUFO))))"

definition NetFlagVfkit :: u32 where "NetFlagVfkit = push_bit 0 1"

text \<open>Disk images and their synchronisation.\<close>

definition DiskFormatRAW :: u32 where "DiskFormatRAW = 0"
definition DiskFormatQCOW2 :: u32 where "DiskFormatQCOW2 = 1"
definition DiskFormatVMDK :: u32 where "DiskFormatVMDK = 2"
definition SyncNone :: u32 where "SyncNone = 0"
definition SyncRelaxed :: u32 where "SyncRelaxed = 1"
definition SyncFull :: u32 where "SyncFull = 2"

text \<open>Transparent socket impersonation.\<close>

definition TSIHijackInet :: u32 where "TSIHijackInet = push_bit 0 1"
definition TSIHijackUnix :: u32 where "TSIHijackUnix = push_bit 1 1"

text \<open>What \<open>HasFeature\<close> can be asked.\<close>

definition FeatureNet :: u64 where "FeatureNet = 0"
definition FeatureBLK :: u64 where "FeatureBLK = 1"
definition FeatureGPU :: u64 where "FeatureGPU = 2"
definition FeatureSnd :: u64 where "FeatureSnd = 3"
definition FeatureInput :: u64 where "FeatureInput = 4"
definition FeatureEFI :: u64 where "FeatureEFI = 5"
definition FeatureTEE :: u64 where "FeatureTEE = 6"
definition FeatureAMDSEV :: u64 where "FeatureAMDSEV = 7"
definition FeatureIntelTDX :: u64 where "FeatureIntelTDX = 8"
definition FeatureAWSNitro :: u64 where "FeatureAWSNitro = 9"
definition FeatureVirglResourceMap2 :: u64 where "FeatureVirglResourceMap2 = 10"

text \<open>Flags of virglrenderer, and the number of displays.\<close>

definition VirglUseEGL :: u32 where "VirglUseEGL = push_bit 0 1"
definition VirglThreadSync :: u32 where "VirglThreadSync = push_bit 1 1"
definition VirglUseGLX :: u32 where "VirglUseGLX = push_bit 2 1"
definition VirglUseSurfaceless :: u32 where "VirglUseSurfaceless = push_bit 3 1"
definition VirglUseGLES :: u32 where "VirglUseGLES = push_bit 4 1"
definition VirglUseExternalBlob :: u32 where "VirglUseExternalBlob = push_bit 5 1"
definition VirglVenus :: u32 where "VirglVenus = push_bit 6 1"
definition VirglNoVirgl :: u32 where "VirglNoVirgl = push_bit 7 1"
definition VirglUseAsyncFenceCB :: u32 where "VirglUseAsyncFenceCB = push_bit 8 1"
definition VirglRenderServer :: u32 where "VirglRenderServer = push_bit 9 1"
definition VirglDRM :: u32 where "VirglDRM = push_bit 10 1"
definition MaxDisplays :: int where "MaxDisplays = 16"

text \<open>Kernel images.\<close>

definition KernelFormatRAW :: u32 where "KernelFormatRAW = 0"
definition KernelFormatELF :: u32 where "KernelFormatELF = 1"
definition KernelFormatPEGZ :: u32 where "KernelFormatPEGZ = 2"
definition KernelFormatImageBZ2 :: u32 where "KernelFormatImageBZ2 = 3"
definition KernelFormatImageGZ :: u32 where "KernelFormatImageGZ = 4"
definition KernelFormatImageZstd :: u32 where "KernelFormatImageZstd = 5"

section \<open>Flags\<close>

text \<open>The flags of a group are single bits, none twice, so that a combination says which were given.\<close>

definition net_features :: "u32 list" where
  "net_features =
     [NetFeatureCsum, NetFeatureGuestCsum, NetFeatureGuestTSO4, NetFeatureGuestTSO6, NetFeatureGuestUFO,
      NetFeatureHostTSO4, NetFeatureHostTSO6, NetFeatureHostUFO]"

definition virgl_flags :: "u32 list" where
  "virgl_flags =
     [VirglUseEGL, VirglThreadSync, VirglUseGLX, VirglUseSurfaceless, VirglUseGLES, VirglUseExternalBlob,
      VirglVenus, VirglNoVirgl, VirglUseAsyncFenceCB, VirglRenderServer, VirglDRM]"

definition tsi_flags :: "u32 list" where
  "tsi_flags = [TSIHijackInet, TSIHijackUnix]"

lemmas flag_defs =
  NetFeatureCsum_def NetFeatureGuestCsum_def NetFeatureGuestTSO4_def NetFeatureGuestTSO6_def
  NetFeatureGuestUFO_def NetFeatureHostTSO4_def NetFeatureHostTSO6_def NetFeatureHostUFO_def
  VirglUseEGL_def VirglThreadSync_def VirglUseGLX_def VirglUseSurfaceless_def VirglUseGLES_def
  VirglUseExternalBlob_def VirglVenus_def VirglNoVirgl_def VirglUseAsyncFenceCB_def
  VirglRenderServer_def VirglDRM_def TSIHijackInet_def TSIHijackUnix_def

fun separate_bits :: "u32 list \<Rightarrow> bool" where
  "separate_bits [] \<longleftrightarrow> True"
| "separate_bits (f # fs) \<longleftrightarrow>
     f \<noteq> 0 \<and> and f (f - 1) = 0 \<and> list_all (\<lambda>g. and f g = 0) fs \<and> separate_bits fs"

lemma flags_separate: "separate_bits net_features" "separate_bits virgl_flags" "separate_bits tsi_flags"
  by (simp_all add: net_features_def virgl_flags_def tsi_flags_def flag_defs)

text \<open>The safe default has no segmentation offload for IPv6.\<close>

lemma CompatNetFeatures_value: "CompatNetFeatures = 0x4C83"
  by (simp add: CompatNetFeatures_def flag_defs)

lemma NetFlagVfkit_value: "NetFlagVfkit = 1"
  by (simp add: NetFlagVfkit_def)

lemma CompatNetFeatures_members:
  "filter (\<lambda>f. and f CompatNetFeatures \<noteq> 0) net_features =
     [NetFeatureCsum, NetFeatureGuestCsum, NetFeatureGuestTSO4, NetFeatureGuestUFO, NetFeatureHostTSO4,
      NetFeatureHostUFO]"
  by (simp add: CompatNetFeatures_value net_features_def flag_defs)

end
