(* ===== verification/Krun_Vmm.thy ===== *)
theory Krun_Vmm imports Krun_Lib Krun_Const Vm_Process begin

text \<open>
  The child process krun-vmm (cmd/krun-vmm/main.go): it reads its configuration from standard
  input, loads libkrun, configures a context and enters the VM. Its configuration type has the
  fields and JSON names of the parent's \<open>vmmConfig\<close>, so the same record serves both; what the
  JSON decoder makes of standard input is an argument. Each call that fails ends the process
  with status 1, except setting the log level.
\<close>

datatype vmm_exit = Exit_Status nat | Panicked

text \<open>\<open>Exit_Status 0\<close>: \<open>StartEnter\<close> has returned without an error and \<open>main\<close> returns.\<close>

text \<open>
  A step of \<open>main\<close>: run the call; on an error exit with status 1, on success go on with the
  value.
\<close>

definition or_exit ::
  "('s, 'a) krun_call \<Rightarrow> ('a \<Rightarrow> ('s, vmm_exit) krun_call) \<Rightarrow> ('s, vmm_exit) krun_call" where
  "or_exit call k l s =
     (case call l s of
        (K_Ok x, l', s') \<Rightarrow> k x l' s'
      | (K_Err cf n, l', s') \<Rightarrow> (K_Ok (Exit_Status 1), l', s')
      | (K_Panic, l', s') \<Rightarrow> (K_Ok Panicked, l', s'))"

text \<open>The same for an error that is only logged, and for a call under a condition.\<close>

definition or_log ::
  "('s, unit) krun_call \<Rightarrow> ('s, vmm_exit) krun_call \<Rightarrow> ('s, vmm_exit) krun_call" where
  "or_log call k l s =
     (case call l s of
        (K_Panic, l', s') \<Rightarrow> (K_Ok Panicked, l', s')
      | (_, l', s') \<Rightarrow> k l' s')"

definition if_set ::
  "string \<Rightarrow> ('s, unit) krun_call \<Rightarrow> ('s, vmm_exit) krun_call \<Rightarrow> ('s, vmm_exit) krun_call" where
  "if_set v call k = (if v \<noteq> [] then or_exit call (\<lambda>_. k) else k)"

fun add_volumes ::
  "'s clib \<Rightarrow> u32 \<Rightarrow> virtiofs_volume list \<Rightarrow> ('s, vmm_exit) krun_call \<Rightarrow> ('s, vmm_exit) krun_call" where
  "add_volumes c ctxID [] k = k"
| "add_volumes c ctxID (v # vs) k =
     or_exit (AddVirtioFS c ctxID (vol_Tag v) (vol_HostPath v)) (\<lambda>_. add_volumes c ctxID vs k)"

text \<open>From \<open>SetVMConfig\<close> on, with the context at hand.\<close>

definition configure_context :: "'s clib \<Rightarrow> vmm_config \<Rightarrow> u32 \<Rightarrow> ('s, vmm_exit) krun_call" where
  "configure_context c cfg ctxID =
     or_exit (SetVMConfig c ctxID (j_vcpus cfg) (j_memory_mib cfg)) (\<lambda>_.
       if_set (j_rootfs_path cfg) (SetRoot c ctxID (j_rootfs_path cfg))
      (if_set (j_exec_path cfg)
         (SetExec c ctxID (j_exec_path cfg) (Some (j_args cfg)) (Some (j_env cfg)))
      (if_set (j_workdir cfg) (SetWorkdir c ctxID (j_workdir cfg))
      (if_set (j_console_path cfg) (SetConsoleOutput c ctxID (j_console_path cfg))
      (if_set (j_net_socket_path cfg)
         (AddNetUnixgram c ctxID (j_net_socket_path cfg) (j_mac cfg) CompatNetFeatures NetFlagVfkit)
      (add_volumes c ctxID (j_volumes cfg)
      (if_set (j_shutdown_socket_path cfg)
         (AddVsockPort2 c ctxID 10000 (j_shutdown_socket_path cfg) True)
      (if_set (j_exec_socket_path cfg)
         (AddVsockPort2 c ctxID 10001 (j_exec_socket_path cfg) True)
      (or_exit (StartEnter c ctxID) (\<lambda>_ l s. (K_Ok (Exit_Status 0), l, s)))))))))))"

definition configure_and_enter :: "'s clib \<Rightarrow> vmm_config \<Rightarrow> ('s, vmm_exit) krun_call" where
  "configure_and_enter c cfg =
     or_log (SetLogLevel c (j_log_level cfg)) (or_exit (CreateCtx c) (configure_context c cfg))"

text \<open>\<open>main\<close>: \<open>decoded\<close> is the configuration, if it could be read, \<open>opened\<close> the result of \<open>Open\<close>.\<close>

definition vmm_main ::
  "'s clib \<Rightarrow> vmm_config option \<Rightarrow> open_error + krun_lib \<Rightarrow> 's \<Rightarrow> vmm_exit \<times> 's" where
  "vmm_main c decoded opened s =
     (case decoded of
        None \<Rightarrow> (Exit_Status 1, s)
      | Some cfg \<Rightarrow>
          (case opened of
             Inl e \<Rightarrow> (Exit_Status 1, s)
           | Inr l \<Rightarrow>
               (case configure_and_enter c cfg l s of
                  (K_Ok r, l', s') \<Rightarrow> (r, s')
                | (_, l', s') \<Rightarrow> (Panicked, s'))))"

section \<open>A library that records its calls\<close>

text \<open>
  To state what \<open>main\<close> asks of libkrun, the library's state is the list of its calls with their
  results; \<open>ans\<close> decides the result from the calls so far, so it can be any behaviour.
\<close>

type_synonym call_log = "(string \<times> c_arg list \<times> 32 word) list"

definition recording :: "(call_log \<Rightarrow> string \<Rightarrow> c_arg list \<Rightarrow> 32 word) \<Rightarrow> call_log clib" where
  "recording ans cf args h = (let r = ans h cf args in (r, h @ [(cf, args, r)]))"

definition calls :: "call_log \<Rightarrow> (string \<times> c_arg list) list" where
  "calls h = map (\<lambda>(cf, args, r). (cf, args)) h"

text \<open>The calls that a configuration asks for, in a context \<open>ctx\<close>, and before it.\<close>

definition no_strings :: krun_lib where
  "no_strings = \<lparr>funcs = [], passedDown = []\<rparr>"

definition if_given :: "string \<Rightarrow> string \<times> c_arg list \<Rightarrow> (string \<times> c_arg list) list" where
  "if_given v call = (if v = [] then [] else [call])"

definition context_calls :: "u32 \<Rightarrow> vmm_config \<Rightarrow> (string \<times> c_arg list) list" where
  "context_calls ctx cfg =
     (''krun_set_vm_config'', [C_u32 ctx, C_u8 (j_vcpus cfg), C_u32 (j_memory_mib cfg)]) #
     if_given (j_rootfs_path cfg) (''krun_set_root'', [C_u32 ctx, C_string (j_rootfs_path cfg)]) @
     if_given (j_exec_path cfg)
       (''krun_set_exec'', [C_u32 ctx, C_string (j_exec_path cfg),
          C_array (fst (cStringArray (Some (j_args cfg)) no_strings)),
          C_array (fst (cStringArray (Some (j_env cfg)) no_strings))]) @
     if_given (j_workdir cfg) (''krun_set_workdir'', [C_u32 ctx, C_string (j_workdir cfg)]) @
     if_given (j_console_path cfg)
       (''krun_set_console_output'', [C_u32 ctx, C_string (j_console_path cfg)]) @
     if_given (j_net_socket_path cfg)
       (''krun_add_net_unixgram'', [C_u32 ctx, C_string (j_net_socket_path cfg), C_int (-1),
          C_bytes (j_mac cfg), C_u32 0x4C83, C_u32 1]) @
     map (\<lambda>v. (''krun_add_virtiofs'', [C_u32 ctx, C_string (vol_Tag v), C_string (vol_HostPath v)]))
       (j_volumes cfg) @
     if_given (j_shutdown_socket_path cfg)
       (''krun_add_vsock_port2'',
          [C_u32 ctx, C_u32 10000, C_string (j_shutdown_socket_path cfg), C_bool True]) @
     if_given (j_exec_socket_path cfg)
       (''krun_add_vsock_port2'',
          [C_u32 ctx, C_u32 10001, C_string (j_exec_socket_path cfg), C_bool True]) @
     [(''krun_start_enter'', [C_u32 ctx])]"

definition expected_calls :: "u32 \<Rightarrow> vmm_config \<Rightarrow> (string \<times> c_arg list) list" where
  "expected_calls ctx cfg =
     [(''krun_set_log_level'', [C_u32 (j_log_level cfg)]), (''krun_create_ctx'', [])] @
     context_calls ctx cfg"

section \<open>Calls in sequence\<close>

text \<open>What the result of a call has to be for \<open>main\<close> to go on.\<close>

definition accepted :: "string \<Rightarrow> 32 word \<Rightarrow> bool" where
  "accepted cf r \<longleftrightarrow>
     (if cf = ''krun_set_log_level'' then True
      else if cf = ''krun_create_ctx'' then 0 \<le> sint r else r = 0)"

fun run_plan ::
  "(call_log \<Rightarrow> string \<Rightarrow> c_arg list \<Rightarrow> 32 word) \<Rightarrow> (string \<times> c_arg list) list \<Rightarrow> call_log
     \<Rightarrow> bool \<times> call_log" where
  "run_plan ans [] h = (True, h)"
| "run_plan ans ((cf, args) # p) h =
     (let r = ans h cf args; h' = h @ [(cf, args, r)]
      in if accepted cf r then run_plan ans p h' else (False, h'))"

definition healthy :: "call_log \<Rightarrow> bool" where
  "healthy h \<longleftrightarrow> list_all (\<lambda>(cf, args, r). accepted cf r) h"

lemma run_plan_prefix:
  "run_plan ans p h = (done_all, h') \<Longrightarrow>
     \<exists>new. h' = h @ new \<and> calls new = take (length new) p \<and> healthy (butlast new) \<and>
       done_all = (length new = length p \<and> healthy new)"
proof (induction p arbitrary: h)
  case Nil
  then show ?case by (simp add: healthy_def calls_def)
next
  case (Cons x p)
  obtain cf args where x: "x = (cf, args)" by (cases x)
  let ?r = "ans h cf args"
  show ?case
  proof (cases "accepted cf ?r")
    case True
    then have "run_plan ans p (h @ [(cf, args, ?r)]) = (done_all, h')" using Cons.prems x by simp
    from Cons.IH [OF this] obtain new where
      n: "h' = (h @ [(cf, args, ?r)]) @ new" "calls new = take (length new) p"
        "healthy (butlast new)" "done_all = (length new = length p \<and> healthy new)" by blast
    then show ?thesis
      by (intro exI [of _ "(cf, args, ?r) # new"]) (auto simp: x True calls_def healthy_def)
  next
    case False
    then have "h' = h @ [(cf, args, ?r)]" "\<not> done_all" using Cons.prems x by simp_all
    then show ?thesis
      by (intro exI [of _ "[(cf, args, ?r)]"]) (auto simp: x False calls_def healthy_def)
  qed
qed

text \<open>A continuation of \<open>main\<close> that makes the calls of a plan, and ends with their verdict.\<close>

definition vmm_symbols :: "string set" where
  "vmm_symbols =
     {''krun_set_log_level'', ''krun_create_ctx'', ''krun_set_vm_config'', ''krun_set_root'',
      ''krun_set_exec'', ''krun_set_workdir'', ''krun_set_console_output'',
      ''krun_add_net_unixgram'', ''krun_add_virtiofs'', ''krun_add_vsock_port2'', ''krun_start_enter''}"

definition verdict :: "bool \<Rightarrow> vmm_exit" where
  "verdict ok = Exit_Status (if ok then 0 else 1)"

definition follows ::
  "(call_log \<Rightarrow> string \<Rightarrow> c_arg list \<Rightarrow> 32 word) \<Rightarrow> (call_log, vmm_exit) krun_call
     \<Rightarrow> (string \<times> c_arg list) list \<Rightarrow> bool" where
  "follows ans k p \<longleftrightarrow>
     (\<forall>l h. vmm_symbols \<subseteq> set (funcs l) \<longrightarrow>
        (\<exists>l'. k l h = (K_Ok (verdict (fst (run_plan ans p h))), l', snd (run_plan ans p h))))"

lemma follows_end: "follows ans (\<lambda>l s. (K_Ok (Exit_Status 0), l, s)) []"
  by (simp add: follows_def verdict_def)

lemma follows_zero:
  assumes "cf \<in> vmm_symbols" "cf \<noteq> ''krun_set_log_level''" "cf \<noteq> ''krun_create_ctx''"
    and "follows ans k p"
  shows "follows ans (or_exit (call_zero (recording ans) cf args) (\<lambda>_. k)) ((cf, args) # p)"
  using assms
  by (fastforce simp: follows_def or_exit_def call_zero_def recording_def accepted_def verdict_def Let_def)

lemma follows_if_set:
  "follows ans (or_exit call (\<lambda>_. k)) (q # p) \<Longrightarrow> follows ans k p \<Longrightarrow>
     follows ans (if_set v call k) (if_given v q @ p)"
  by (simp add: if_set_def if_given_def)

lemma follows_volumes:
  "follows ans k p \<Longrightarrow>
     follows ans (add_volumes (recording ans) ctx vs k)
       (map (\<lambda>v. (''krun_add_virtiofs'', [C_u32 ctx, C_string (vol_Tag v), C_string (vol_HostPath v)])) vs @ p)"
  by (induction vs) (auto simp: AddVirtioFS_def vmm_symbols_def intro!: follows_zero)

lemma cStrings_value: "fst (cStrings xs l) = fst (cStrings xs l')"
proof (induction xs arbitrary: l l')
  case (Cons x xs)
  have "fst (cString x l) = fst (cString x l')" by (simp add: cString_def Let_def)
  then show ?case using Cons [of "snd (cString x l)" "snd (cString x l')"]
    by (simp add: Let_def case_prod_beta)
qed simp

lemma cStringArray_value: "fst (cStringArray a l) = fst (cStringArray a l')"
  using cStrings_value [of "the a" l l']
  by (auto simp: cStringArray_def Let_def case_prod_beta split: option.split)

lemma cStringArray_funcs: "funcs (snd (cStringArray a l)) = funcs l"
proof (cases a)
  case (Some xs)
  obtain ps l2 where c: "cStrings xs l = (ps, l2)" by fastforce
  then show ?thesis using cStrings_keep [OF c] Some by (simp add: cStringArray_def grows_def)
qed (simp add: cStringArray_def)

lemma follows_SetExec:
  assumes "follows ans k p"
  shows "follows ans (or_exit (SetExec (recording ans) ctx path argv env) (\<lambda>_. k))
    ((''krun_set_exec'', [C_u32 ctx, C_string path, C_array (fst (cStringArray argv no_strings)),
        C_array (fst (cStringArray env no_strings))]) # p)"
proof -
  have call: "SetExec (recording ans) ctx path argv env l h =
      call_zero (recording ans) ''krun_set_exec''
        [C_u32 ctx, C_string path, C_array (fst (cStringArray argv no_strings)),
         C_array (fst (cStringArray env no_strings))]
        (snd (cStringArray env (snd (cStringArray argv l)))) h" for l h
    using cStringArray_value [of argv l no_strings]
      cStringArray_value [of env "snd (cStringArray argv l)" no_strings]
    by (simp add: SetExec_def Let_def case_prod_beta)
  have f: "funcs (snd (cStringArray env (snd (cStringArray argv l)))) = funcs l" for l
    by (simp add: cStringArray_funcs)
  have "''krun_set_exec'' \<in> vmm_symbols" by (simp add: vmm_symbols_def)
  from follows_zero [OF this _ _ assms] show ?thesis
    unfolding follows_def or_exit_def call using f by simp
qed

lemma follows_configuration:
  "follows ans (configure_context (recording ans) cfg ctx) (context_calls ctx cfg)"
  unfolding configure_context_def context_calls_def SetVMConfig_def SetRoot_def SetWorkdir_def
    SetConsoleOutput_def AddNetUnixgram_def AddVsockPort2_def StartEnter_def
    CompatNetFeatures_value NetFlagVfkit_value
  by (intro follows_zero follows_if_set follows_SetExec follows_volumes follows_end)
    (simp_all add: vmm_symbols_def)

lemma configure_and_enter_calls:
  assumes "vmm_symbols \<subseteq> set (funcs l)"
  obtains ctx l' where
    "configure_and_enter (recording ans) cfg l h =
       (K_Ok (verdict (fst (run_plan ans (expected_calls ctx cfg) h))), l',
        snd (run_plan ans (expected_calls ctx cfg) h))"
    "ctx = ans (h @ [(''krun_set_log_level'', [C_u32 (j_log_level cfg)],
              ans h ''krun_set_log_level'' [C_u32 (j_log_level cfg)])]) ''krun_create_ctx'' []"
proof -
  let ?h1 = "h @ [(''krun_set_log_level'', [C_u32 (j_log_level cfg)],
              ans h ''krun_set_log_level'' [C_u32 (j_log_level cfg)])]"
  let ?ctx = "ans ?h1 ''krun_create_ctx'' []"
  let ?h2 = "?h1 @ [(''krun_create_ctx'', [], ?ctx)]"
  have syms: "''krun_set_log_level'' \<in> set (funcs l)" "''krun_create_ctx'' \<in> set (funcs l)"
    using assms by (auto simp: vmm_symbols_def)
  obtain l' where "configure_context (recording ans) cfg ?ctx l ?h2 =
      (K_Ok (verdict (fst (run_plan ans (context_calls ?ctx cfg) ?h2))), l',
       snd (run_plan ans (context_calls ?ctx cfg) ?h2))"
    using follows_configuration [of ans cfg ?ctx] assms unfolding follows_def by blast
  then have "\<exists>l'. configure_and_enter (recording ans) cfg l h =
      (K_Ok (verdict (fst (run_plan ans (expected_calls ?ctx cfg) h))), l',
        snd (run_plan ans (expected_calls ?ctx cfg) h))"
    using syms
    by (auto simp: configure_and_enter_def or_log_def or_exit_def SetLogLevel_def CreateCtx_def
        call_zero_def call_id_def call_value_def recording_def expected_calls_def accepted_def
        verdict_def Let_def)
  then show thesis using that by blast
qed

section \<open>Properties\<close>

lemma all_symbols_loaded:
  assumes "Open None has path = (Inr l, n)"
  shows "vmm_symbols \<subseteq> set (funcs l)"
proof -
  have "funcs l = filter has (map fst krun_symbols)"
    "list_all (\<lambda>(cf, opt). opt \<or> has cf) krun_symbols"
    using assms register_inv [of has krun_symbols "[]"]
    by (auto simp: Open_def filter_empty_conv list_all_iff split: sum.splits list.splits)
  then show ?thesis by (simp add: krun_symbols_def vmm_symbols_def)
qed

lemma start_enter_last:
  obtains q where "expected_calls ctx cfg = q @ [(''krun_start_enter'', [C_u32 ctx])]"
    and "''krun_start_enter'' \<notin> fst ` set q"
  by (rule that [of "butlast (expected_calls ctx cfg)"])
    (auto simp: expected_calls_def context_calls_def if_given_def butlast_append split: if_splits)

lemma in_prefix_iff_last:
  assumes "p = q @ [x]" "fst x \<notin> fst ` set q" "n \<le> length p"
  shows "fst x \<in> fst ` set (take n p) \<longleftrightarrow> n = length p"
proof (cases "n = length p")
  case False
  then have "set (take n p) \<subseteq> set q" using assms(1,3) by (auto dest: in_set_takeD)
  then show ?thesis using assms(2) False by blast
qed (use assms in auto)

text \<open>
  C28 (safety). Whatever libkrun answers, krun-vmm asks for an initial part of the calls its
  configuration calls for, in that order, and every one of them but the last has been accepted;
  it ends with status 0 exactly when it made all of them and all were accepted, and it enters the
  VM only as the last of them. So no VM is started on a context that was not fully configured.
\<close>

theorem vmm_starts_only_configured:
  assumes "Open None has path = (Inr l, n)"
    and "vmm_main (recording ans) (Some cfg) (Inr l) [] = (out, h)"
  shows "\<exists>ctx. calls h = take (length h) (expected_calls ctx cfg) \<and> healthy (butlast h) \<and>
    (out = Exit_Status 0) = (calls h = expected_calls ctx cfg \<and> healthy h) \<and>
    (''krun_start_enter'' \<in> fst ` set (calls h)) = (calls h = expected_calls ctx cfg)"
proof -
  obtain ctx l' where run: "configure_and_enter (recording ans) cfg l [] =
      (K_Ok (verdict (fst (run_plan ans (expected_calls ctx cfg) []))), l',
        snd (run_plan ans (expected_calls ctx cfg) []))"
    by (rule configure_and_enter_calls [OF all_symbols_loaded [OF assms(1)]])
  let ?p = "expected_calls ctx cfg"
  have h: "run_plan ans ?p [] = (out = Exit_Status 0, h)"
    using assms(2) run by (cases "run_plan ans ?p []") (auto simp: vmm_main_def verdict_def split: if_splits)
  note pre = run_plan_prefix [OF h, simplified]
  have len: "length (calls h) = length h" by (simp add: calls_def)
  then have le: "length h \<le> length ?p" using pre by (metis length_take min.cobounded1 nat_le_linear min.absorb2 min.commute)
  have eq: "calls h = ?p \<longleftrightarrow> length h = length ?p" using pre len by auto
  obtain q where q: "?p = q @ [(''krun_start_enter'', [C_u32 ctx])]"
    "''krun_start_enter'' \<notin> fst ` set q" by (rule start_enter_last)
  have "''krun_start_enter'' \<in> fst ` set (take (length h) ?p) \<longleftrightarrow> length h = length ?p"
    using in_prefix_iff_last [OF q(1) _ le] q(2) by simp
  then show ?thesis using pre eq by metis
qed

definition demo_vmm_config :: vmm_config where
  "demo_vmm_config =
     \<lparr>j_log_level = 3, j_vcpus = 2, j_memory_mib = 512, j_rootfs_path = ''/r'', j_exec_path = ''/bin/sh'',
      j_args = [''-l''], j_env = [], j_workdir = [], j_console_path = ''/c'', j_net_socket_path = ''/n'',
      j_mac = [0x5a], j_volumes = [], j_shutdown_socket_path = ''/s'', j_exec_socket_path = ''/e''\<rparr>"

theorem vmm_starts_only_configured_witness:
  "\<exists>l. Open None (\<lambda>_. True) ''libkrun.dylib'' = (Inr l, 0) \<and>
     (\<exists>ctx out h. vmm_main (recording (\<lambda>h cf args. if cf = ''krun_set_exec'' then -22 else 0))
        (Some demo_vmm_config) (Inr l) [] = (out, h) \<and>
      calls h = take (length h) (expected_calls ctx demo_vmm_config) \<and>
      (''krun_start_enter'' \<in> fst ` set (calls h)) = (calls h = expected_calls ctx demo_vmm_config))"
proof -
  obtain l where o: "Open None (\<lambda>_. True) ''libkrun.dylib'' = (Inr l, 0)"
    by (simp add: Open_def register_inv)
  obtain out h where
    "vmm_main (recording (\<lambda>h cf args. if cf = ''krun_set_exec'' then -22 else 0))
        (Some demo_vmm_config) (Inr l) [] = (out, h)" by fastforce
  with vmm_starts_only_configured [OF o this] o show ?thesis by blast
qed

end
