(* ===== verification/Image_Config.thy ===== *)
theory Image_Config imports Machine "HOL-Library.AList" "HOL-Library.Multiset" begin

text \<open>
  Container images as the client sees them: their configuration (internal/cli/image.go), the
  name of an image reference (cmd/krun-run/main.go and internal/api/image_cache.go hold the same
  function twice) and the short digest that names a cached image. A Go map is filled with
  \<open>AList.update\<close>, which keeps one entry per key.
\<close>

section \<open>The image's configuration\<close>

record image_config =
  Cmd :: "string list"
  Entrypoint :: "string list"
  img_Env :: "string list"
  WorkingDir :: string

definition img_ExecPath :: "image_config \<Rightarrow> string" where
  "img_ExecPath ic =
     (if length (Entrypoint ic) > 0 then Entrypoint ic ! 0
      else if length (Cmd ic) > 0 then Cmd ic ! 0
      else ''/bin/sh'')"

definition ExecArgs :: "image_config \<Rightarrow> string list" where
  "ExecArgs ic =
     (if length (Entrypoint ic) > 0 then drop 1 (Entrypoint ic) @ Cmd ic
      else if length (Cmd ic) > 1 then drop 1 (Cmd ic)
      else if length (Cmd ic) = 0 then [''-l'']
      else [])"

definition env_entry :: "string \<Rightarrow> string \<times> string" where
  "env_entry e = (case cut e (CHR ''='') of (k, v, found) \<Rightarrow> (k, v))"

definition EnvMap :: "image_config \<Rightarrow> go_map" where
  "EnvMap ic = fold (\<lambda>e m. case env_entry e of (k, v) \<Rightarrow> AList.update k v m) (img_Env ic) []"

section \<open>Image references\<close>

definition imageName :: "string \<Rightarrow> string" where
  "imageName ref =
     (let (ref1, _, _) = cut ref (CHR ''@'');
          (ref2, _, _) = cut ref1 (CHR '':'')
      in case last_index ref2 (CHR ''/'') of
           Some i \<Rightarrow> drop (i + 1) ref2
         | None \<Rightarrow> ref2)"

definition imageBasename :: "string \<Rightarrow> string" where
  "imageBasename ref =
     (let (ref1, _, _) = cut ref (CHR ''@'');
          (ref2, _, _) = cut ref1 (CHR '':'')
      in case last_index ref2 (CHR ''/'') of
           Some i \<Rightarrow> drop (i + 1) ref2
         | None \<Rightarrow> ref2)"

definition shortSHA :: "string \<Rightarrow> string" where
  "shortSHA digest =
     (let s = trim_prefix digest ''sha256:'' in if length s > 12 then take 12 s else s)"

section \<open>Lemmas\<close>

lemma imageBasename_eq: "imageBasename = imageName"
  by (rule ext) (simp add: imageBasename_def imageName_def)

text \<open>The path and the arguments together are the command line of the image.\<close>

definition image_command :: "image_config \<Rightarrow> string list" where
  "image_command ic =
     (if Entrypoint ic @ Cmd ic = [] then [''/bin/sh'', ''-l''] else Entrypoint ic @ Cmd ic)"

lemma ExecPath_ExecArgs: "img_ExecPath ic # ExecArgs ic = image_command ic"
  by (cases "Entrypoint ic"; cases "Cmd ic")
    (auto simp: img_ExecPath_def ExecArgs_def image_command_def)

lemma EnvMap_lookup: "map_of (EnvMap ic) = map_of (rev (map env_entry (img_Env ic)))"
proof -
  have "map_of (fold (\<lambda>e m. case env_entry e of (k, v) \<Rightarrow> AList.update k v m) es m) =
      map_of (rev (map env_entry es) @ m)" for es m
  proof (induction es arbitrary: m)
    case (Cons e es)
    obtain k v where "env_entry e = (k, v)" by fastforce
    then show ?case using Cons [of "AList.update k v m"]
      by (auto simp: update_conv' fun_eq_iff map_add_def split: option.split)
  qed simp
  then show ?thesis by (simp add: EnvMap_def)
qed

lemma EnvMap_distinct: "distinct (map fst (EnvMap ic))"
proof -
  have "distinct (map fst m) \<Longrightarrow>
      distinct (map fst (fold (\<lambda>e m. case env_entry e of (k, v) \<Rightarrow> AList.update k v m) es m))" for es m
    by (induction es arbitrary: m) (auto simp: distinct_update split: prod.split)
  then show ?thesis by (simp add: EnvMap_def)
qed

lemma env_entry_join: "CHR ''='' \<notin> set k \<Longrightarrow> env_entry (k @ CHR ''='' # v) = (k, v)"
  using cut_append [of "CHR ''=''" k v] by (simp add: env_entry_def)

text \<open>
  The name of a reference with a port in its registry is the host: the first colon is taken for
  the one before the tag.
\<close>

lemma imageName_examples:
  "imageName ''docker.io/library/alpine:3.18'' = ''alpine''"
  "imageName ''alpine@sha256:0123'' = ''alpine''"
  "imageName ''localhost:5000/alpine:3.18'' = ''localhost''"
  by (simp_all add: imageName_def cut_def last_index_def)

section \<open>Properties\<close>

text \<open>
  The environment survives its two translations: when the variables of a
  configuration have names without \<open>=\<close>, each name once, turning it into \<open>KEY=VALUE\<close> strings, in
  whatever order the map is visited, and back gives the same map, values with \<open>=\<close> included.
\<close>

theorem EnvMap_EnvSlice:
  assumes "distinct (map fst (Env c))" and "list_all (\<lambda>(k, v). CHR ''='' \<notin> set k) (Env c)"
    and "mset (img_Env ic) = mset (EnvSlice c)"
  shows "map_of (EnvMap ic) = map_of (Env c) \<and> distinct (map fst (EnvMap ic))"
proof
  have "map env_entry (EnvSlice c) = Env c"
    using assms(2) by (fastforce simp: EnvSlice_def list_all_iff env_entry_join intro!: map_idI)
  moreover define ys where "ys = map env_entry (img_Env ic)"
  ultimately have eq: "mset ys = mset (Env c)" using assms(3) by (metis mset_map)
  then have "distinct (map fst ys)" using assms(1) by (metis mset_map mset_eq_imp_distinct_iff)
  then have "distinct (map fst (rev ys))" by (simp add: rev_map [symmetric])
  moreover have "set (rev ys) = set (Env c)" using mset_eq_setD [OF eq] by simp
  ultimately have "map_of (rev (map env_entry (img_Env ic))) = map_of (Env c)"
    using map_of_inject_set assms(1) unfolding ys_def by blast
  then show "map_of (EnvMap ic) = map_of (Env c)" by (simp add: EnvMap_lookup)
  show "distinct (map fst (EnvMap ic))" by (rule EnvMap_distinct)
qed

theorem EnvMap_EnvSlice_witness:
  "map_of (EnvMap \<lparr>Cmd = [], Entrypoint = [], img_Env = [''OPTS=a=b'', ''PATH=/bin''], WorkingDir = []\<rparr>) =
     map_of [(''PATH'', ''/bin''), (''OPTS'', ''a=b'')]"
  using EnvMap_EnvSlice
    [of "\<lparr>VCPUs = 1, MemoryMiB = 256, RootfsPath = [], ExecPath = [], Args = [],
          Env = [(''PATH'', ''/bin''), (''OPTS'', ''a=b'')], Workdir = [], Volumes = []\<rparr>"
       "\<lparr>Cmd = [], Entrypoint = [], img_Env = [''OPTS=a=b'', ''PATH=/bin''], WorkingDir = []\<rparr>"]
  by (simp add: EnvSlice_def)

end
