(* ===== verification/Krun_Run.thy ===== *)
theory Krun_Run imports Image_Config begin

text \<open>
  krun-run (cmd/krun-run/main.go) and the HTTP client it uses (internal/cli/client.go): inspect
  an image, build a request, create a machine and start it. What the registry answers is an
  argument, and so is the server, with a state of its own. An HTTP exchange gives a transport
  error, or a status with the body's text and what the JSON decoder makes of it; a server
  that does not answer gives \<open>None\<close> (the client has no timeout).
\<close>

section \<open>The client\<close>

record machine_config =
  mc_VCPUs :: int
  mc_MemoryMiB :: int
  mc_ExecPath :: string
  mc_Args :: "string list"
  mc_Env :: go_map
  mc_Workdir :: string

record client_request =
  cl_Name :: string
  cl_BaseImage :: string
  cl_Config :: machine_config
  cl_ProxyAddr :: string

record machine_response =
  mr_ID :: string
  mr_Name :: string
  mr_State :: string

datatype exchange =
    Transport_Error string
  | Answered int string "string + machine_response"

datatype client_error =
    Post_Failed string string
  | Api_Error int string
  | Decode_Failed string

text \<open>The requests: the path and, for the first, the body.\<close>

datatype http_call = Post_Create string client_request | Post_Start string

type_synonym 's server = "http_call \<Rightarrow> 's \<Rightarrow> (exchange \<times> 's) option"

definition readAPIError :: "int \<Rightarrow> string \<Rightarrow> client_error" where
  "readAPIError status body = Api_Error status (trim_space body)"

text \<open>What both calls make of an exchange, by the path for the error text and the status they expect.\<close>

definition client_result :: "string \<Rightarrow> int \<Rightarrow> exchange \<Rightarrow> client_error + machine_response" where
  "client_result path expected ex =
     (case ex of
        Transport_Error e \<Rightarrow> Inl (Post_Failed path e)
      | Answered status body m \<Rightarrow>
          (if status \<noteq> expected then Inl (readAPIError status body)
           else (case m of Inl e \<Rightarrow> Inl (Decode_Failed e) | Inr r \<Rightarrow> Inr r)))"

definition cl_CreateMachine ::
  "'s server \<Rightarrow> string \<Rightarrow> client_request \<Rightarrow> 's \<Rightarrow> ((client_error + machine_response) \<times> 's) option" where
  "cl_CreateMachine srv baseURL req s =
     map_option (apfst (client_result ''/v1/machines'' 201))
       (srv (Post_Create (baseURL @ ''/v1/machines'') req) s)"

definition cl_StartMachine ::
  "'s server \<Rightarrow> string \<Rightarrow> string \<Rightarrow> 's \<Rightarrow> ((client_error + machine_response) \<times> 's) option" where
  "cl_StartMachine srv baseURL i s =
     map_option (apfst (client_result (''/v1/machines/'' @ i @ ''/start'') 200))
       (srv (Post_Start (baseURL @ ''/v1/machines/'' @ i @ ''/start'')) s)"

section \<open>run\<close>

record run_flags =
  fl_image :: string
  fl_name :: string
  fl_api :: string
  fl_cpus :: int
  fl_memory :: int
  fl_proxy :: string
  fl_noStart :: bool
  fl_init :: string

text \<open>
  The request \<open>run\<close> builds from the image's configuration. With \<open>--init\<close> the image's command
  becomes the arguments of vminit. Go evaluates \<open>env[...] = ...\<close> on the map \<open>EnvMap\<close> has made.
\<close>

definition run_request :: "run_flags \<Rightarrow> image_config \<Rightarrow> client_request" where
  "run_request fl ic =
     (let execPath = img_ExecPath ic;
          execArgs = ExecArgs ic;
          env = EnvMap ic;
          (execPath', execArgs', env') =
            (if fl_init fl \<noteq> [] then
               (''/usr/local/bin/vminit'', execPath # execArgs,
                AList.update ''KRUN_HOSTNAME'' (fl_name fl) (AList.update ''KRUN_INIT_PID1'' ''1'' env))
             else (execPath, execArgs, env))
      in \<lparr>cl_Name = fl_name fl, cl_BaseImage = fl_image fl,
          cl_Config =
            \<lparr>mc_VCPUs = fl_cpus fl, mc_MemoryMiB = fl_memory fl, mc_ExecPath = execPath',
             mc_Args = execArgs', mc_Env = env', mc_Workdir = WorkingDir ic\<rparr>,
          cl_ProxyAddr = fl_proxy fl\<rparr>)"

datatype run_error =
    Pull_Config string
  | Read_Config string
  | Create_Failed client_error
  | Start_Failed client_error

text \<open>
  \<open>pulled\<close> is the result of \<open>crane.Pull\<close> and then of reading the configuration file. \<open>None\<close>: the
  program waits for an answer.
\<close>

definition krun_run ::
  "'s server \<Rightarrow> string + (string + image_config) \<Rightarrow> run_flags \<Rightarrow> 's \<Rightarrow>
     ((run_error + machine_response) \<times> 's) option" where
  "krun_run srv pulled fl s =
     (case pulled of
        Inl e \<Rightarrow> Some (Inl (Pull_Config e), s)
      | Inr (Inl e) \<Rightarrow> Some (Inl (Read_Config e), s)
      | Inr (Inr ic) \<Rightarrow>
          (case cl_CreateMachine srv (fl_api fl) (run_request fl ic) s of
             None \<Rightarrow> None
           | Some (Inl e, s1) \<Rightarrow> Some (Inl (Create_Failed e), s1)
           | Some (Inr m, s1) \<Rightarrow>
               (if fl_noStart fl then Some (Inr m, s1)
                else
                  (case cl_StartMachine srv (fl_api fl) (mr_ID m) s1 of
                     None \<Rightarrow> None
                   | Some (Inl e, s2) \<Rightarrow> Some (Inl (Start_Failed e), s2)
                   | Some (Inr m', s2) \<Rightarrow> Some (Inr m', s2)))))"

section \<open>What run relies on\<close>

text \<open>
  A server of machines, as the client of two calls sees it. \<open>entries\<close> are its machines by id, which are
  known by \<open>key\<close>, answered as \<open>reply\<close>, and have been made for a request (\<open>made\<close>); \<open>moved\<close> gives one another state.
  \<open>fit\<close> are the states in which it can create a machine, \<open>sound\<close> those in which it can start one.
\<close>

locale machine_server =
  fixes srv :: "'s server" and base :: string and entries :: "'s \<Rightarrow> string \<rightharpoonup> 'm"
    and key :: "'m \<Rightarrow> string" and reply :: "'m \<Rightarrow> machine_response" and made :: "client_request \<Rightarrow> 'm \<Rightarrow> bool"
    and moved :: "mstate \<Rightarrow> 'm \<Rightarrow> 'm" and fit :: "'s \<Rightarrow> bool" and sound :: "'s \<Rightarrow> bool"
  assumes creates: "fit s \<Longrightarrow> cl_CreateMachine srv base req s = Some (res, s') \<Longrightarrow>
      sound s' \<and>
      (case res of
         Inl e \<Rightarrow> entries s' = entries s
       | Inr v \<Rightarrow> \<exists>m. v = reply m \<and> made req m \<and> moved StateCreated m = m \<and> entries s (key m) = None \<and>
           entries s' = (entries s)(key m \<mapsto> m))"
    and starts: "sound s \<Longrightarrow> made req m \<Longrightarrow> entries s (key m) = Some m \<Longrightarrow> moved StateCreated m = m \<Longrightarrow>
      cl_StartMachine srv base (key m) s = Some (res, s') \<Longrightarrow>
      (case res of
         Inl e \<Rightarrow> entries s' = (entries s)(key m \<mapsto> moved StateStopped m)
       | Inr v \<Rightarrow> v = reply (moved StateRunning m) \<and> entries s' = (entries s)(key m \<mapsto> moved StateRunning m))"
    and reply_key: "mr_ID (reply m) = key m"
begin

lemma run_outcome:
  assumes "fit s" "fl_api fl = base" "krun_run srv (Inr (Inr ic)) fl s = Some (res, s')"
  shows "case res of
      Inr v \<Rightarrow> \<exists>m. made (run_request fl ic) m \<and> entries s (key m) = None \<and>
        (if fl_noStart fl then v = reply m \<and> moved StateCreated m = m \<and> entries s' = (entries s)(key m \<mapsto> m)
         else v = reply (moved StateRunning m) \<and> entries s' = (entries s)(key m \<mapsto> moved StateRunning m))
    | Inl (Create_Failed e) \<Rightarrow> entries s' = entries s
    | Inl (Start_Failed e) \<Rightarrow> \<not> fl_noStart fl \<and>
        (\<exists>m. made (run_request fl ic) m \<and> entries s (key m) = None \<and>
          entries s' = (entries s)(key m \<mapsto> moved StateStopped m))
    | _ \<Rightarrow> False"
proof -
  obtain r1 s1 where c: "cl_CreateMachine srv base (run_request fl ic) s = Some (r1, s1)"
    using assms(2,3) by (auto simp: krun_run_def split: option.splits)
  note first = creates [OF assms(1) c]
  show ?thesis
  proof (cases r1)
    case (Inl e)
    then show ?thesis using assms(2,3) first by (auto simp: krun_run_def c)
  next
    case (Inr v)
    then obtain m where m: "v = reply m" "made (run_request fl ic) m" "moved StateCreated m = m"
        "entries s (key m) = None" "entries s1 = (entries s)(key m \<mapsto> m)" "sound s1"
      using first by auto
    have k: "mr_ID v = key m" "entries s1 (key m) = Some m" by (simp_all add: m(1,5) reply_key)
    show ?thesis
    proof (cases "fl_noStart fl")
      case True
      then show ?thesis using assms(2,3) Inr m by (auto simp: krun_run_def c)
    next
      case False
      then obtain r2 s2 where d: "cl_StartMachine srv base (key m) s1 = Some (r2, s2)"
        using assms(2,3) Inr k by (auto simp: krun_run_def c split: option.splits)
      show ?thesis
        using starts [OF m(6,2) k(2) m(3) d] assms(2,3) Inr False k m
        by (cases r2) (auto simp: krun_run_def c d)
    qed
  qed
qed

end

section \<open>main\<close>

text \<open>
  \<open>main\<close> after parsing: the exit status. An image is required, positional arguments are refused,
  and the machine's name defaults to the image's.
\<close>

definition run_main ::
  "'s server \<Rightarrow> (string \<Rightarrow> string + (string + image_config)) \<Rightarrow> run_flags \<Rightarrow> nat \<Rightarrow> 's \<Rightarrow> (nat \<times> 's) option" where
  "run_main srv pull fl nargs s =
     (if fl_image fl = [] then Some (1, s)
      else if nargs \<noteq> 0 then Some (1, s)
      else
        (let fl' = (if fl_name fl = [] then fl\<lparr>fl_name := imageBasename (fl_image fl)\<rparr> else fl)
         in map_option (apfst (\<lambda>res. case res of Inl e \<Rightarrow> 1 | Inr m \<Rightarrow> 0))
              (krun_run srv (pull (fl_image fl')) fl' s)))"

end
