(* ===== verification/Vminit.thy ===== *)
theory Vminit imports Go_Strings begin

text \<open>
  The guest's init process (\<open>main\<close> of cmd/vminit/main.go): setting the guest up, binding the vsock
  ports, starting the command, and waiting for its exit, a shutdown request or a failure of the
  RPC server, after which it syncs and powers the guest off. System calls are actions in a log;
  what they answer is an argument. An answer \<open>None\<close> is success, \<open>Some e\<close> an error.
\<close>

section \<open>Setting up\<close>

datatype signal = SIGTERM | SIGKILL | Forwarded nat

datatype action =
    Mkdir_All string
  | Mount string string string
  | Set_Hostname string
  | Run_Command "string list"
  | Vsock_Socket | Vsock_Bind nat | Vsock_Listen nat
  | Start_Command "string list"
  | Send signal
  | Sync
  | Power_Off

text \<open>\<open>mount\<close> and \<open>run_command\<close> (\<open>run\<close> in the source) only log errors, so what they do does not depend on the answers.\<close>

definition mount :: "string \<Rightarrow> string \<Rightarrow> string \<Rightarrow> action list" where
  "mount fstype target src = [Mkdir_All target, Mount src target fstype]"

definition run_command :: "string \<Rightarrow> string list \<Rightarrow> action list" where
  "run_command name args = [Run_Command (name # args)]"

definition poweroff :: "action list" where
  "poweroff = [Sync, Power_Off]"

definition setupGuest :: "string \<Rightarrow> action list" where
  "setupGuest KRUN_HOSTNAME =
     mount ''proc'' ''/proc'' ''proc'' @
     mount ''sysfs'' ''/sys'' ''sysfs'' @
     mount ''devtmpfs'' ''/dev'' ''devtmpfs'' @
     mount ''devpts'' ''/dev/pts'' ''devpts'' @
     mount ''tmpfs'' ''/dev/shm'' ''tmpfs'' @
     mount ''cgroup2'' ''/sys/fs/cgroup'' ''cgroup2'' @
     [Set_Hostname (if KRUN_HOSTNAME = [] then ''minion'' else KRUN_HOSTNAME)] @
     run_command ''ip'' [''link'', ''set'', ''lo'', ''up''] @
     run_command ''ip'' [''link'', ''set'', ''eth0'', ''up''] @
     run_command ''udhcpc'' [''-i'', ''eth0'', ''-n'', ''-q'']"

definition vsockPortRPC :: nat where "vsockPortRPC = 10000"
definition vsockPortExec :: nat where "vsockPortExec = 10001"

record listen_answers =
  la_socket :: "string option"
  la_bind :: "string option"
  la_listen :: "string option"

text \<open>\<open>log.Fatal\<close> ends the process: here the left side of the result, with the message.\<close>

definition listenVsock :: "nat \<Rightarrow> listen_answers \<Rightarrow> action list \<times> string option" where
  "listenVsock port a =
     (case la_socket a of
        Some e \<Rightarrow> ([Vsock_Socket], Some (''vminit: socket: '' @ e))
      | None \<Rightarrow>
          (case la_bind a of
             Some e \<Rightarrow> ([Vsock_Socket, Vsock_Bind port],
                        Some (''vminit: bind vsock port '' @ fmt_d (int port) @ '': '' @ e))
           | None \<Rightarrow>
               ([Vsock_Socket, Vsock_Bind port, Vsock_Listen port],
                map_option (\<lambda>e. ''vminit: listen vsock port '' @ fmt_d (int port) @ '': '' @ e)
                  (la_listen a))))"

text \<open>
  \<open>main\<close> up to its \<open>select\<close>: the actions, and either the fatal message or the command that runs.
\<close>

record boot_answers =
  ba_rpc :: listen_answers
  ba_exec :: listen_answers
  ba_start :: "string option"

definition vminit_boot ::
  "nat \<Rightarrow> string list \<Rightarrow> string \<Rightarrow> boot_answers \<Rightarrow> action list \<times> (string + string list)" where
  "vminit_boot pid args hostname a =
     (if pid \<noteq> 1 then ([], Inl ''vminit: must run as PID 1 (set KRUN_INIT_PID1=1)'')
      else if length args < 2 then ([], Inl ''vminit: no command specified'')
      else
        (case listenVsock vsockPortRPC (ba_rpc a) of
           (rpc, Some e) \<Rightarrow> (setupGuest hostname @ rpc, Inl e)
         | (rpc, None) \<Rightarrow>
             (case listenVsock vsockPortExec (ba_exec a) of
                (ex, Some e) \<Rightarrow> (setupGuest hostname @ rpc @ ex, Inl e)
              | (ex, None) \<Rightarrow>
                  (setupGuest hostname @ rpc @ ex @ [Start_Command (tl args)],
                   case ba_start a of
                     Some e \<Rightarrow> Inl (''vminit: failed to start command: '' @ e)
                   | None \<Rightarrow> Inr (tl args)))))"

section \<open>Waiting\<close>

text \<open>
  What \<open>main\<close>'s \<open>select\<close> looks at: the channel the goroutine of \<open>cmd.Wait\<close> sends to (room for one),
  the channel the shutdown handler closes, the error channel of the server (room for one). The
  child's process is gone once it has exited; \<open>cmd.Wait\<close> then returns, with an error also when
  \<open>reapZombies\<close> has collected the process before.
\<close>

record guest =
  g_child_gone :: bool
  g_wait_returned :: bool
  g_childDone :: "string option option"
  g_shutdown_closed :: bool
  g_serverErr :: "string option"
  g_log :: "action list"

datatype wait_pc = Selecting | Terminating | Powering_Off | Off

datatype wait_choice = Child_Done | Shutdown_Requested | Server_Failed | Timeout | Go_On

definition act :: "action list \<Rightarrow> guest \<Rightarrow> guest" where
  "act as g = g\<lparr>g_log := g_log g @ as\<rparr>"

text \<open>
  The steps of \<open>main\<close>. A \<open>select\<close> takes any case that is ready; signals to a process that is gone
  have no effect but are in the log as well.
\<close>

fun main_step :: "wait_choice \<Rightarrow> wait_pc \<Rightarrow> guest \<Rightarrow> (wait_pc \<times> guest) option" where
  "main_step Child_Done Selecting g =
     (if g_childDone g = None then None else Some (Powering_Off, g\<lparr>g_childDone := None\<rparr>))"
| "main_step Shutdown_Requested Selecting g =
     (if g_shutdown_closed g then Some (Terminating, act [Send SIGTERM] g) else None)"
| "main_step Server_Failed Selecting g =
     (if g_serverErr g = None then None
      else Some (Powering_Off, act [Send SIGKILL] (g\<lparr>g_serverErr := None\<rparr>)))"
| "main_step Child_Done Terminating g =
     (if g_childDone g = None then None else Some (Powering_Off, g\<lparr>g_childDone := None\<rparr>))"
| "main_step Timeout Terminating g = Some (Powering_Off, act [Send SIGKILL] g)"
| "main_step Go_On Powering_Off g = Some (Off, act poweroff g)"
| "main_step _ _ g = None"

text \<open>
  \<open>Shutdown\<close>, the RPC handler: sync, close the channel, answer. Closing it a second time panics,
  which net/http recovers from by dropping the connection; the sync has been done by then.
\<close>

definition Shutdown :: "guest \<Rightarrow> bool \<times> guest" where
  "Shutdown g =
     (if g_shutdown_closed g then (False, act [Sync] g)
      else (True, (act [Sync] g)\<lparr>g_shutdown_closed := True\<rparr>))"

text \<open>
  \<open>serveRPC\<close>: \<open>Serve\<close> returns with an error always; it is reported, unless the server was closed on
  purpose.
\<close>

datatype serve_result = Err_Server_Closed | Serve_Error string

definition serveRPC :: "serve_result \<Rightarrow> guest \<Rightarrow> guest" where
  "serveRPC err g =
     (case err of
        Err_Server_Closed \<Rightarrow> g
      | Serve_Error e \<Rightarrow> g\<lparr>g_serverErr := Some e\<rparr>)"

text \<open>The rest of the guest, as long as it is not off.\<close>

inductive around :: "guest \<Rightarrow> guest \<Rightarrow> bool" where
  child_exits: "\<not> g_child_gone g \<Longrightarrow> around g (g\<lparr>g_child_gone := True\<rparr>)"
| wait_returns: "g_child_gone g \<Longrightarrow> \<not> g_wait_returned g \<Longrightarrow>
     around g (g\<lparr>g_wait_returned := True, g_childDone := Some err\<rparr>)"
| shutdown_called: "around g (snd (Shutdown g))"
| server_ends: "around g (serveRPC err g)"
| signal_forwarded: "around g (act [Send (Forwarded n)] g)"

inductive guest_step :: "wait_pc \<times> guest \<Rightarrow> wait_pc \<times> guest \<Rightarrow> bool" where
  main_moves: "main_step ch pc g = Some (pc', g') \<Longrightarrow> guest_step (pc, g) (pc', g')"
| world_moves: "pc \<noteq> Off \<Longrightarrow> around g g' \<Longrightarrow> guest_step (pc, g) (pc, g')"

definition booted :: "action list \<Rightarrow> guest" where
  "booted boot_log =
     \<lparr>g_child_gone = False, g_wait_returned = False, g_childDone = None, g_shutdown_closed = False,
      g_serverErr = None, g_log = boot_log\<rparr>"

lemma listenVsock_no_power_off: "Power_Off \<notin> set (fst (listenVsock port a))"
  by (simp add: listenVsock_def split: option.split)

lemma vminit_boot_no_power_off:
  assumes "vminit_boot pid args hostname answers = (boot_log, Inr cmd)"
  shows "Power_Off \<notin> set boot_log"
proof -
  have "Power_Off \<notin> set (setupGuest hostname)" by (simp add: setupGuest_def mount_def run_command_def)
  with assms listenVsock_no_power_off[of vsockPortRPC "ba_rpc answers"]
    listenVsock_no_power_off[of vsockPortExec "ba_exec answers"]
  show ?thesis
    by (auto simp: vminit_boot_def split: if_splits prod.splits option.splits)
qed

section \<open>Powering off\<close>

inductive guest_run :: "action list \<Rightarrow> wait_pc \<times> guest \<Rightarrow> bool" for boot_log where
  guest_starts: "guest_run boot_log (Selecting, booted boot_log)"
| guest_moves: "guest_run boot_log s \<Longrightarrow> guest_step s s' \<Longrightarrow> guest_run boot_log s'"

lemma main_step_cases:
  assumes "main_step ch pc g = Some (pc', g')"
  obtains
    (child) "pc \<in> {Selecting, Terminating}" "g_childDone g \<noteq> None" "pc' = Powering_Off"
      "g' = g\<lparr>g_childDone := None\<rparr>"
  | (asked) "pc = Selecting" "g_shutdown_closed g" "pc' = Terminating" "g' = act [Send SIGTERM] g"
  | (failed) "pc = Selecting" "g_serverErr g \<noteq> None" "pc' = Powering_Off"
      "g' = act [Send SIGKILL] (g\<lparr>g_serverErr := None\<rparr>)"
  | (timeout) "pc = Terminating" "pc' = Powering_Off" "g' = act [Send SIGKILL] g"
  | (off) "pc = Powering_Off" "pc' = Off" "g' = act poweroff g"
  using assms by (cases "(ch, pc, g)" rule: main_step.cases) (auto split: if_splits)

fun rank :: "wait_pc \<Rightarrow> nat" where
  "rank Selecting = 3" | "rank Terminating = 2" | "rank Powering_Off = 1" | "rank Off = 0"

lemma main_step_rank: "main_step ch pc g = Some (pc', g') \<Longrightarrow> rank pc' < rank pc"
  by (erule main_step_cases) auto

definition stopped_child :: "guest \<Rightarrow> bool" where
  "stopped_child g \<longleftrightarrow> g_wait_returned g \<or> Send SIGKILL \<in> set (g_log g)"

fun guest_inv :: "wait_pc \<times> guest \<Rightarrow> bool" where
  "guest_inv (pc, g) \<longleftrightarrow>
     (g_wait_returned g \<longrightarrow> g_child_gone g) \<and>
     (g_childDone g \<noteq> None \<longrightarrow> g_wait_returned g) \<and>
     (pc \<in> {Selecting, Terminating} \<and> g_wait_returned g \<longrightarrow> g_childDone g \<noteq> None) \<and>
     (pc = Terminating \<longrightarrow> Send SIGTERM \<in> set (g_log g) \<and> g_shutdown_closed g) \<and>
     (pc \<in> {Powering_Off, Off} \<longrightarrow> stopped_child g) \<and>
     (if pc = Off then \<exists>l. g_log g = l @ [Sync, Power_Off] \<and> Power_Off \<notin> set l
      else Power_Off \<notin> set (g_log g))"

lemmas guest_unfolds = act_def poweroff_def stopped_child_def Shutdown_def serveRPC_def

lemma main_step_inv: "main_step ch pc g = Some (pc', g') \<Longrightarrow> guest_inv (pc, g) \<Longrightarrow> guest_inv (pc', g')"
  by (erule main_step_cases) (auto simp: guest_unfolds)

lemma around_inv: "around g g' \<Longrightarrow> pc \<noteq> Off \<Longrightarrow> guest_inv (pc, g) \<Longrightarrow> guest_inv (pc, g')"
  by (erule around.cases) (auto simp: guest_unfolds split: serve_result.splits)

lemma guest_step_inv: "guest_step s s' \<Longrightarrow> guest_inv s \<Longrightarrow> guest_inv s'"
  by (erule guest_step.cases) (blast intro: main_step_inv around_inv)+

lemma guest_run_inv:
  assumes "guest_run boot_log s" and "Power_Off \<notin> set boot_log"
  shows "guest_inv s"
  using assms(1)
proof induction
  case guest_starts
  show ?case using assms(2) by (simp add: booted_def)
next
  case (guest_moves s s')
  then show ?case by (blast intro: guest_step_inv)
qed

text \<open>
  C29 (safety). The guest is powered off last and only once: when init is off, the log of what it
  did ends with a sync and the power-off and has no power-off before, and by then the command was
  waited for or has been sent SIGKILL; before that no power-off was made.
\<close>
theorem guest_powers_off_last:
  assumes "vminit_boot pid args hostname answers = (boot_log, Inr cmd)"
    and "guest_run boot_log (pc, g)"
  shows "case pc of
           Off \<Rightarrow> (\<exists>l. g_log g = l @ [Sync, Power_Off] \<and> Power_Off \<notin> set l) \<and>
                  (g_wait_returned g \<or> Send SIGKILL \<in> set (g_log g))
         | _ \<Rightarrow> Power_Off \<notin> set (g_log g)"
proof -
  have "Power_Off \<notin> set boot_log"
    using assms(1) by (rule vminit_boot_no_power_off)
  from guest_run_inv[OF assms(2) this] show ?thesis
    by (cases pc) (auto simp: stopped_child_def)
qed

fun main_steps :: "wait_choice list \<Rightarrow> wait_pc \<times> guest \<Rightarrow> (wait_pc \<times> guest) option" where
  "main_steps [] s = Some s"
| "main_steps (ch # chs) (pc, g) =
     (case main_step ch pc g of None \<Rightarrow> None | Some s \<Rightarrow> main_steps chs s)"

lemma main_gets_off:
  assumes "guest_inv (pc, g)" and "g_shutdown_closed g \<or> g_wait_returned g"
  shows "\<exists>chs g'. main_steps chs (pc, g) = Some (Off, g') \<and> length chs \<le> rank pc \<and> rank pc \<le> 3 \<and>
            g_child_gone g' = g_child_gone g"
proof (cases pc)
  case Selecting
  show ?thesis
  proof (cases "g_shutdown_closed g")
    case True
    then show ?thesis
      using Selecting by (intro exI[of _ "[Shutdown_Requested, Timeout, Go_On]"]) (simp add: act_def)
  next
    case False
    then show ?thesis
      using Selecting assms by (intro exI[of _ "[Child_Done, Go_On]"]) (auto simp: act_def)
  qed
next
  case Terminating
  then show ?thesis by (intro exI[of _ "[Timeout, Go_On]"]) (simp add: act_def)
next
  case Powering_Off
  then show ?thesis by (intro exI[of _ "[Go_On]"]) (simp add: act_def)
next
  case Off
  then show ?thesis by (intro exI[of _ "[]"]) simp
qed

text \<open>
  A shutdown that was asked for can be carried out from wherever the guest is: once
  the channel is closed, or the command has been waited for, \<open>main\<close> gets to the power-off in at
  most three steps of its own, however the rest of the guest has behaved before, and a command that
  does not end is not waited for.
\<close>
lemma shutdown_reaches_power_off:
  assumes "vminit_boot pid args hostname answers = (boot_log, Inr cmd)"
    and "guest_run boot_log (pc, g)"
    and "g_shutdown_closed g \<or> g_wait_returned g"
  shows "\<exists>chs g'. main_steps chs (pc, g) = Some (Off, g') \<and> length chs \<le> rank pc \<and> rank pc \<le> 3 \<and>
            g_child_gone g' = g_child_gone g"
proof -
  have "Power_Off \<notin> set boot_log"
    using assms(1) by (rule vminit_boot_no_power_off)
  from main_gets_off[OF guest_run_inv[OF assms(2) this] assms(3)] show ?thesis .
qed

text \<open>A concrete guest: the command ignores SIGTERM and a shutdown is asked for twice.\<close>

definition all_listening :: listen_answers where
  "all_listening = \<lparr>la_socket = None, la_bind = None, la_listen = None\<rparr>"

definition all_booting :: boot_answers where
  "all_booting = \<lparr>ba_rpc = all_listening, ba_exec = all_listening, ba_start = None\<rparr>"

definition sleepy :: "string list" where "sleepy = [''vminit'', ''sleep'', ''600'']"

definition sleepy_log :: "action list" where
  "sleepy_log = fst (vminit_boot 1 sleepy [] all_booting)"

lemma sleepy_boots: "vminit_boot 1 sleepy [] all_booting = (sleepy_log, Inr [''sleep'', ''600''])"
  by (simp add: sleepy_log_def vminit_boot_def sleepy_def all_booting_def all_listening_def
      listenVsock_def)

definition asked_twice :: guest where
  "asked_twice = snd (Shutdown (act [Send SIGTERM] (snd (Shutdown (booted sleepy_log)))))"

lemma asked_twice_runs: "guest_run sleepy_log (Terminating, asked_twice)"
proof -
  have a: "guest_run sleepy_log (Selecting, snd (Shutdown (booted sleepy_log)))"
    by (rule guest_moves[OF guest_starts world_moves]) (simp_all add: shutdown_called)
  have "guest_run sleepy_log (Terminating, act [Send SIGTERM] (snd (Shutdown (booted sleepy_log))))"
    by (rule guest_moves[OF a main_moves[of Shutdown_Requested]])
       (simp add: Shutdown_def booted_def act_def)
  then show ?thesis
    unfolding asked_twice_def by (rule guest_moves[OF _ world_moves]) (simp_all add: shutdown_called)
qed

lemma shutdown_reaches_power_off_witness:
  "\<exists>chs g'. main_steps chs (Terminating, asked_twice) = Some (Off, g') \<and> length chs \<le> 2 \<and>
     g_child_gone g' = g_child_gone asked_twice"
  using shutdown_reaches_power_off[OF sleepy_boots asked_twice_runs]
  by (simp add: asked_twice_def Shutdown_def act_def booted_def)

theorem guest_powers_off_last_witness: "Power_Off \<notin> set (g_log asked_twice)"
  using guest_powers_off_last[OF sleepy_boots asked_twice_runs] by simp

end
