(* ===== verification/Api_Handler.thy ===== *)
theory Api_Handler imports Operations begin

text \<open>
  The HTTP interface of krun-api (internal/api/handler.go, routes.go and types.go): the routes, one
  handler per route, the responses they write and the middleware around them. A handler calls the
  manager's operations, executed as in the theory of the manager; \<open>None\<close> means that the operation has not
  returned under the answers given. The image cache is an argument: what \<open>Ensure\<close> returns for an
  image reference, or \<open>None\<close> when the server runs without a cache. What the JSON decoder makes of a
  request's body is in the request.
\<close>

section \<open>Requests and responses\<close>

record create_request =
  rq_Name :: string
  rq_BaseImage :: string
  rq_Config :: config
  rq_Network :: network_config

text \<open>
  A path comes as the decoded elements of a clean path (\<open>ServeMux\<close> redirects others), the query as the
  value of \<open>delete_rootfs\<close>, empty if there is none.
\<close>

record http_request =
  rq_method :: string
  rq_path :: "string list"
  rq_delete_rootfs :: string
  rq_body :: "string + create_request"

datatype body =
    Json_Machine machine
  | Json_Machines "machine list"
  | Json_Null
  | Json_Error string
  | Plain_Text string
  | No_Body

text \<open>The content type is the header a handler sets itself; \<open>None\<close> if it sets none.\<close>

record response =
  status :: nat
  content_type :: "string option"
  resp_body :: body

definition writeJSON :: "nat \<Rightarrow> body \<Rightarrow> response" where
  "writeJSON st b = \<lparr>status = st, content_type = Some ''application/json'', resp_body = b\<rparr>"

definition writeError :: "nat \<Rightarrow> string \<Rightarrow> response" where
  "writeError st msg = writeJSON st (Json_Error msg)"

text \<open>\<open>http.Error\<close> of the library, which \<open>ServeMux\<close> uses for requests that no route takes.\<close>

definition http_Error :: "nat \<Rightarrow> string \<Rightarrow> response" where
  "http_Error st msg =
     \<lparr>status = st, content_type = Some ''text/plain; charset=utf-8'', resp_body = Plain_Text msg\<rparr>"

section \<open>The handlers\<close>

text \<open>
  The surroundings of a request: the answers the manager's operation meets, what other threads do to
  the manager before the handler looks the machine up again, the files on disk, and the order in
  which the map of machines is visited.
\<close>

record api_env =
  e_answers :: "answers list"
  e_meanwhile :: "mgr \<Rightarrow> mgr"
  e_files :: "string \<Rightarrow> string option"
  e_order :: "string list"

type_synonym image_cache = "(string \<Rightarrow> string + string) option"

type_synonym handled = "(response \<times> mgr \<times> thread list) option"

definition call :: "answers list \<Rightarrow> thread \<Rightarrow> mgr \<Rightarrow> (result \<times> mgr \<times> thread list) option" where
  "call as t s = (case run_thread as t s of (Done r, s', ts) \<Rightarrow> Some (r, s', ts) | _ \<Rightarrow> None)"

definition with_defaults :: "config \<Rightarrow> config" where
  "with_defaults cfg =
     (let cfg1 = (if VCPUs cfg = 0 then cfg\<lparr>VCPUs := 1\<rparr> else cfg)
      in if MemoryMiB cfg1 = 0 then cfg1\<lparr>MemoryMiB := 256\<rparr> else cfg1)"

definition h_CreateMachine :: "image_cache \<Rightarrow> api_env \<Rightarrow> http_request \<Rightarrow> mgr \<Rightarrow> handled" where
  "h_CreateMachine cache env r s =
     (case rq_body r of
        Inl e \<Rightarrow> Some (writeError 400 (''invalid request body: '' @ e), s, [])
      | Inr req \<Rightarrow>
          if rq_BaseImage req = [] then Some (writeError 400 ''base_image is required'', s, [])
          else if RootfsPath (rq_Config req) \<noteq> [] then
            Some (writeError 400 ''rootfs_path is not supported; use base_image'', s, [])
          else
            (let cfg = with_defaults (rq_Config req) in
             case cache of
               None \<Rightarrow>
                 Some (writeError 500 ''image support not configured (missing --vminit-path)'', s, [])
             | Some ensure \<Rightarrow>
                 (case ensure (rq_BaseImage req) of
                    Inl e \<Rightarrow> Some (writeError 500 (''extract image: '' @ e), s, [])
                  | Inr base \<Rightarrow>
                      (case call (e_answers env)
                              (create_call (rq_Name req) base cfg (rq_Network req)) s of
                         Some (Err e, s', ts) \<Rightarrow> Some (writeError 500 (error_text e), s', ts)
                       | Some (Ok_Machine m, s', ts) \<Rightarrow>
                           Some (writeJSON 201 (Json_Machine (objs s' m)), s', ts)
                       | _ \<Rightarrow> None))))"

definition h_ListMachines :: "api_env \<Rightarrow> mgr \<Rightarrow> handled" where
  "h_ListMachines env s =
     Some (writeJSON 200 (Json_Machines (map (objs s) (List (e_order env) s))), s, [])"

definition h_GetMachine :: "string \<Rightarrow> mgr \<Rightarrow> handled" where
  "h_GetMachine i s =
     (case Get i s of
        Inl e \<Rightarrow> Some (writeError 404 (error_text e), s, [])
      | Inr r \<Rightarrow> Some (writeJSON 200 (Json_Machine (objs s r)), s, []))"

definition h_DeleteMachine :: "api_env \<Rightarrow> http_request \<Rightarrow> string \<Rightarrow> mgr \<Rightarrow> handled" where
  "h_DeleteMachine env r i s =
     (let deleteRootfs = (rq_delete_rootfs r = ''true'') in
      case call (e_answers env) (Deleting (Delete_Enter i deleteRootfs)) s of
        Some (Err e, s', ts) \<Rightarrow> Some (writeError 400 (error_text e), s', ts)
      | Some (_, s', ts) \<Rightarrow> Some (\<lparr>status = 204, content_type = None, resp_body = No_Body\<rparr>, s', ts)
      | None \<Rightarrow> None)"

text \<open>
  \<open>m, _ := h.mgr.Get(id)\<close>: the error is dropped, and a machine that is gone by now is \<open>nil\<close>, which
  encodes as \<open>null\<close>.
\<close>

definition machine_again :: "api_env \<Rightarrow> string \<Rightarrow> mgr \<Rightarrow> thread list \<Rightarrow> handled" where
  "machine_again env i s ts =
     (let s' = e_meanwhile env s in
      Some (writeJSON 200 (case Get i s' of Inl e \<Rightarrow> Json_Null | Inr r \<Rightarrow> Json_Machine (objs s' r)),
            s', ts))"

definition h_StartMachine :: "api_env \<Rightarrow> string \<Rightarrow> mgr \<Rightarrow> handled" where
  "h_StartMachine env i s =
     (case call (e_answers env) (Starting (Start_Enter i)) s of
        Some (Err e, s', ts) \<Rightarrow> Some (writeError 400 (error_text e), s', ts)
      | Some (_, s', ts) \<Rightarrow> machine_again env i s' ts
      | None \<Rightarrow> None)"

definition h_StopMachine :: "api_env \<Rightarrow> string \<Rightarrow> mgr \<Rightarrow> handled" where
  "h_StopMachine env i s =
     (case call (e_answers env) (Stopping (Stop_Enter i)) s of
        Some (Err e, s', ts) \<Rightarrow> Some (writeError 400 (error_text e), s', ts)
      | Some (_, s', ts) \<Rightarrow> machine_again env i s' ts
      | None \<Rightarrow> None)"

definition h_GetLogs :: "api_env \<Rightarrow> string \<Rightarrow> mgr \<Rightarrow> handled" where
  "h_GetLogs env i s =
     (case Get i s of
        Inl e \<Rightarrow> Some (writeError 404 (error_text e), s, [])
      | Inr r \<Rightarrow>
          (case e_files env (console_path s i) of
             None \<Rightarrow> Some (writeError 404 ''no console output available'', s, [])
           | Some text \<Rightarrow>
               Some (\<lparr>status = 200, content_type = Some ''text/plain'', resp_body = Plain_Text text\<rparr>,
                     s, [])))"

section \<open>Routes and middleware\<close>

datatype route =
    R_Create | R_List | R_Get string | R_Delete string | R_Start string | R_Stop string
  | R_Logs string

text \<open>
  The patterns \<open>NewRouter\<close> registers, by path: what each method leads to. A wildcard takes one
  element and not the empty one behind a final slash; a pattern for GET takes HEAD as well.
\<close>

definition routes :: "string list \<Rightarrow> (string \<times> route) list" where
  "routes path =
     (if path = [''v1'', ''machines''] then [(''POST'', R_Create), (''GET'', R_List)]
      else if length path \<ge> 3 \<and> take 2 path = [''v1'', ''machines''] \<and> path ! 2 \<noteq> [] then
        (let i = path ! 2 in
         if drop 3 path = [] then [(''GET'', R_Get i), (''DELETE'', R_Delete i)]
         else if drop 3 path = [''start''] then [(''POST'', R_Start i)]
         else if drop 3 path = [''stop''] then [(''POST'', R_Stop i)]
         else if drop 3 path = [''logs''] then [(''GET'', R_Logs i)]
         else [])
      else [])"

definition method_key :: "string \<Rightarrow> string" where
  "method_key m = (if m = ''HEAD'' then ''GET'' else m)"

definition route_of :: "http_request \<Rightarrow> route option" where
  "route_of r = map_of (routes (rq_path r)) (method_key (rq_method r))"

fun handle :: "image_cache \<Rightarrow> api_env \<Rightarrow> http_request \<Rightarrow> route \<Rightarrow> mgr \<Rightarrow> handled" where
  "handle cache env r R_Create s = h_CreateMachine cache env r s"
| "handle cache env r R_List s = h_ListMachines env s"
| "handle cache env r (R_Get i) s = h_GetMachine i s"
| "handle cache env r (R_Delete i) s = h_DeleteMachine env r i s"
| "handle cache env r (R_Start i) s = h_StartMachine env i s"
| "handle cache env r (R_Stop i) s = h_StopMachine env i s"
| "handle cache env r (R_Logs i) s = h_GetLogs env i s"

definition serve_mux :: "image_cache \<Rightarrow> api_env \<Rightarrow> http_request \<Rightarrow> mgr \<Rightarrow> handled" where
  "serve_mux cache env r s =
     (case route_of r of
        Some rt \<Rightarrow> handle cache env r rt s
      | None \<Rightarrow>
          Some (if routes (rq_path r) = [] then http_Error 404 ''404 page not found''
                else http_Error 405 ''Method Not Allowed'', s, []))"

text \<open>
  \<open>setContentType\<close> sets the header before the handler runs, so it stands where the handler sets none.
  No handler of the model panics, and \<open>logger\<close> and \<open>recoverer\<close> then pass the response on.
\<close>

definition setContentType :: "response \<Rightarrow> response" where
  "setContentType w =
     w\<lparr>content_type := Some (case content_type w of None \<Rightarrow> ''application/json'' | Some t \<Rightarrow> t)\<rparr>"

definition serve :: "image_cache \<Rightarrow> api_env \<Rightarrow> http_request \<Rightarrow> mgr \<Rightarrow> handled" where
  "serve cache env r s =
     map_option (\<lambda>(w, s', ts). (setContentType w, s', ts)) (serve_mux cache env r s)"

section \<open>What the operations can return\<close>

datatype operation = Op_Create | Op_Start | Op_Stop | Op_Delete

fun start_error :: "mgr_error \<Rightarrow> bool" where
  "start_error (Create_Network e) = True"
| "start_error (Start_VM e) = True"
| "start_error _ = False"

fun result_typed :: "operation \<Rightarrow> result \<Rightarrow> bool" where
  "result_typed Op_Create (Ok_Machine r) = True"
| "result_typed Op_Create (Err (Clone_Base_Image e)) = True"
| "result_typed Op_Start Ok = True"
| "result_typed Op_Start (Err (Not_Found i)) = True"
| "result_typed Op_Start (Err (Cannot_Start i st)) = True"
| "result_typed Op_Start (Err e) = start_error e"
| "result_typed Op_Stop Ok = True"
| "result_typed Op_Stop (Err (Not_Found i)) = True"
| "result_typed Op_Stop (Err (Cannot_Stop i st)) = True"
| "result_typed Op_Delete Ok = True"
| "result_typed Op_Delete (Err (Not_Found i)) = True"
| "result_typed Op_Delete (Err (Must_Be_Stopped i st)) = True"
| "result_typed _ _ = False"

text \<open>
  A thread of an operation: at one of its points, with an error of the right kind in hand, or done
  with a result of the right kind.
\<close>

fun typed :: "operation \<Rightarrow> thread \<Rightarrow> bool" where
  "typed Op_Create (Creating p) = True"
| "typed Op_Start (Starting (Start_Close i r n e)) = start_error e"
| "typed Op_Start (Starting (Start_Fail i r e)) = start_error e"
| "typed Op_Start (Starting p) = True"
| "typed Op_Stop (Stopping p) = True"
| "typed Op_Delete (Deleting p) = True"
| "typed op (Done res) = result_typed op res"
| "typed _ _ = False"

definition left_behind :: "operation \<Rightarrow> thread list \<Rightarrow> bool" where
  "left_behind op ts \<longleftrightarrow>
     ts = [] \<or> op = Op_Start \<and> (\<exists>i r v n. ts = [Monitoring (Mon_Wait i r v n)])"

lemma result_typed_start: "start_error e \<Longrightarrow> result_typed Op_Start (Err e)"
  by (cases e) simp_all

lemma typed_step:
  assumes "typed op t" and "thread_step a t s = Some (t', s', new)"
  shows "typed op t' \<and> left_behind op new \<and> ((\<exists>r. t' = Done r) \<or> new = [])"
proof (cases t)
  case (Creating p)
  then show ?thesis using assms
    by (cases p; cases op) (auto simp: left_behind_def Let_def split: if_splits option.splits)
next
  case (Starting p)
  then show ?thesis using assms
    by (cases p; cases op)
      (auto simp: left_behind_def result_typed_start
        split: if_splits option.splits sum.splits prod.splits)
next
  case (Stopping p)
  then show ?thesis using assms
    by (cases p; cases op) (auto simp: left_behind_def split: if_splits option.splits)
next
  case (Deleting p)
  then show ?thesis using assms
    by (cases p; cases op) (auto simp: left_behind_def split: if_splits option.splits)
qed (use assms in \<open>cases op; simp\<close>)+

lemma call_typed:
  assumes "call as t s = Some (res, s', ts)" and "typed op t"
  shows "result_typed op res \<and> left_behind op ts"
proof -
  have run: "run_thread as t s = (Done res, s', ts)"
    using assms(1) by (auto simp: call_def split: prod.splits thread.splits)
  let ?P = "\<lambda>t (s :: mgr) new. typed op t \<and> left_behind op new \<and> ((\<exists>r. t = Done r) \<or> new = [])"
  have "?P (Done res) s' ([] @ ts)"
  proof (rule run_thread_inv[OF run])
    show "?P t s []" using assms(2) by (simp add: left_behind_def)
    show "?P t2 s2 (ts1 @ new)"
      if "?P t1 s1 ts1" "thread_step a t1 s1 = Some (t2, s2, new)" for a t1 s1 ts1 t2 s2 new
      using typed_step[of op t1 a s1 t2 s2 new] that by auto
  qed
  then show ?thesis by (cases op) auto
qed

section \<open>Responses\<close>

text \<open>What a response to each route may be.\<close>

fun response_type :: "route option \<Rightarrow> nat \<Rightarrow> body \<Rightarrow> bool" where
  "response_type None st (Plain_Text t) = (st = 404 \<or> st = 405)"
| "response_type (Some R_Create) st (Json_Machine m) = (st = 201)"
| "response_type (Some R_Create) st (Json_Error e) = (st = 400 \<or> st = 500)"
| "response_type (Some R_List) st (Json_Machines ms) = (st = 200)"
| "response_type (Some (R_Get i)) st (Json_Machine m) = (st = 200)"
| "response_type (Some (R_Get i)) st (Json_Error e) = (st = 404)"
| "response_type (Some (R_Delete i)) st No_Body = (st = 204)"
| "response_type (Some (R_Delete i)) st (Json_Error e) = (st = 400)"
| "response_type (Some (R_Start i)) st (Json_Error e) = (st = 400)"
| "response_type (Some (R_Start i)) st b = (st = 200 \<and> (b = Json_Null \<or> (\<exists>m. b = Json_Machine m)))"
| "response_type (Some (R_Stop i)) st (Json_Error e) = (st = 400)"
| "response_type (Some (R_Stop i)) st b = (st = 200 \<and> (b = Json_Null \<or> (\<exists>m. b = Json_Machine m)))"
| "response_type (Some (R_Logs i)) st (Plain_Text t) = (st = 200)"
| "response_type (Some (R_Logs i)) st (Json_Error e) = (st = 404)"
| "response_type _ _ _ = False"

definition header_type :: "body \<Rightarrow> string \<Rightarrow> bool" where
  "header_type b t \<longleftrightarrow>
     (case b of Plain_Text x \<Rightarrow> t = ''text/plain'' \<or> t = ''text/plain; charset=utf-8''
      | _ \<Rightarrow> t = ''application/json'')"

lemmas handler_defs =
  serve_def serve_mux_def h_CreateMachine_def h_ListMachines_def h_GetMachine_def h_DeleteMachine_def
  h_StartMachine_def h_StopMachine_def h_GetLogs_def machine_again_def

lemmas response_defs = writeError_def writeJSON_def http_Error_def setContentType_def

definition monitors_of :: "route option \<Rightarrow> thread list \<Rightarrow> bool" where
  "monitors_of rt ts \<longleftrightarrow>
     ts = [] \<or> (\<exists>i j r v n. rt = Some (R_Start i) \<and> ts = [Monitoring (Mon_Wait j r v n)])"

definition well_typed :: "route option \<Rightarrow> response \<Rightarrow> thread list \<Rightarrow> bool" where
  "well_typed rt w ts \<longleftrightarrow>
     response_type rt (status w) (resp_body w) \<and> monitors_of rt ts \<and>
     header_type (resp_body w) (the (content_type (setContentType w)))"

lemma handle_typed:
  assumes "handle cache env r rt s = Some (w, s', ts)"
  shows "well_typed (Some rt) w ts"
proof (cases rt)
  case R_Create
  then show ?thesis using assms
    by (auto simp: well_typed_def monitors_of_def handler_defs response_defs header_type_def create_call_def
        left_behind_def Let_def dest!: call_typed[of _ _ _ _ _ _ Op_Create]
        split: sum.splits if_splits option.splits result.splits)
next
  case (R_Delete i)
  then show ?thesis using assms
    by (auto simp: well_typed_def monitors_of_def handler_defs response_defs header_type_def
        left_behind_def Let_def dest!: call_typed[of _ _ _ _ _ _ Op_Delete]
        split: option.splits result.splits)
next
  case (R_Start i)
  then show ?thesis using assms
    by (auto simp: well_typed_def monitors_of_def handler_defs response_defs header_type_def
        left_behind_def Let_def dest!: call_typed[of _ _ _ _ _ _ Op_Start]
        split: option.splits result.splits sum.splits)
next
  case (R_Stop i)
  then show ?thesis using assms
    by (auto simp: well_typed_def monitors_of_def handler_defs response_defs header_type_def
        left_behind_def Let_def dest!: call_typed[of _ _ _ _ _ _ Op_Stop]
        split: option.splits result.splits sum.splits)
qed (use assms in \<open>auto simp: well_typed_def monitors_of_def handler_defs response_defs header_type_def
      Let_def split: option.splits sum.splits\<close>)

text \<open>
  C31 (type). Every response has the status, the kind of body and the content type of its route:
  a machine comes with 200 or 201, a list with 200, a deletion is 204 without a body, an error
  is a JSON error with 400, 404 or 500, a request without a route gets plain text with 404 or 405;
  and only a start leaves a thread behind, one monitor.
\<close>

theorem responses_well_typed:
  assumes "serve cache env r s = Some (w, s', ts)"
  shows "response_type (route_of r) (status w) (resp_body w) \<and> monitors_of (route_of r) ts \<and>
    (\<exists>t. content_type w = Some t \<and> header_type (resp_body w) t)"
proof -
  obtain w' where w: "w = setContentType w'" "serve_mux cache env r s = Some (w', s', ts)"
    using assms by (auto simp: serve_def)
  have "well_typed (route_of r) w' ts"
  proof (cases "route_of r")
    case None
    then show ?thesis using w(2)
      by (auto simp: well_typed_def monitors_of_def serve_mux_def response_defs header_type_def)
  next
    case (Some rt)
    then show ?thesis using w(2) handle_typed by (simp add: serve_mux_def)
  qed
  then show ?thesis by (auto simp: w(1) well_typed_def setContentType_def)
qed

text \<open>A request to \<open>demo_mgr\<close>'s server, and a cache with one image.\<close>

definition demo_request :: create_request where
  "demo_request =
     \<lparr>rq_Name = ''web'', rq_BaseImage = ''alpine:3.18'',
      rq_Config = demo_config\<lparr>VCPUs := 0, RootfsPath := []\<rparr>, rq_Network = \<lparr>ProxyAddr = []\<rparr>\<rparr>"

definition demo_cache :: image_cache where
  "demo_cache = Some (\<lambda>image. if image = ''alpine:3.18'' then Inr ''/images/alpine/1'' else Inl ''no such image'')"

definition demo_env :: api_env where
  "demo_env =
     \<lparr>e_answers = replicate 5 calm_answers, e_meanwhile = (\<lambda>s. s), e_files = (\<lambda>_. None),
      e_order = [''u1'']\<rparr>"

definition post :: "string list \<Rightarrow> create_request \<Rightarrow> http_request" where
  "post path req =
     \<lparr>rq_method = ''POST'', rq_path = path, rq_delete_rootfs = [], rq_body = Inr req\<rparr>"

definition get_request :: "string list \<Rightarrow> http_request" where
  "get_request path = \<lparr>rq_method = ''GET'', rq_path = path, rq_delete_rootfs = [], rq_body = Inl ''EOF''\<rparr>"

lemma post_route: "route_of (post [''v1'', ''machines''] req) = Some R_Create"
  by (simp add: post_def route_of_def routes_def method_key_def)

lemma get_route: "i \<noteq> [] \<Longrightarrow> route_of (get_request [''v1'', ''machines'', i]) = Some (R_Get i)"
  by (simp add: get_request_def route_of_def routes_def method_key_def)

lemma post_body: "rq_body (post path req) = Inr req"
  by (simp add: post_def)

text \<open>What a creation makes of an accepted request.\<close>

definition new_machine :: "answers \<Rightarrow> mgr \<Rightarrow> create_request \<Rightarrow> string \<Rightarrow> machine" where
  "new_machine a s req base =
     \<lparr>ID = a_uuid a, Name = rq_Name req,
      Config = (with_defaults (rq_Config req))
        \<lparr>RootfsPath := if base = [] then [] else own_clone s (a_uuid a)\<rparr>,
      Network = rq_Network req, State = StateCreated, ExecSocketPath = [],
      RootfsIsClone = (base \<noteq> []), CreatedAt = clock s, UpdatedAt = clock s\<rparr>"

definition with_machine :: "machine \<Rightarrow> string set \<Rightarrow> mgr \<Rightarrow> mgr" where
  "with_machine m new_clones s =
     s\<lparr>machines := (machines s)(ID m \<mapsto> fresh s), objs := (objs s)(fresh s := m),
       fresh := Suc (fresh s), clones := new_clones \<union> clones s\<rparr>"

lemma with_defaults_rootfs: "RootfsPath (with_defaults cfg) = RootfsPath cfg"
  by (simp add: with_defaults_def Let_def)

lemma call_create:
  assumes "RootfsPath (rq_Config req) = []"
  shows "call (a # b # as) (create_call (rq_Name req) base (with_defaults (rq_Config req)) (rq_Network req)) s =
     Some (case (base, a_clone a) of
             (c # cs, Some e) \<Rightarrow> (Err (Clone_Base_Image e), s, [])
           | _ \<Rightarrow> (Ok_Machine (fresh s),
                  with_machine (new_machine a s req base)
                    (if base = [] then {} else {own_clone s (a_uuid a)}) s, []))"
proof -
  have c: "with_defaults (rq_Config req) =
      (with_defaults (rq_Config req))\<lparr>RootfsPath := []\<rparr>"
    using with_defaults_rootfs[of "rq_Config req"] assms by simp
  show ?thesis
    using c by (cases base; cases "a_clone a")
      (simp_all add: call_def create_call_def new_machine_def with_machine_def own_clone_def Let_def)
qed

lemma demo_creates:
  "serve demo_cache demo_env (post [''v1'', ''machines''] demo_request) demo_mgr =
     Some (setContentType (writeJSON 201 (Json_Machine (new_machine calm_answers demo_mgr demo_request ''/images/alpine/1''))),
       with_machine (new_machine calm_answers demo_mgr demo_request ''/images/alpine/1'')
         {own_clone demo_mgr (a_uuid calm_answers)} demo_mgr, [])"
proof -
  have d: "rq_BaseImage demo_request = ''alpine:3.18''" "RootfsPath (rq_Config demo_request) = []"
    by (simp_all add: demo_request_def)
  have e: "e_answers demo_env = calm_answers # calm_answers # replicate 3 calm_answers"
    by (simp add: demo_env_def eval_nat_numeral)
  have "a_clone calm_answers = None" by (simp add: calm_answers_def)
  then show ?thesis
    by (simp add: serve_def serve_mux_def post_route h_CreateMachine_def post_body d e demo_cache_def
        call_create Let_def with_machine_def)
qed

theorem responses_well_typed_witness:
  "response_type (route_of (post [''v1'', ''machines''] demo_request)) 201
     (Json_Machine (new_machine calm_answers demo_mgr demo_request ''/images/alpine/1''))"
  using responses_well_typed[OF demo_creates] by (simp add: response_defs)

text \<open>An accepted creation, as the server carries it out.\<close>

lemma serve_creates:
  assumes "route_of r = Some R_Create" and "rq_body r = Inr req" and "rq_BaseImage req \<noteq> []"
    and "RootfsPath (rq_Config req) = []" and "ensure (rq_BaseImage req) = Inr base"
    and "e_answers env = a # b # as" and "base = [] \<or> a_clone a = None"
  shows "serve (Some ensure) env r s =
     Some (setContentType (writeJSON 201 (Json_Machine (new_machine a s req base))),
       with_machine (new_machine a s req base)
         (if base = [] then {} else {own_clone s (a_uuid a)}) s, [])"
  using assms(7)
  by (cases base)
    (simp_all add: serve_def serve_mux_def h_CreateMachine_def Let_def call_create assms(1-6)
      with_machine_def)

text \<open>
  C14 (functional). A machine is created for exactly the requests with a body that decodes, a base
  image, no root file system of their own, a configured cache that has the image, and a clone that
  succeeds; the machine has at least the default sizes when none are asked for, the request's name,
  network and other settings, and its own clone; the answer is 201 with the machine, and a
  following GET gives the same machine. Every other request is answered with an error and
  changes nothing.
\<close>

definition create_accepts :: "image_cache \<Rightarrow> http_request \<Rightarrow> (create_request \<times> string) option" where
  "create_accepts cache r =
     (case (rq_body r, cache) of
        (Inr req, Some ensure) \<Rightarrow>
          (case ensure (rq_BaseImage req) of
             Inr base \<Rightarrow>
               (if rq_BaseImage req \<noteq> [] \<and> RootfsPath (rq_Config req) = [] then Some (req, base) else None)
           | Inl e \<Rightarrow> None)
      | _ \<Rightarrow> None)"

definition refused :: "handled \<Rightarrow> mgr \<Rightarrow> bool" where
  "refused h s \<longleftrightarrow>
     (\<exists>w e. h = Some (w, s, []) \<and> (status w = 400 \<or> status w = 500) \<and> resp_body w = Json_Error e)"

theorem create_request_spec:
  assumes "route_of r = Some R_Create" and "e_answers env = a # b # as" and "a_uuid a \<noteq> []"
  shows "case create_accepts cache r of
      None \<Rightarrow> refused (serve cache env r s) s
    | Some (req, base) \<Rightarrow>
        (if base \<noteq> [] \<and> a_clone a \<noteq> None then refused (serve cache env r s) s
         else \<exists>w s' w' m. serve cache env r s = Some (w, s', []) \<and> status w = 201 \<and>
           resp_body w = Json_Machine m \<and> m = new_machine a s req base \<and>
           VCPUs (Config m) \<noteq> 0 \<and> MemoryMiB (Config m) \<noteq> 0 \<and>
           machines s' = (machines s)(a_uuid a \<mapsto> fresh s) \<and> objs s' = (objs s)(fresh s := m) \<and>
           vms s' = vms s \<and> networks s' = networks s \<and>
           serve cache env (get_request [''v1'', ''machines'', a_uuid a]) s' = Some (w', s', []) \<and>
           status w' = 200 \<and> resp_body w' = Json_Machine m)"
proof (cases "create_accepts cache r")
  case None
  then show ?thesis
    using assms by (cases "rq_body r"; cases cache)
      (auto simp: refused_def create_accepts_def serve_def serve_mux_def h_CreateMachine_def
        response_defs Let_def split: sum.splits if_splits)
next
  case (Some rb)
  obtain req base ensure where rb: "rb = (req, base)" "rq_body r = Inr req" "cache = Some ensure"
      "ensure (rq_BaseImage req) = Inr base" "rq_BaseImage req \<noteq> []" "RootfsPath (rq_Config req) = []"
    using Some by (auto simp: create_accepts_def split: sum.splits option.splits if_splits)
  define m where "m = new_machine a s req base"
  define s' where "s' = with_machine m (if base = [] then {} else {own_clone s (a_uuid a)}) s"
  have m: "ID m = a_uuid a" "VCPUs (Config m) \<noteq> 0" "MemoryMiB (Config m) \<noteq> 0"
    by (simp_all add: m_def new_machine_def with_defaults_def Let_def)
  have get: "serve cache env (get_request [''v1'', ''machines'', a_uuid a]) s' =
      Some (setContentType (writeJSON 200 (Json_Machine m)), s', [])"
    by (simp add: serve_def serve_mux_def get_route assms(3) h_GetMachine_def Get_def s'_def m
        with_machine_def)
  show ?thesis
  proof (cases "base \<noteq> [] \<and> a_clone a \<noteq> None")
    case True
    then show ?thesis
      using Some rb assms(1,2)
      by (cases base)
        (auto simp: refused_def serve_def serve_mux_def h_CreateMachine_def Let_def call_create
          response_defs)
  next
    case False
    then have "serve cache env r s = Some (setContentType (writeJSON 201 (Json_Machine m)), s', [])"
      using serve_creates[of r req ensure base env a b as s] assms(1,2) rb by (auto simp: rb(3) m_def s'_def)
    with False get m Some rb(1) show ?thesis
      by (auto simp: response_defs s'_def with_machine_def m_def [symmetric])
  qed
qed

theorem create_request_spec_witness:
  "\<exists>w s' w' m. serve demo_cache demo_env (post [''v1'', ''machines''] demo_request) demo_mgr = Some (w, s', []) \<and>
     status w = 201 \<and> Config m = demo_config\<lparr>VCPUs := 1, RootfsPath := ''/s/rootfs/u1''\<rparr> \<and>
     serve demo_cache demo_env (get_request [''v1'', ''machines'', ''u1'']) s' = Some (w', s', []) \<and>
     status w' = 200 \<and> resp_body w' = Json_Machine m"
proof -
  let ?r = "post [''v1'', ''machines''] demo_request"
  have e: "e_answers demo_env = calm_answers # calm_answers # replicate 3 calm_answers"
    by (simp add: demo_env_def eval_nat_numeral)
  have u: "a_uuid calm_answers = ''u1''" "a_clone calm_answers = None" by (simp_all add: calm_answers_def)
  have acc: "create_accepts demo_cache ?r = Some (demo_request, ''/images/alpine/1'')"
    by (simp add: create_accepts_def demo_cache_def post_def demo_request_def)
  have "Config (new_machine calm_answers demo_mgr demo_request ''/images/alpine/1'') =
      demo_config\<lparr>VCPUs := 1, RootfsPath := ''/s/rootfs/u1''\<rparr>"
    by (simp add: new_machine_def demo_request_def with_defaults_def own_clone_def run_simps
        path_join_def path_clean_def is_rooted_def render_path_def)
  then show ?thesis
    using create_request_spec[OF post_route[of demo_request] e, of demo_cache demo_mgr] acc u by auto
qed

text \<open>Between the steps of a call that may still fail nothing has changed; \<open>Start\<close> is apart.\<close>

fun untouched :: "mgr \<Rightarrow> thread \<Rightarrow> mgr \<Rightarrow> bool" where
  "untouched s0 (Creating (Create_Enter name base cfg net)) s = (s = s0)"
| "untouched s0 (Stopping (Stop_Enter i)) s = (s = s0)"
| "untouched s0 (Stopping (Stop_Check i r vo no)) s = (s = s0)"
| "untouched s0 (Deleting (Delete_Enter i del)) s = (s = s0)"
| "untouched s0 (Done (Err e)) s = (s = s0)"
| "untouched s0 (Starting p) s = False"
| "untouched s0 t s = True"

lemma untouched_step:
  assumes "untouched s0 t s" and "thread_step a t s = Some (t', s', new)"
  shows "untouched s0 t' s'"
proof (cases t)
  case (Creating p)
  then show ?thesis using assms by (cases p) (auto simp: Let_def split: if_splits option.splits)
next
  case (Monitoring p)
  then show ?thesis using assms by (cases p) (auto split: option.splits)
next
  case (Stopping p)
  then show ?thesis using assms by (cases p) (auto split: if_splits option.splits)
next
  case (Deleting p)
  then show ?thesis using assms by (cases p) (auto split: if_splits option.splits)
qed (use assms in simp_all)

lemma failed_call:
  assumes "call as t s = Some (Err e, s', ts)" and "untouched s t s" and "typed op t"
  shows "s' = s \<and> (op \<noteq> Op_Start \<longrightarrow> ts = [])"
proof -
  have run: "run_thread as t s = (Done (Err e), s', ts)"
    using assms(1) by (auto simp: call_def split: prod.splits thread.splits)
  have "untouched s (Done (Err e)) s'"
    by (rule run_thread_inv[OF run, where P = "\<lambda>t u us. untouched s t u", OF assms(2)])
       (rule untouched_step)
  moreover have "left_behind op ts" using call_typed[OF assms(1,3)] by simp
  ultimately show ?thesis by (auto simp: left_behind_def)
qed

text \<open>A failed start: refused at its guard, or cleaned up behind it.\<close>

definition stopped_again :: "string \<Rightarrow> mgr \<Rightarrow> mgr \<Rightarrow> bool" where
  "stopped_again i s s' \<longleftrightarrow>
     machines s' = machines s \<and> vms s' = vms s \<and> networks s' = networks s \<and> vm_objs s' = vm_objs s \<and>
     map_option (\<lambda>r. get_state r s') (machines s i) = Some StateStopped"

lemma failed_start:
  assumes "call as (Starting (Start_Enter i)) s = Some (Err e, s', ts)"
  shows "ts = [] \<and> (s' = s \<or> stopped_again i s s')"
proof -
  have run: "run_thread as (Starting (Start_Enter i)) s = (Done (Err e), s', ts)"
    using assms by (auto simp: call_def split: prod.splits thread.splits)
  then obtain a as' where as: "as = a # as'" by (cases as) auto
  show ?thesis
  proof (cases "\<exists>r. machines s i = Some r \<and> (get_state r s = StateCreated \<or> get_state r s = StateStopped)")
    case False
    then have "thread_step a (Starting (Start_Enter i)) s = Some (Done (Err e'), s, [])"
      if "e' = (case machines s i of None \<Rightarrow> Not_Found i | Some r \<Rightarrow> Cannot_Start i (get_state r s))" for e'
      using that by (auto split: option.split)
    then show ?thesis using run by (auto simp: as)
  next
    case True
    then obtain r where r: "machines s i = Some r" "get_state r s = StateCreated \<or> get_state r s = StateStopped"
      by blast
    let ?P = "\<lambda>t u (us :: thread list). failing s i r t u \<and> (t \<noteq> Done Ok \<longrightarrow> us = [])"
    have "?P (Done (Err e)) s' ([] @ ts)"
    proof (rule run_thread_inv [OF run])
      show "?P t' u' (us @ new)"
        if "?P t u us" "thread_step a t u = Some (t', u', new)" for a t u us t' u' new
        using that failing_step [of s i r t u a t' u' new] r by (cases t) auto
    qed simp
    then show ?thesis using r(1) by (auto simp: stopped_again_def only_nets_def)
  qed
qed

text \<open>
  C15 (error). An error changes nothing: a request answered with a status of 400 or more leaves the
  manager as it was and leaves no thread behind, whatever its route. The one exception is a start
  that fails after its guard: it changes no map and no VM, and leaves the machine stopped.
\<close>

theorem API_errors_change_nothing:
  assumes "serve cache env r s = Some (w, s', ts)" and "status w \<ge> 400"
  shows "ts = [] \<and> (s' = s \<or> (\<exists>i. route_of r = Some (R_Start i) \<and> stopped_again i s s'))"
proof (cases "route_of r")
  case (Some rt)
  with assms have h: "\<exists>w'. handle cache env r rt s = Some (w', s', ts) \<and> status w' \<ge> 400"
    by (auto simp: serve_def serve_mux_def setContentType_def)
  show ?thesis
  proof (cases rt)
    case R_Create
    then show ?thesis using h
      by (auto simp: h_CreateMachine_def response_defs create_call_def Let_def
          dest!: failed_call[of _ _ _ _ _ _ Op_Create]
          split: sum.splits if_splits option.splits result.splits)
  next
    case (R_Start i)
    then show ?thesis using h Some
      by (auto simp: h_StartMachine_def machine_again_def response_defs Let_def
          dest!: failed_start split: option.splits result.splits sum.splits)
  next
    case (R_Stop i)
    then show ?thesis using h
      by (auto simp: h_StopMachine_def machine_again_def response_defs Let_def
          dest!: failed_call[of _ _ _ _ _ _ Op_Stop] split: option.splits result.splits sum.splits)
  next
    case (R_Delete i)
    then show ?thesis using h
      by (auto simp: h_DeleteMachine_def response_defs Let_def
          dest!: failed_call[of _ _ _ _ _ _ Op_Delete] split: option.splits result.splits)
  qed (use h in \<open>auto simp: handler_defs response_defs split: option.splits sum.splits\<close>)
qed (use assms in \<open>auto simp: serve_def serve_mux_def\<close>)

theorem API_errors_change_nothing_witness:
  "\<exists>w. serve None demo_env (post [''v1'', ''machines''] demo_request) demo_mgr = Some (w, demo_mgr, []) \<and>
     status w = 500"
proof -
  obtain w s' ts where h:
    "serve None demo_env (post [''v1'', ''machines''] demo_request) demo_mgr = Some (w, s', ts)"
    "status w = 500"
    by (simp add: serve_def serve_mux_def post_route h_CreateMachine_def post_body demo_request_def
        response_defs Let_def)
  with API_errors_change_nothing[OF h(1)] show ?thesis by (simp add: post_route)
qed

end
