(* ===== verification/Boot_Chain.thy ===== *)
theory Boot_Chain imports Krun_Vmm Krun_Run Vminit Api_Handler begin

text \<open>
  The chain of programs between a user's command line and the guest: krun-run builds a request from
  the image, krun-api makes a machine of it and starts a child, krun-vmm hands the configuration
  to libkrun, libkrun runs init in the guest, and init runs the image's command. Each link is the
  model of one component; the theorems run them on one another's output.
\<close>

section \<open>From a start to libkrun\<close>

text \<open>A child runs on what its parent wrote to it.\<close>

definition run_child ::
  "(call_log \<Rightarrow> string \<Rightarrow> c_arg list \<Rightarrow> 32 word) \<Rightarrow> krun_lib \<Rightarrow> vm \<Rightarrow> vmm_exit \<times> call_log" where
  "run_child ans l v = vmm_main (recording ans) (vm_stdin v) (Inr l) []"

lemma run_plan_all:
  assumes "\<And>h cf args. accepted cf (ans h cf args)"
  shows "fst (run_plan ans p h)" and "calls (snd (run_plan ans p h)) = calls h @ p"
  using assms by (induction p arbitrary: h) (auto simp: Let_def calls_def)

lemma run_child_calls:
  assumes "Open None has path = (Inr l, n)" and "vm_stdin v = Some cfg"
    and "\<And>h cf args. accepted cf (ans h cf args)"
  obtains ctx h where "run_child ans l v = (Exit_Status 0, h)" "calls h = expected_calls ctx cfg"
proof -
  obtain ctx l' where "configure_and_enter (recording ans) cfg l [] =
      (K_Ok (verdict (fst (run_plan ans (expected_calls ctx cfg) []))), l',
        snd (run_plan ans (expected_calls ctx cfg) []))"
    by (rule configure_and_enter_calls [OF all_symbols_loaded [OF assms(1)]])
  then show thesis
    using that run_plan_all[OF assms(3), where p = "expected_calls ctx cfg" and h = "[]"]
    by (auto simp: run_child_def vmm_main_def assms(2) verdict_def calls_def)
qed

lemma path_join_nonempty: "d \<noteq> [] \<Longrightarrow> plain_elem n \<Longrightarrow> path_join [d, n] \<noteq> []"
  by (rule path_join_name[of d n]) (auto simp: plain_elem_def)

lemma dotted_nonempty: "dotless i \<Longrightarrow> socketDir s \<noteq> [] \<Longrightarrow> path_join [socketDir s, i @ ''.sock''] \<noteq> []"
  using plain_dotted[of i "''sock''"] path_join_nonempty by simp

text \<open>
  C8 (functional). A machine that is started reaches libkrun as it was configured: the child that
  \<open>Start\<close> leaves running, on the configuration it was sent and with a libkrun that accepts
  everything, makes the calls for that configuration and enters the VM. The network device it adds
  is the socket on which the machine's network listens, with the address for which that network
  holds the guest's DHCP lease.
\<close>

theorem started_machine_enters_libkrun:
  assumes "machines s i = Some r" and "get_state r s = StateCreated \<or> get_state r s = StateStopped"
    and "list_all all_well as" and "length as = 5"
    and "socketDir s \<noteq> []" and "dotless i"
    and "Open None has path = (Inr l, n)" and "\<And>h cf args. accepted cf (ans h cf args)"
  shows "\<exists>s' v net ctx h. run_thread as (Starting (Start_Enter i)) s =
      (Done Ok, s', [Monitoring (Mon_Wait i r v net)]) \<and>
    run_child ans l (vm_objs s' v) = (Exit_Status 0, h) \<and>
    calls h = expected_calls ctx (sent_config s i (objs s r)) \<and>
    listening (net_objs s' net) \<and>
    (''krun_add_net_unixgram'', [C_u32 ctx, C_string (sockPath (net_objs s' net)), C_int (-1),
       C_bytes (MACFromID i), C_u32 CompatNetFeatures, C_u32 NetFlagVfkit]) \<in> set (calls h) \<and>
    DHCPStaticLeases (net_configuration_of (start_net_opts s i (objs s r))) =
      [(''192.168.127.2'', the (FormatMAC (MACFromID i)))]"
proof -
  obtain s' v net where st: "run_thread as (Starting (Start_Enter i)) s =
      (Done Ok, s', [Monitoring (Mon_Wait i r v net)])"
      "vm_stdin (vm_objs s' v) = Some (sent_config s i (objs s r))"
      "listening (net_objs s' net)" "sockPath (net_objs s' net) = path_join [socketDir s, i @ ''.sock'']"
    using start_run[OF assms(1-4)] by blast
  obtain ctx h where h: "run_child ans l (vm_objs s' v) = (Exit_Status 0, h)"
      "calls h = expected_calls ctx (sent_config s i (objs s r))"
    by (rule run_child_calls[OF assms(7) st(2) assms(8)])
  have "path_join [socketDir s, i @ ''.sock''] \<noteq> []" by (rule dotted_nonempty[OF assms(6,5)])
  then have "(''krun_add_net_unixgram'', [C_u32 ctx, C_string (path_join [socketDir s, i @ ''.sock'']), C_int (-1),
       C_bytes (MACFromID i), C_u32 CompatNetFeatures, C_u32 NetFlagVfkit]) \<in> set (calls h)"
    by (simp add: h(2) expected_calls_def context_calls_def if_given_def sent_config_def
        CompatNetFeatures_value NetFlagVfkit_value)
  then show ?thesis
    using st h by (simp add: net_configuration_of_def start_net_opts_def mac_string_defined) blast
qed

text \<open>The machine of the manager's example, whose UUID is \<open>u1\<close>, on a library that answers 0.\<close>

lemma created_mgr_socketDir: "socketDir created_mgr = ''/s''"
  by (simp add: created_mgr_def run_simps)

theorem started_machine_enters_libkrun_witness:
  "\<exists>s' v net ctx h l. run_thread (replicate 5 calm_answers) (Starting (Start_Enter ''u1'')) created_mgr =
      (Done Ok, s', [Monitoring (Mon_Wait ''u1'' 0 v net)]) \<and>
    run_child (\<lambda>h cf args. 0) l (vm_objs s' v) = (Exit_Status 0, h) \<and>
    calls h = expected_calls ctx (sent_config created_mgr ''u1'' (objs created_mgr 0))"
proof -
  obtain l where o: "Open None (\<lambda>_. True) ''libkrun.dylib'' = (Inr l, 0)"
    by (simp add: Open_def register_inv)
  have w: "list_all all_well (replicate 5 calm_answers)"
    by (simp add: all_well_def calm_answers_def eval_nat_numeral)
  have acc: "\<And>h cf args. accepted cf ((\<lambda>h cf args. 0) h cf args)" by (simp add: accepted_def)
  have d: "length (replicate 5 calm_answers) = 5" "socketDir created_mgr \<noteq> []" "dotless ''u1''"
    by (simp_all add: created_mgr_socketDir dotless_def)
  from started_machine_enters_libkrun[OF created_mgr_machine(1) disjI1[OF created_mgr_machine(2)] w d o acc]
  show ?thesis by blast
qed

section \<open>From the image to the guest\<close>

text \<open>
  The client's request as the server decodes it, by the JSON names of the fields; the client has no
  root file system and no volumes to send. \<open>env\<close> is the environment in the order in which the
  server's map is visited.
\<close>

definition wire :: "go_map \<Rightarrow> client_request \<Rightarrow> create_request" where
  "wire env c =
     \<lparr>rq_Name = cl_Name c, rq_BaseImage = cl_BaseImage c,
      rq_Config =
        \<lparr>VCPUs = mc_VCPUs (cl_Config c), MemoryMiB = mc_MemoryMiB (cl_Config c), RootfsPath = [],
         ExecPath = mc_ExecPath (cl_Config c), Args = mc_Args (cl_Config c), Env = env,
         Workdir = mc_Workdir (cl_Config c), Volumes = []\<rparr>,
      rq_Network = \<lparr>ProxyAddr = cl_ProxyAddr c\<rparr>\<rparr>"

lemma run_request_init:
  assumes "fl_init fl \<noteq> []"
  shows "mc_ExecPath (cl_Config (run_request fl ic)) = ''/usr/local/bin/vminit''"
    and "mc_Args (cl_Config (run_request fl ic)) = image_command ic"
    and "map_of (mc_Env (cl_Config (run_request fl ic))) =
      (map_of (EnvMap ic))(''KRUN_INIT_PID1'' \<mapsto> ''1'', ''KRUN_HOSTNAME'' \<mapsto> fl_name fl)"
    and "cl_BaseImage (run_request fl ic) = fl_image fl"
  using assms by (simp_all add: run_request_def Let_def ExecPath_ExecArgs update_conv')

lemma env_entry_sent:
  "map_of (Env c) k = Some v \<Longrightarrow> k @ ''='' @ v \<in> set (EnvSlice c)"
  by (force simp: EnvSlice_def dest: map_of_SomeD)

lemma vminit_boots:
  assumes "cmd \<noteq> []"
  obtains boot_log where "vminit_boot 1 (path # cmd) hostname all_booting = (boot_log, Inr cmd)"
    "last boot_log = Start_Command cmd"
  using assms
  by (cases cmd)
    (simp_all add: vminit_boot_def all_booting_def all_listening_def listenVsock_def)

lemma image_command_nonempty: "image_command ic \<noteq> []"
  by (simp add: image_command_def)

lemma with_defaults_keeps:
  "ExecPath (with_defaults cfg) = ExecPath cfg" "Args (with_defaults cfg) = Args cfg"
  "Env (with_defaults cfg) = Env cfg" "Workdir (with_defaults cfg) = Workdir cfg"
  by (simp_all add: with_defaults_def Let_def)


definition demo_image :: image_config where
  "demo_image =
     \<lparr>Cmd = [''-g'', ''daemon off;''], Entrypoint = [''nginx''], img_Env = [''PATH=/bin''], WorkingDir = ''/''\<rparr>"

definition demo_flags :: run_flags where
  "demo_flags =
     \<lparr>fl_image = ''alpine:3.18'', fl_name = ''web'', fl_api = ''http://localhost:8080'', fl_cpus = 2,
      fl_memory = 512, fl_proxy = [], fl_noStart = False, fl_init = ''vminit''\<rparr>"


end
