(* ===== verification/Api_Table.thy ===== *)
theory Api_Table imports Api_Handler Registry begin

text \<open>
  What the HTTP interface promises to a client that makes one request at a time: a table of
  machines, with one transition for each kind of request and one for a machine that ends by
  itself. The server, with its monitors and the world around it, refines the table.
\<close>

section \<open>The table\<close>

text \<open>
  An entry is a machine without what the interface leaves open: the time of the last change and the
  path of the socket for sessions.
\<close>

type_synonym table = "string \<rightharpoonup> machine"

definition entry :: "machine \<Rightarrow> machine" where
  "entry m = m\<lparr>ExecSocketPath := [], UpdatedAt := 0\<rparr>"

definition in_state :: "mstate \<Rightarrow> machine \<Rightarrow> machine" where
  "in_state st m = entry (m\<lparr>State := st\<rparr>)"

definition table :: "mgr \<Rightarrow> table" where
  "table s i = map_option (\<lambda>r. entry (objs s r)) (machines s i)"

definition at_rest :: "mstate \<Rightarrow> bool" where
  "at_rest st \<longleftrightarrow> st = StateCreated \<or> st = StateStopped"

text \<open>A machine made for a request: its data are the request's, with the default sizes.\<close>

definition made_from :: "string + create_request \<Rightarrow> machine \<Rightarrow> bool" where
  "made_from b m \<longleftrightarrow>
     (case b of
        Inl e \<Rightarrow> False
      | Inr req \<Rightarrow>
          Name m = rq_Name req \<and> Network m = rq_Network req \<and>
          (Config m)\<lparr>RootfsPath := []\<rparr> = with_defaults (rq_Config req))"

text \<open>
  \<open>answered q rt T st b T'\<close>: a request with body \<open>q\<close> on this route is answered with this status and
  this body.
\<close>

fun answered ::
  "string + create_request \<Rightarrow> route option \<Rightarrow> table \<Rightarrow> nat \<Rightarrow> body \<Rightarrow> table \<Rightarrow> bool" where
  "answered q None T st b T' \<longleftrightarrow> T' = T \<and> (st = 404 \<or> st = 405)"
| "answered q (Some R_Create) T st b T' \<longleftrightarrow>
     (case b of
        Json_Machine m \<Rightarrow>
          st = 201 \<and> State m = StateCreated \<and> made_from q m \<and> T (ID m) = None \<and> T' = T(ID m \<mapsto> entry m)
      | _ \<Rightarrow> (st = 400 \<or> st = 500) \<and> T' = T)"
| "answered q (Some R_List) T st b T' \<longleftrightarrow>
     st = 200 \<and> T' = T \<and>
     (case b of
        Json_Machines ms \<Rightarrow> distinct (map ID ms) \<and> map_of (map (\<lambda>m. (ID m, entry m)) ms) = T
      | _ \<Rightarrow> False)"
| "answered q (Some (R_Get i)) T st b T' \<longleftrightarrow>
     T' = T \<and>
     (case T i of
        None \<Rightarrow> st = 404
      | Some e \<Rightarrow> st = 200 \<and> (case b of Json_Machine m \<Rightarrow> entry m = e | _ \<Rightarrow> False))"
| "answered q (Some (R_Delete i)) T st b T' \<longleftrightarrow>
     (case T i of
        None \<Rightarrow> st = 400 \<and> T' = T
      | Some e \<Rightarrow>
          (if at_rest (State e) then st = 204 \<and> b = No_Body \<and> T' = T(i := None)
           else st = 400 \<and> T' = T))"
| "answered q (Some (R_Start i)) T st b T' \<longleftrightarrow>
     (case T i of
        None \<Rightarrow> st = 400 \<and> T' = T
      | Some e \<Rightarrow>
          (if at_rest (State e) then
             (case b of
                Json_Machine m \<Rightarrow> st = 200 \<and> entry m = in_state StateRunning e \<and> T' = T(i \<mapsto> entry m)
              | _ \<Rightarrow> st = 400 \<and> T' = T(i \<mapsto> in_state StateStopped e))
           else st = 400 \<and> T' = T))"
| "answered q (Some (R_Stop i)) T st b T' \<longleftrightarrow>
     (case T i of
        None \<Rightarrow> st = 400 \<and> T' = T
      | Some e \<Rightarrow>
          (if State e = StateRunning then
             st = 200 \<and>
             (case b of
                Json_Machine m \<Rightarrow> entry m = in_state StateStopped e \<and> T' = T(i \<mapsto> entry m)
              | _ \<Rightarrow> False)
           else st = 400 \<and> T' = T))"
| "answered q (Some (R_Logs i)) T st b T' \<longleftrightarrow>
     T' = T \<and> (if T i = None then st = 404 else st = 200 \<or> st = 404)"

text \<open>What can be observed: a request with its response, the end of a machine's VM, or nothing.\<close>

datatype occurrence = Request http_request response | Ended string | Quiet

fun table_step :: "table \<Rightarrow> occurrence \<Rightarrow> table \<Rightarrow> bool" where
  "table_step T (Request r w) T' \<longleftrightarrow> answered (rq_body r) (route_of r) T (status w) (resp_body w) T'"
| "table_step T (Ended i) T' \<longleftrightarrow>
     T' = T \<or> (\<exists>e. T i = Some e \<and> State e = StateRunning \<and> T' = T(i \<mapsto> in_state StateStopped e))"
| "table_step T Quiet T' \<longleftrightarrow> T' = T"

inductive table_run :: "table \<Rightarrow> occurrence list \<Rightarrow> table \<Rightarrow> bool" where
  tr_start: "table_run T [] T"
| tr_step: "table_run T h T1 \<Longrightarrow> table_step T1 x T2 \<Longrightarrow> table_run T (h @ [x]) T2"

section \<open>The server\<close>

text \<open>
  The manager with the monitors that are waiting. A request runs by itself; \<open>uuid.New\<close> gives a new id, the
  map of machines is visited once at each key, and nothing happens between an operation and the
  lookup after it. A monitor that gets its VM's exit runs to its end.
\<close>

type_synonym server_state = "mgr \<times> thread list"

definition undisturbed :: "api_env \<Rightarrow> route option \<Rightarrow> mgr \<Rightarrow> bool" where
  "undisturbed env rt s \<longleftrightarrow>
     e_meanwhile env = (\<lambda>s. s) \<and>
     (rt = Some R_List \<longrightarrow> distinct (e_order env) \<and> set (e_order env) = dom (machines s)) \<and>
     (rt = Some R_Create \<longrightarrow>
        (case e_answers env of [] \<Rightarrow> True | a # as \<Rightarrow> machines s (a_uuid a) = None))"

inductive server_step :: "image_cache \<Rightarrow> server_state \<Rightarrow> occurrence \<Rightarrow> server_state \<Rightarrow> bool" for cache where
  ss_request: "serve cache env r s = Some (w, s', ts) \<Longrightarrow> undisturbed env (route_of r) s \<Longrightarrow>
     server_step cache (s, ms) (Request r w) (s', ms @ ts)"
| ss_ended: "run_thread as (Monitoring m) s = (Done res, s', ts) \<Longrightarrow>
     server_step cache (s, xs @ Monitoring m # ys) (Ended (mon_subject m)) (s', xs @ ys)"
| ss_world: "world_step s s' \<Longrightarrow> server_step cache (s, ms) Quiet (s', ms)"

inductive server_run :: "image_cache \<Rightarrow> server_state \<Rightarrow> occurrence list \<Rightarrow> server_state \<Rightarrow> bool" for cache where
  sr_start: "server_run cache x [] x"
| sr_step: "server_run cache x h y \<Longrightarrow> server_step cache y e z \<Longrightarrow> server_run cache x (h @ [e]) z"

section \<open>Machines between requests\<close>

text \<open>
  No machine is on its way between requests, every id leads to its own object, and a waiting
  monitor has an object that belongs to its id.
\<close>

definition steady :: "mstate \<Rightarrow> bool" where
  "steady st \<longleftrightarrow> at_rest st \<or> st = StateRunning"

fun watches :: "mgr \<Rightarrow> thread \<Rightarrow> bool" where
  "watches s (Monitoring (Mon_Wait i r v n)) \<longleftrightarrow>
     r < fresh s \<and> ID (objs s r) = i \<and> (get_state r s = StateRunning \<or> get_state r s = StateStopped)"
| "watches s _ \<longleftrightarrow> False"

fun server_inv :: "server_state \<Rightarrow> bool" where
  "server_inv (s, ms) \<longleftrightarrow>
     objs_ok s \<and> (\<forall>i r. machines s i = Some r \<longrightarrow> steady (get_state r s)) \<and> list_all (watches s) ms"

text \<open>The object \<open>r\<close> has moved to a state, nothing else in the table has.\<close>

definition moved :: "mgr \<Rightarrow> nat \<Rightarrow> mstate \<Rightarrow> mgr \<Rightarrow> bool" where
  "moved s0 r st s \<longleftrightarrow>
     machines s = machines s0 \<and> fresh s0 \<le> fresh s \<and> (\<forall>q. q \<noteq> r \<longrightarrow> objs s q = objs s0 q) \<and>
     entry (objs s r) = in_state st (objs s0 r)"

definition unmoved :: "mgr \<Rightarrow> mgr \<Rightarrow> bool" where
  "unmoved s0 s \<longleftrightarrow> machines s = machines s0 \<and> fresh s = fresh s0 \<and> objs s = objs s0"

lemma entry_simps [simp]:
  "ID (entry m) = ID m" "State (entry m) = State m" "entry (entry m) = entry m"
  "entry (m\<lparr>ExecSocketPath := p\<rparr>) = entry m" "entry (m\<lparr>UpdatedAt := t\<rparr>) = entry m"
  "in_state st (entry m) = in_state st m" "entry (in_state st m) = in_state st m"
  "entry (SetState now st m) = in_state st m" "State (in_state st m) = st" "ID (in_state st m) = ID m"
  "in_state st (in_state st' m) = in_state st m" "in_state st (m\<lparr>ExecSocketPath := p\<rparr>) = in_state st m"
  by (simp_all add: entry_def in_state_def SetState_def)

lemma in_state_same: "State m = st \<Longrightarrow> in_state st m = entry m"
  by (auto simp: in_state_def entry_def)

lemma entry_parts: "entry m = e \<Longrightarrow> State m = State e \<and> ID m = ID e"
  by auto

lemma moved_table:
  assumes "moved s0 r st s" "machines s0 i = Some r" "objs_ok s0"
  shows "table s = (table s0)(i \<mapsto> in_state st (objs s0 r))"
proof
  fix j
  show "table s j = ((table s0)(i \<mapsto> in_state st (objs s0 r))) j"
  proof (cases "j = i \<or> machines s0 j = None")
    case False
    then have "machines s0 j \<noteq> Some r" using assms(2,3) objs_ok_other by metis
    then show ?thesis using assms(1) False by (auto simp: moved_def table_def)
  qed (use assms in \<open>auto simp: moved_def table_def\<close>)
qed

section \<open>The operations, executed alone\<close>

text \<open>\<open>Start\<close> behind its guard, the point where it is and what it has done so far.\<close>

fun starting :: "mgr \<Rightarrow> string \<Rightarrow> nat \<Rightarrow> thread \<Rightarrow> mgr \<Rightarrow> thread list \<Rightarrow> bool" where
  "starting s0 i r (Starting (Start_Enter j)) s ts \<longleftrightarrow> j = i \<and> s = s0 \<and> ts = []"
| "starting s0 i r (Starting (Start_Net j q)) s ts \<longleftrightarrow> j = i \<and> q = r \<and> moved s0 r StateStarting s \<and> ts = []"
| "starting s0 i r (Starting (Start_Spawn j q n)) s ts \<longleftrightarrow> j = i \<and> q = r \<and> moved s0 r StateStarting s \<and> ts = []"
| "starting s0 i r (Starting (Start_Close j q n e)) s ts \<longleftrightarrow> j = i \<and> q = r \<and> moved s0 r StateStarting s \<and> ts = []"
| "starting s0 i r (Starting (Start_Fail j q e)) s ts \<longleftrightarrow> j = i \<and> q = r \<and> moved s0 r StateStarting s \<and> ts = []"
| "starting s0 i r (Starting (Start_Register j q v n)) s ts \<longleftrightarrow> j = i \<and> q = r \<and> moved s0 r StateStarting s \<and> ts = []"
| "starting s0 i r (Starting (Start_Run j q v n)) s ts \<longleftrightarrow> j = i \<and> q = r \<and> moved s0 r StateStarting s \<and> ts = []"
| "starting s0 i r (Done Ok) s ts \<longleftrightarrow> moved s0 r StateRunning s \<and> (\<exists>v n. ts = [Monitoring (Mon_Wait i r v n)])"
| "starting s0 i r (Done (Err e)) s ts \<longleftrightarrow> moved s0 r StateStopped s \<and> ts = []"
| "starting s0 i r _ s ts \<longleftrightarrow> False"

lemma in_state_moved: "entry m = in_state st m0 \<Longrightarrow> in_state st' m = in_state st' m0"
  by (metis entry_simps(6) entry_simps(11))

lemma moved_more:
  assumes "moved s0 r st s"
  shows "moved s0 r st' (set_state r st' s)"
    and "moved s0 r st (close_net b n s)" and "moved s0 r st (close_opt b no s)"
    and "moved s0 r st (unregister i s)"
    and "moved s0 r st (s\<lparr>vm_objs := f, fresh := Suc (fresh s)\<rparr>)"
    and "moved s0 r st (s\<lparr>net_objs := g, fresh := Suc (fresh s)\<rparr>)"
    and "moved s0 r st (s\<lparr>vm_objs := f\<rparr>)"
    and "moved s0 r st (s\<lparr>vms := h, networks := k\<rparr>)"
    and "moved s0 r st' (set_state r st' (s\<lparr>objs := (objs s)(r := (objs s r)\<lparr>ExecSocketPath := p\<rparr>)\<rparr>))"
  using assms by (auto simp: moved_def dest: in_state_moved)

lemma moved_first: "get_state r s = st \<Longrightarrow> moved s r st s"
  by (simp add: moved_def get_state_def GetState_def in_state_same)

lemma starting_step:
  assumes "starting s0 i r t s ts" and "thread_step a t s = Some (t', s', new)"
    and "machines s0 i = Some r" and "at_rest (get_state r s0)"
  shows "starting s0 i r t' s' (ts @ new)"
proof (cases t)
  case (Starting p)
  have "moved s0 r StateStarting (set_state r StateStarting s0)"
    using moved_more(1) [OF moved_first] by blast
  then show ?thesis using assms Starting moved_more [of s0 r StateStarting s]
    by (cases p) (auto simp: at_rest_def split: thread_splits)
qed (use assms in auto)

text \<open>\<open>Stop\<close> on a running machine, and the monitor.\<close>

fun stopping :: "mgr \<Rightarrow> string \<Rightarrow> nat \<Rightarrow> thread \<Rightarrow> mgr \<Rightarrow> bool" where
  "stopping s0 i r (Stopping (Stop_Enter j)) s \<longleftrightarrow> j = i \<and> s = s0"
| "stopping s0 i r (Stopping (Stop_Check j q vo no)) s \<longleftrightarrow> q = r \<and> s = s0"
| "stopping s0 i r (Stopping (Stop_Mark j q vo no)) s \<longleftrightarrow> q = r \<and> s = s0"
| "stopping s0 i r (Stopping (Stop_Net j q vo no)) s \<longleftrightarrow> q = r \<and> moved s0 r StateStopping s"
| "stopping s0 i r (Stopping (Stop_Vm j q v no k)) s \<longleftrightarrow> q = r \<and> moved s0 r StateStopping s"
| "stopping s0 i r (Stopping (Stop_Poll j q no)) s \<longleftrightarrow> q = r \<and> moved s0 r StateStopping s"
| "stopping s0 i r (Stopping (Stop_Select j q no)) s \<longleftrightarrow> q = r \<and> moved s0 r StateStopping s"
| "stopping s0 i r (Stopping (Stop_Force j q no)) s \<longleftrightarrow> q = r \<and> moved s0 r StateStopping s"
| "stopping s0 i r (Stopping (Stop_Force_State j q)) s \<longleftrightarrow> q = r \<and> moved s0 r StateStopping s"
| "stopping s0 i r (Stopping (Stop_Force_Delete j)) s \<longleftrightarrow> moved s0 r StateStopped s"
| "stopping s0 i r (Stopping (Stop_No_VM j q no)) s \<longleftrightarrow> q = r \<and> moved s0 r StateStopping s"
| "stopping s0 i r (Stopping (Stop_No_VM_State j q)) s \<longleftrightarrow> q = r \<and> moved s0 r StateStopping s"
| "stopping s0 i r (Done Ok) s \<longleftrightarrow> moved s0 r StateStopped s"
| "stopping s0 i r _ s \<longleftrightarrow> False"

lemma moved_state: "moved s0 r st s \<Longrightarrow> get_state r s = st"
  by (auto simp: moved_def get_state_def GetState_def dest: entry_parts)

lemma stopping_step:
  assumes "stopping s0 i r t s" and "thread_step a t s = Some (t', s', new)"
    and "machines s0 i = Some r" and "get_state r s0 = StateRunning"
  shows "stopping s0 i r t' s' \<and> new = []"
proof (cases t)
  case (Stopping p)
  have "moved s0 r StateStopping (set_state r StateStopping s0)"
    using moved_more(1) [OF moved_first] by blast
  then show ?thesis
    using assms Stopping moved_more [of s0 r StateStopping s] moved_more [of s0 r StateStopped s]
      moved_state [of s0 r StateStopping s]
    by (cases p) (auto split: thread_splits)
qed (use assms in auto)

fun watching :: "mgr \<Rightarrow> string \<Rightarrow> nat \<Rightarrow> thread \<Rightarrow> mgr \<Rightarrow> bool" where
  "watching s0 i r (Monitoring (Mon_Wait j q v n)) s \<longleftrightarrow> q = r \<and> j = i \<and> s = s0"
| "watching s0 i r (Monitoring (Mon_Close j q n)) s \<longleftrightarrow> q = r \<and> moved s0 r (get_state r s0) s"
| "watching s0 i r (Monitoring (Mon_State j q)) s \<longleftrightarrow> q = r \<and> moved s0 r (get_state r s0) s"
| "watching s0 i r (Monitoring (Mon_Delete j)) s \<longleftrightarrow> moved s0 r StateStopped s"
| "watching s0 i r (Done Ok) s \<longleftrightarrow> moved s0 r StateStopped s"
| "watching s0 i r _ s \<longleftrightarrow> False"

lemma watching_step:
  assumes "watching s0 i r t s" and "thread_step a t s = Some (t', s', new)"
  shows "watching s0 i r t' s' \<and> new = []"
proof (cases t)
  case (Monitoring p)
  have "moved s0 r (get_state r s0) (s0\<lparr>vm_objs := f\<rparr>)" for f
    using moved_more(7) [OF moved_first] by blast
  then show ?thesis
    using assms Monitoring moved_more [of s0 r "get_state r s0" s] moved_more [of s0 r StateStopped s]
    by (cases p) (auto split: thread_splits)
qed (use assms in auto)

lemma call_run: "call as t s = Some (res, s', ts) \<longleftrightarrow> run_thread as t s = (Done res, s', ts)"
  by (auto simp: call_def split: prod.splits thread.splits)

lemma call_start:
  assumes "call as (Starting (Start_Enter i)) s = Some (res, s', ts)"
  shows "case machines s i of
      None \<Rightarrow> (\<exists>e. res = Err e) \<and> s' = s \<and> ts = []
    | Some r \<Rightarrow>
        (if at_rest (get_state r s) then starting s i r (Done res) s' ts
         else (\<exists>e. res = Err e) \<and> s' = s \<and> ts = [])"
proof -
  have run: "run_thread as (Starting (Start_Enter i)) s = (Done res, s', ts)"
    using assms by (simp add: call_run)
  then obtain a rest where as: "as = a # rest" by (cases as) auto
  show ?thesis
  proof (cases "\<exists>r. machines s i = Some r \<and> at_rest (get_state r s)")
    case True
    then obtain r where r: "machines s i = Some r" "at_rest (get_state r s)" by blast
    have "starting s i r (Done res) s' ([] @ ts)"
      by (rule run_thread_inv [OF run]) (simp, rule starting_step [OF _ _ r])
    then show ?thesis using r by simp
  qed (use run in \<open>auto simp: as at_rest_def split: option.splits\<close>)
qed

lemma call_stop:
  assumes "call as (Stopping (Stop_Enter i)) s = Some (res, s', ts)"
  shows "case machines s i of
      None \<Rightarrow> (\<exists>e. res = Err e) \<and> s' = s \<and> ts = []
    | Some r \<Rightarrow>
        (if get_state r s = StateRunning then stopping s i r (Done res) s' \<and> ts = []
         else (\<exists>e. res = Err e) \<and> s' = s \<and> ts = [])"
proof -
  have run: "run_thread as (Stopping (Stop_Enter i)) s = (Done res, s', ts)"
    using assms by (simp add: call_run)
  show ?thesis
  proof (cases "\<exists>r. machines s i = Some r \<and> get_state r s = StateRunning")
    case True
    then obtain r where r: "machines s i = Some r" "get_state r s = StateRunning" by blast
    have "stopping s i r (Done res) s' \<and> [] @ ts = []"
      by (rule run_thread_inv [OF run, where P = "\<lambda>t u us. stopping s i r t u \<and> us = []"])
        (simp, use stopping_step [OF _ _ r] in blast)
    then show ?thesis using r by simp
  next
    case False
    let ?P = "\<lambda>t u us. u = s \<and> us = [] \<and> (t = Stopping (Stop_Enter i) \<or>
        (\<exists>r vo no. t = Stopping (Stop_Check i r vo no) \<and> machines s i = Some r) \<or> (\<exists>e. t = Done (Err e)))"
    have "?P (Done res) s' ([] @ ts)"
      by (rule run_thread_inv [OF run, where P = ?P]) (use False in \<open>auto split: option.splits\<close>)
    then show ?thesis using False by (auto split: option.splits)
  qed
qed

lemma call_delete:
  assumes "call as (Deleting (Delete_Enter i del)) s = Some (res, s', ts)"
  shows "ts = [] \<and>
    (case machines s i of
       None \<Rightarrow> (\<exists>e. res = Err e) \<and> s' = s
     | Some r \<Rightarrow>
         (if at_rest (get_state r s) then
            res = Ok \<and> machines s' = (machines s)(i := None) \<and> objs s' = objs s \<and> fresh s' = fresh s
          else (\<exists>e. res = Err e) \<and> s' = s))"
proof -
  have run: "run_thread as (Deleting (Delete_Enter i del)) s = (Done res, s', ts)"
    using assms by (simp add: call_run)
  then obtain a rest where as: "as = a # rest" by (cases as) auto
  show ?thesis
  proof (cases "\<exists>r. machines s i = Some r \<and> at_rest (get_state r s)")
    case True
    then show ?thesis using run
      by (cases rest) (auto simp: as at_rest_def)
  qed (use run in \<open>auto simp: as at_rest_def split: option.splits\<close>)
qed

lemma call_created:
  assumes "call as (create_call name base cfg net) s = Some (res, s', ts)"
  shows "ts = [] \<and>
    ((\<exists>e. res = Err e) \<and> s' = s \<or>
     res = Ok_Machine (fresh s) \<and> machines s' = (machines s)(a_uuid (hd as) \<mapsto> fresh s) \<and>
     (\<forall>q. q \<noteq> fresh s \<longrightarrow> objs s' q = objs s q) \<and> fresh s' = Suc (fresh s) \<and>
     State (objs s' (fresh s)) = StateCreated \<and> ID (objs s' (fresh s)) = a_uuid (hd as) \<and> as \<noteq> [] \<and>
     Name (objs s' (fresh s)) = name \<and> Network (objs s' (fresh s)) = net \<and>
     (Config (objs s' (fresh s)))\<lparr>RootfsPath := []\<rparr> = cfg\<lparr>RootfsPath := []\<rparr>)"
proof -
  have run: "run_thread as (create_call name base cfg net) s = (Done res, s', ts)"
    using assms by (simp add: call_run)
  then obtain a rest where as: "as = a # rest" by (cases as) (auto simp: create_call_def)
  show ?thesis
    by (cases rest; cases base; cases "a_clone a") (insert run, clarsimp simp: as create_call_def Let_def)+
qed

section \<open>One step of the server\<close>

lemma watches_cong:
  assumes "watches s t" "fresh s \<le> fresh s'" "\<And>q. q < fresh s \<Longrightarrow> objs s' q = objs s q"
  shows "watches s' t"
  using assms by (cases "(s, t)" rule: watches.cases) (auto simp: get_state_def)

lemma moved_watches:
  assumes "watches s t" "moved s r st s'" "st = StateRunning \<or> st = StateStopped"
  shows "watches s' t"
proof -
  have "ID (objs s' q) = ID (objs s q)" "get_state q s' = (if q = r then st else get_state q s)" for q
    using assms(2) moved_state [OF assms(2)] entry_parts [of "objs s' r" "in_state st (objs s r)"]
    by (auto simp: moved_def get_state_def)
  then show ?thesis using assms by (cases "(s, t)" rule: watches.cases) (auto simp: moved_def)
qed

lemma moved_inv:
  assumes "server_inv (s, ms)" "moved s r st s'" "st = StateRunning \<or> st = StateStopped"
  shows "server_inv (s', ms)"
proof -
  have ID: "ID (objs s' q) = ID (objs s q)" "get_state q s' = (if q = r then st else get_state q s)" for q
    using assms(2) moved_state [OF assms(2)] entry_parts [of "objs s' r" "in_state st (objs s r)"]
    by (auto simp: moved_def get_state_def)
  have "objs_ok s'" using assms(1,2) ID by (fastforce simp: objs_ok_def moved_def)
  moreover have "steady (get_state q s')" if "machines s' i = Some q" for i q
    using assms that ID by (auto simp: moved_def steady_def at_rest_def)
  moreover have "list_all (watches s') ms"
    using assms moved_watches [OF _ assms(2,3)] by (auto simp: list_all_iff)
  ultimately show ?thesis by simp
qed

text \<open>What \<open>machine_again\<close> finds when nothing happens in between.\<close>

lemma machine_again_quiet:
  assumes "machine_again env i s ts = Some (w, s', ts')" "e_meanwhile env = (\<lambda>s. s)"
    and "machines s i = Some r"
  shows "w = writeJSON 200 (Json_Machine (objs s r)) \<and> s' = s \<and> ts' = ts"
  using assms by (auto simp: machine_again_def Get_def Let_def)

text \<open>A handler's answer and what it makes of the server.\<close>

definition refined ::
  "string + create_request \<Rightarrow> route \<Rightarrow> server_state \<Rightarrow> response \<Rightarrow> server_state \<Rightarrow> bool" where
  "refined q rt x w y \<longleftrightarrow>
     answered q (Some rt) (table (fst x)) (status w) (resp_body w) (table (fst y)) \<and> server_inv y"

lemma table_lookup: "table s i = None \<longleftrightarrow> machines s i = None"
    "machines s i = Some r \<Longrightarrow> table s i = Some (entry (objs s r))"
  by (simp_all add: table_def)

lemma refined_start:
  assumes "h_StartMachine env i s = Some (w, s', ts)" "e_meanwhile env = (\<lambda>s. s)" "server_inv (s, ms)"
  shows "refined q (R_Start i) (s, ms) w (s', ms @ ts)"
proof -
  obtain res s1 ts1 where c: "call (e_answers env) (Starting (Start_Enter i)) s = Some (res, s1, ts1)"
    using assms(1) by (auto simp: h_StartMachine_def split: option.splits)
  show ?thesis
  proof (cases "\<exists>r. machines s i = Some r \<and> at_rest (get_state r s)")
    case True
    then obtain r where r: "machines s i = Some r" "at_rest (get_state r s)" by blast
    have st: "starting s i r (Done res) s1 ts1" using call_start [OF c] r by simp
    have ok: "objs_ok s" using assms(3) by simp
    have e: "table s i = Some (entry (objs s r))" "at_rest (State (objs s r))"
      using r by (simp_all add: table_lookup get_state_def GetState_def)
    show ?thesis
    proof (cases res)
      case Ok
      then obtain v n where m: "moved s r StateRunning s1" "ts1 = [Monitoring (Mon_Wait i r v n)]"
        using st by auto
      have reg: "machines s1 i = Some r" using m(1) r(1) by (simp add: moved_def)
      have w: "w = writeJSON 200 (Json_Machine (objs s1 r))" "s' = s1" "ts = ts1"
        using assms(1) machine_again_quiet [OF _ assms(2) reg] Ok c by (auto simp: h_StartMachine_def)
      have "server_inv (s1, ms)" by (rule moved_inv [OF assms(3) m(1)]) simp
      moreover have "watches s1 (Monitoring (Mon_Wait i r v n))"
        using calculation reg moved_state [OF m(1)] by (auto simp: objs_ok_def)
      ultimately show ?thesis
        using w m e moved_table [OF m(1) r(1) ok]
        by (auto simp: refined_def writeJSON_def moved_def)
    next
      case (Err x)
      then have m: "moved s r StateStopped s1" "ts1 = []" using st by auto
      have w: "w = writeError 400 (error_text x)" "s' = s1" "ts = ts1"
        using assms(1) Err c by (auto simp: h_StartMachine_def)
      have "server_inv (s1, ms)" by (rule moved_inv [OF assms(3) m(1)]) simp
      then show ?thesis
        using w m e moved_table [OF m(1) r(1) ok] by (auto simp: refined_def writeError_def writeJSON_def)
    qed (use st in simp)
  next
    case False
    then obtain x where x: "res = Err x" "s1 = s" "ts1 = []"
      using call_start [OF c] by (auto split: option.splits)
    then have "w = writeError 400 (error_text x)" "s' = s" "ts = []"
      using assms(1) c by (auto simp: h_StartMachine_def)
    then show ?thesis using assms(3) False
      by (auto simp: refined_def writeError_def writeJSON_def table_def get_state_def GetState_def
          split: option.splits)
  qed
qed

lemma refined_stop:
  assumes "h_StopMachine env i s = Some (w, s', ts)" "e_meanwhile env = (\<lambda>s. s)" "server_inv (s, ms)"
  shows "refined q (R_Stop i) (s, ms) w (s', ms @ ts)"
proof -
  obtain res s1 ts1 where c: "call (e_answers env) (Stopping (Stop_Enter i)) s = Some (res, s1, ts1)"
    using assms(1) by (auto simp: h_StopMachine_def split: option.splits)
  show ?thesis
  proof (cases "\<exists>r. machines s i = Some r \<and> get_state r s = StateRunning")
    case True
    then obtain r where r: "machines s i = Some r" "get_state r s = StateRunning" by blast
    have ok: "objs_ok s" using assms(3) by simp
    have "stopping s i r (Done res) s1" "ts1 = []" using call_stop [OF c] r by simp_all
    then have m: "moved s r StateStopped s1" "res = Ok" "ts1 = []" by (cases res; simp)+
    have reg: "machines s1 i = Some r" using m(1) r(1) by (simp add: moved_def)
    have w: "w = writeJSON 200 (Json_Machine (objs s1 r))" "s' = s1" "ts = []"
      using assms(1) machine_again_quiet [OF _ assms(2) reg] m c by (auto simp: h_StopMachine_def)
    have "server_inv (s1, ms)" by (rule moved_inv [OF assms(3) m(1)]) simp
    then show ?thesis
      using w m r moved_table [OF m(1) r(1) ok]
      by (auto simp: refined_def writeJSON_def moved_def table_lookup get_state_def GetState_def)
  next
    case False
    then obtain x where x: "res = Err x" "s1 = s" "ts1 = []"
      using call_stop [OF c] by (auto split: option.splits)
    then have "w = writeError 400 (error_text x)" "s' = s" "ts = []"
      using assms(1) c by (auto simp: h_StopMachine_def)
    then show ?thesis using assms(3) False
      by (auto simp: refined_def writeError_def writeJSON_def table_def get_state_def GetState_def
          split: option.splits)
  qed
qed

lemma refined_delete:
  assumes "h_DeleteMachine env r i s = Some (w, s', ts)" "server_inv (s, ms)"
  shows "refined q (R_Delete i) (s, ms) w (s', ms @ ts)"
proof -
  obtain del res ts1 where c: "call (e_answers env) (Deleting (Delete_Enter i del)) s = Some (res, s', ts)"
    and w: "w = (case res of Err e \<Rightarrow> writeError 400 (error_text e)
      | _ \<Rightarrow> \<lparr>status = 204, content_type = None, resp_body = No_Body\<rparr>)"
    using assms(1) by (fastforce simp: h_DeleteMachine_def Let_def split: option.splits result.splits)
  note d = call_delete [OF c]
  show ?thesis
  proof (cases "\<exists>q. machines s i = Some q \<and> at_rest (get_state q s)")
    case True
    then obtain q where q: "machines s i = Some q" "at_rest (get_state q s)" by blast
    then have m: "res = Ok" "machines s' = (machines s)(i := None)" "objs s' = objs s" "fresh s' = fresh s"
      "ts = []" using d by auto
    then have "server_inv (s', ms)"
      using assms(2) watches_cong [of s _ s']
      by (auto simp: objs_ok_def get_state_def list_all_iff)
    moreover have "table s' = (table s)(i := None)"
      by (rule ext) (simp add: table_def m)
    ultimately show ?thesis using m w q
      by (simp add: refined_def table_lookup get_state_def GetState_def)
  next
    case False
    then obtain x where "res = Err x" "s' = s" "ts = []"
      using d by (auto split: option.splits)
    then show ?thesis using w assms(2) False
      by (auto simp: refined_def writeError_def writeJSON_def table_def get_state_def GetState_def
          split: option.splits)
  qed
qed

lemma refined_create:
  assumes "h_CreateMachine cache env r s = Some (w, s', ts)" "server_inv (s, ms)"
    "undisturbed env (Some R_Create) s"
  shows "refined (rq_body r) R_Create (s, ms) w (s', ms @ ts)"
proof -
  have failed: "refined (rq_body r) R_Create (s, ms) (writeError st e) (s, ms)" if "st = 400 \<or> st = 500" for st e
    using that assms(2) by (auto simp: refined_def writeError_def writeJSON_def)
  show ?thesis
  proof (cases "\<exists>e st. w = writeError st e \<and> (st = 400 \<or> st = 500) \<and> s' = s \<and> ts = []")
    case True
    then show ?thesis using failed by auto
  next
    case False
    then obtain req base res where q: "rq_body r = Inr req" "RootfsPath (rq_Config req) = []"
      and c: "call (e_answers env)
        (create_call (rq_Name req) base (with_defaults (rq_Config req)) (rq_Network req)) s = Some (res, s', ts)"
      and w: "w = (case res of Err e \<Rightarrow> writeError 500 (error_text e)
        | Ok_Machine m \<Rightarrow> writeJSON 201 (Json_Machine (objs s' m)) | Ok \<Rightarrow> w)" "res \<noteq> Ok"
      using assms(1)
      by (fastforce simp: h_CreateMachine_def Let_def split: sum.splits if_splits option.splits result.splits)
    note d = call_created [OF c]
    obtain a as where as: "e_answers env = a # as"
      using c by (cases "e_answers env") (auto simp: call_run create_call_def)
    have "res = Ok_Machine (fresh s)" using d w False by (auto split: result.splits)
    then have m: "machines s' = (machines s)(a_uuid a \<mapsto> fresh s)" "ts = []"
        "\<forall>q. q \<noteq> fresh s \<longrightarrow> objs s' q = objs s q" "fresh s' = Suc (fresh s)"
        "State (objs s' (fresh s)) = StateCreated" "ID (objs s' (fresh s)) = a_uuid a"
        "w = writeJSON 201 (Json_Machine (objs s' (fresh s)))"
      using d w by (auto simp: as)
    have "(with_defaults (rq_Config req))\<lparr>RootfsPath := []\<rparr> = with_defaults (rq_Config req)"
      using with_defaults_rootfs [of "rq_Config req"] q(2) by simp
    then have made: "made_from (rq_body r) (objs s' (fresh s))"
      using d w \<open>res = Ok_Machine (fresh s)\<close> by (simp add: made_from_def q)
    have new: "machines s (a_uuid a) = None" using assms(3) by (simp add: undisturbed_def as)
    have old: "q < fresh s \<and> ID (objs s q) = i" if "machines s i = Some q" for i q
      using assms(2) that by (simp add: objs_ok_def)
    have "table s' = (table s)(a_uuid a \<mapsto> entry (objs s' (fresh s)))"
    proof
      fix j
      show "table s' j = ((table s)(a_uuid a \<mapsto> entry (objs s' (fresh s)))) j"
        using m(1,3) old [of j] by (cases "machines s j") (auto simp: table_def)
    qed
    moreover have "server_inv (s', ms)"
    proof -
      have "objs_ok s'" using m old by (fastforce simp: objs_ok_def)
      moreover have "steady (get_state q s')" if "machines s' i = Some q" for i q
        using that m assms(2) old [of i]
        by (fastforce simp: steady_def at_rest_def get_state_def GetState_def split: if_splits)
      moreover have "list_all (watches s') ms"
        using assms(2) m watches_cong [of s _ s'] by (auto simp: list_all_iff)
      ultimately show ?thesis by simp
    qed
    ultimately show ?thesis using m new made
      by (simp add: refined_def writeJSON_def table_lookup)
  qed
qed

lemma listed_table:
  assumes "objs_ok s" "distinct ids" "set ids = dom (machines s)"
  shows "distinct (map ID (map (objs s) (List ids s))) \<and>
    map_of (map (\<lambda>m. (ID m, entry m)) (map (objs s) (List ids s))) = table s"
proof -
  let ?m = "\<lambda>i. objs s (the (machines s i))"
  have id: "ID (?m i) = i" if "i \<in> set ids" for i
    using that assms(1,3) by (auto simp: objs_ok_def dom_def)
  have "List ids s = map (\<lambda>i. the (machines s i)) ids"
    using assms(3) by (auto simp: List_def intro!: arg_cong [where f = "map _"] filter_True)
  then have l: "map (objs s) (List ids s) = map ?m ids" by simp
  have "map ID (map ?m ids) = ids" using id by (simp add: map_idI)
  moreover have "map (\<lambda>m. (ID m, entry m)) (map ?m ids) = map (\<lambda>i. (i, entry (?m i))) ids"
    using id by simp
  moreover have "map_of (map (\<lambda>i. (i, entry (?m i))) ids) = table s"
  proof
    fix i
    show "map_of (map (\<lambda>i. (i, entry (?m i))) ids) i = table s i"
      using assms(3) by (cases "machines s i") (auto simp: map_of_map_restrict table_def restrict_map_def dom_def)
  qed
  ultimately show ?thesis using assms(2) unfolding l by (simp del: map_map)
qed

lemma refined_handle:
  assumes "handle cache env r rt s = Some (w, s', ts)" "server_inv (s, ms)" "undisturbed env (Some rt) s"
  shows "refined (rq_body r) rt (s, ms) w (s', ms @ ts)"
proof (cases rt)
  case R_Create
  then show ?thesis using assms refined_create by simp
next
  case R_List
  then show ?thesis using assms listed_table [of s "e_order env"]
    by (auto simp: refined_def h_ListMachines_def writeJSON_def undisturbed_def)
next
  case (R_Get i)
  then show ?thesis using assms(1,2)
    by (auto simp: refined_def h_GetMachine_def Get_def writeError_def writeJSON_def table_def
        split: option.splits)
next
  case (R_Delete i)
  then show ?thesis using assms refined_delete by simp
next
  case (R_Start i)
  then show ?thesis using assms refined_start by (simp add: undisturbed_def)
next
  case (R_Stop i)
  then show ?thesis using assms refined_stop by (simp add: undisturbed_def)
next
  case (R_Logs i)
  then show ?thesis using assms(1,2)
    by (auto simp: refined_def h_GetLogs_def Get_def writeError_def writeJSON_def table_def
        split: option.splits)
qed

lemma server_step_refines:
  assumes "server_step cache x e y" "server_inv x"
  shows "table_step (table (fst x)) e (table (fst y)) \<and> server_inv y"
  using assms
proof (cases rule: server_step.cases)
  case (ss_request env r s w s' ts ms)
  obtain w' where w: "w = setContentType w'" "serve_mux cache env r s = Some (w', s', ts)"
    using ss_request by (auto simp: serve_def)
  have w': "status w = status w'" "resp_body w = resp_body w'" by (simp_all add: w(1) setContentType_def)
  show ?thesis
  proof (cases "route_of r")
    case None
    then have "(status w = 404 \<or> status w = 405) \<and> s' = s \<and> ts = []"
      using w by (auto simp: serve_mux_def http_Error_def setContentType_def split: if_splits)
    then show ?thesis using None ss_request assms(2) by simp
  next
    case (Some rt)
    then have "handle cache env r rt s = Some (w', s', ts)" using w by (simp add: serve_mux_def)
    from refined_handle [OF this, of ms] show ?thesis
      using ss_request assms(2) Some w' by (simp add: refined_def)
  qed
next
  case (ss_ended as m s res s' ts xs ys)
  then have "watches s (Monitoring m)" using assms(2) by auto
  then obtain i r v n where m: "m = Mon_Wait i r v n" "r < fresh s" "ID (objs s r) = i"
      "get_state r s = StateRunning \<or> get_state r s = StateStopped"
    by (cases m) auto
  have "watching s i r (Done res) s' \<and> [] @ ts = []"
    by (rule run_thread_inv [OF ss_ended(4), where P = "\<lambda>t u us. watching s i r t u \<and> us = []"])
      (simp add: m, use watching_step in blast)
  then have mv: "moved s r StateStopped s'" by (cases res) auto
  have inv: "server_inv (s, xs @ ys)" using ss_ended assms(2) by simp
  have "table s' = table s \<or> (\<exists>e. table s i = Some e \<and> State e = StateRunning \<and>
      table s' = (table s)(i \<mapsto> in_state StateStopped e))"
  proof (cases "machines s i = Some r")
    case True
    then have t: "table s i = Some (entry (objs s r))" "table s' = (table s)(i \<mapsto> in_state StateStopped (objs s r))"
      using moved_table [OF mv] inv by (simp_all add: table_lookup)
    show ?thesis
    proof (cases "get_state r s = StateRunning")
      case False
      then have "in_state StateStopped (objs s r) = entry (objs s r)"
        using m(4) by (simp add: in_state_same get_state_def GetState_def)
      then show ?thesis using t by (auto simp: fun_eq_iff)
    qed (use t in \<open>simp add: get_state_def GetState_def\<close>)
  next
    case False
    have "q \<noteq> r" if "machines s j = Some q" for j q
      using that False m(3) inv by (auto simp: objs_ok_def)
    then have "table s' j = table s j" for j
      using mv by (cases "machines s j") (auto simp: table_def moved_def)
    then have "table s' = table s" ..
    then show ?thesis ..
  qed
  then show ?thesis using ss_ended moved_inv [OF inv mv] m by auto
next
  case (ss_world s s' ms)
  then have "unmoved s s'" by (auto simp: unmoved_def elim: world_step.cases)
  then show ?thesis using ss_world assms(2) watches_cong [of s _ s']
    by (auto simp: unmoved_def table_def objs_ok_def get_state_def list_all_iff fun_eq_iff)
qed

lemma server_run_refines:
  assumes "server_run cache x h y" "server_inv x"
  shows "table_run (table (fst x)) h (table (fst y)) \<and> server_inv y"
  using assms
proof (induction rule: server_run.induct)
  case (sr_step x h y e z)
  then show ?case using server_step_refines [of cache y e z] by (auto intro: tr_step)
qed (auto intro: tr_start)

lemma new_server: "new_manager s \<Longrightarrow> server_inv (s, []) \<and> table s = Map.empty"
  by (auto simp: objs_ok_def table_def dest!: new_manager_fields)


text \<open>A server that creates a machine and starts it.\<close>

definition table_env :: "string list \<Rightarrow> api_env" where
  "table_env ids = demo_env\<lparr>e_order := ids\<rparr>"

definition start_request :: "string \<Rightarrow> http_request" where
  "start_request i =
     \<lparr>rq_method = ''POST'', rq_path = [''v1'', ''machines'', i, ''start''], rq_delete_rootfs = [],
      rq_body = Inl ''EOF''\<rparr>"

lemma start_route: "i \<noteq> [] \<Longrightarrow> route_of (start_request i) = Some (R_Start i)"
  by (simp add: start_request_def route_of_def routes_def method_key_def)

lemma serve_starts:
  assumes "machines s i = Some r" "at_rest (get_state r s)" "i \<noteq> []"
    and "list_all all_well (e_answers env)" "length (e_answers env) = 5" "e_meanwhile env = (\<lambda>s. s)"
  obtains s' v n where
    "serve cache env (start_request i) s =
       Some (setContentType (writeJSON 200 (Json_Machine (objs s' r))), s', [Monitoring (Mon_Wait i r v n)])"
    "moved s r StateRunning s'"
proof -
  obtain s' v n where run: "run_thread (e_answers env) (Starting (Start_Enter i)) s =
      (Done Ok, s', [Monitoring (Mon_Wait i r v n)])"
    using start_run [OF assms(1) _ assms(4,5)] assms(2) by (auto simp: at_rest_def)
  then have c: "call (e_answers env) (Starting (Start_Enter i)) s =
      Some (Ok, s', [Monitoring (Mon_Wait i r v n)])" by (simp add: call_run)
  have m: "moved s r StateRunning s'" using call_start [OF c] assms(1,2) by simp
  then have "serve cache env (start_request i) s =
       Some (setContentType (writeJSON 200 (Json_Machine (objs s' r))), s', [Monitoring (Mon_Wait i r v n)])"
    using c assms(1,6)
    by (simp add: serve_def serve_mux_def start_route [OF assms(3)] h_StartMachine_def machine_again_def
        Get_def moved_def)
  with m that show thesis by blast
qed


end
