(* ===== verification/File_System.thy ===== *)
theory File_System imports Go_Path "HOL-Library.Sublist" begin

text \<open>
  The host's file system as the program uses it through Go's \<open>os\<close> package: directories, files and
  symbolic links at absolute paths, files being inodes so that hard links share one. A path is
  resolved element by element, through at most \<open>max_links\<close> symbolic links, as on the macOS hosts
  the program runs on. Permissions, full disks and the case of names are left out.
\<close>

section \<open>State\<close>

datatype node = Dir | File nat | Symlink string

record inode =
  i_data :: string
  i_mode :: u32

type_synonym tree = "string list \<rightharpoonup> node"

record files =
  nodes :: tree
  inodes :: "nat \<Rightarrow> inode"
  next_inode :: nat
  cwd :: "string list"

datatype errno = ENOENT | ENOTDIR | EEXIST | EISDIR | ELOOP | EPERM

section \<open>Resolving a path\<close>

definition max_links :: nat where "max_links = 32"

text \<open>
  The node a path leads to, from a directory on. The last element need not exist, so that it
  can be created; what remains of the budget of links comes along.
\<close>

function resolve :: "tree \<Rightarrow> nat \<Rightarrow> string list \<Rightarrow> string list \<Rightarrow> errno + (nat \<times> string list)" where
  "resolve ns n cur [] = Inr (n, cur)"
| "resolve ns n cur (e # es) =
     (if e = [] \<or> e = ''.'' then resolve ns n cur es
      else if e = ''..'' then resolve ns n (butlast cur) es
      else
        (case ns (cur @ [e]) of
           None \<Rightarrow> (if es = [] then Inr (n, cur @ [e]) else Inl ENOENT)
         | Some Dir \<Rightarrow> resolve ns n (cur @ [e]) es
         | Some (File i) \<Rightarrow> (if es = [] then Inr (n, cur @ [e]) else Inl ENOTDIR)
         | Some (Symlink t) \<Rightarrow>
             (if n = 0 then Inl ELOOP
              else resolve ns (n - 1) (if is_rooted t then [] else cur) (split_slash t @ es))))"
  by pat_completeness auto
termination
  by (relation "measures [\<lambda>(ns, n, cur, es). n, \<lambda>(ns, n, cur, es). length es]") auto

definition elems :: "string \<Rightarrow> string list" where
  "elems p = filter (\<lambda>e. e \<noteq> []) (split_slash p)"

definition start :: "files \<Rightarrow> string \<Rightarrow> string list" where
  "start f p = (if is_rooted p then [] else cwd f)"

text \<open>The place a path leads to, all links followed; what is there; and the place with the last link not followed.\<close>

definition follow :: "files \<Rightarrow> string list \<Rightarrow> string list \<Rightarrow> errno + string list" where
  "follow f base es = map_sum id snd (resolve (nodes f) max_links base es)"

definition lookup :: "files \<Rightarrow> string list \<Rightarrow> string list \<Rightarrow> errno + node" where
  "lookup f base es =
     (case follow f base es of
        Inl e \<Rightarrow> Inl e
      | Inr q \<Rightarrow> (case nodes f q of None \<Rightarrow> Inl ENOENT | Some nd \<Rightarrow> Inr nd))"

definition place :: "files \<Rightarrow> string list \<Rightarrow> string list \<Rightarrow> errno + string list" where
  "place f base es =
     (if es = [] then Inr base
      else
        (case follow f base (butlast es) of
           Inl e \<Rightarrow> Inl e
         | Inr q \<Rightarrow>
             (case nodes f q of
                Some Dir \<Rightarrow> Inr (q @ [last es])
              | Some _ \<Rightarrow> Inl ENOTDIR
              | None \<Rightarrow> Inl ENOENT)))"

section \<open>Operations\<close>

text \<open>Each returns an error, if any, and the new file system.\<close>

type_synonym fs_result = "errno option \<times> files"

definition set_node :: "string list \<Rightarrow> node \<Rightarrow> files \<Rightarrow> files" where
  "set_node q nd f = f\<lparr>nodes := (nodes f)(q \<mapsto> nd)\<rparr>"

definition create_at :: "files \<Rightarrow> string list \<Rightarrow> string list \<Rightarrow> node \<Rightarrow> fs_result" where
  "create_at f base es nd =
     (case place f base es of
        Inl e \<Rightarrow> (Some e, f)
      | Inr q \<Rightarrow> (if nodes f q = None then (None, set_node q nd f) else (Some EEXIST, f)))"

text \<open>\<open>os.MkdirAll\<close>, on the elements in reverse order: stat, then the parent, then mkdir.\<close>

fun mkdir_all :: "files \<Rightarrow> string list \<Rightarrow> string list \<Rightarrow> fs_result" where
  "mkdir_all f base [] = (None, f)"
| "mkdir_all f base (e # rs) =
     (case lookup f base (rev (e # rs)) of
        Inr Dir \<Rightarrow> (None, f)
      | Inr _ \<Rightarrow> (Some ENOTDIR, f)
      | Inl _ \<Rightarrow>
          (case mkdir_all f base rs of
             (Some err, f') \<Rightarrow> (Some err, f')
           | (None, f') \<Rightarrow> create_at f' base (rev (e # rs)) Dir))"

definition os_MkdirAll :: "files \<Rightarrow> string \<Rightarrow> fs_result" where
  "os_MkdirAll f p = mkdir_all f (start f p) (rev (elems p))"

definition os_Stat :: "files \<Rightarrow> string \<Rightarrow> errno + node" where
  "os_Stat f p = lookup f (start f p) (elems p)"

text \<open>
  \<open>os.OpenFile\<close> for writing, created or cut to nothing, through links, dangling ones too. Of the
  mode, Go passes on the nine permission bits and its own bits for setuid, setgid and sticky.
\<close>

definition sys_mode :: "u32 \<Rightarrow> u32" where
  "sys_mode m =
     or (or (and m 0x1FF) (if bit m 23 then 0x800 else 0))
        (or (if bit m 22 then 0x400 else 0) (if bit m 20 then 0x200 else 0))"

definition open_trunc :: "files \<Rightarrow> string list \<Rightarrow> string list \<Rightarrow> u32 \<Rightarrow> errno + (nat \<times> files)" where
  "open_trunc f base es mode =
     (case follow f base es of
        Inl e \<Rightarrow> Inl e
      | Inr q \<Rightarrow>
          (case nodes f q of
             Some (File i) \<Rightarrow> Inr (i, f\<lparr>inodes := (inodes f)(i := (inodes f i)\<lparr>i_data := []\<rparr>)\<rparr>)
           | Some _ \<Rightarrow> Inl EISDIR
           | None \<Rightarrow>
               (let i = next_inode f in
                Inr (i, set_node q (File i)
                  (f\<lparr>next_inode := Suc i,
                     inodes := (inodes f)(i := \<lparr>i_data = [], i_mode = sys_mode mode\<rparr>)\<rparr>)))))"

definition append_data :: "nat \<Rightarrow> string \<Rightarrow> files \<Rightarrow> files" where
  "append_data i t f = f\<lparr>inodes := (inodes f)(i := (inodes f i)\<lparr>i_data := i_data (inodes f i) @ t\<rparr>)\<rparr>"

definition write_file :: "files \<Rightarrow> string list \<Rightarrow> string list \<Rightarrow> string \<Rightarrow> u32 \<Rightarrow> fs_result" where
  "write_file f base es t mode =
     (case open_trunc f base es mode of
        Inl e \<Rightarrow> (Some e, f)
      | Inr (i, f') \<Rightarrow> (None, append_data i t f'))"

definition os_WriteFile :: "files \<Rightarrow> string \<Rightarrow> string \<Rightarrow> u32 \<Rightarrow> fs_result" where
  "os_WriteFile f p t mode = write_file f (start f p) (elems p) t mode"

definition os_ReadFile :: "files \<Rightarrow> string \<Rightarrow> errno + string" where
  "os_ReadFile f p =
     (case os_Stat f p of
        Inl e \<Rightarrow> Inl e
      | Inr (File i) \<Rightarrow> Inr (i_data (inodes f i))
      | Inr _ \<Rightarrow> Inl EISDIR)"

text \<open>\<open>os.Symlink\<close> and \<open>os.Link\<close>; the latter follows links of its first argument, as macOS does.\<close>

definition os_Symlink :: "files \<Rightarrow> string \<Rightarrow> string \<Rightarrow> fs_result" where
  "os_Symlink f old new = create_at f (start f new) (elems new) (Symlink old)"

definition os_Link :: "files \<Rightarrow> string \<Rightarrow> string \<Rightarrow> fs_result" where
  "os_Link f old new =
     (case os_Stat f old of
        Inl e \<Rightarrow> (Some e, f)
      | Inr (File i) \<Rightarrow> create_at f (start f new) (elems new) (File i)
      | Inr _ \<Rightarrow> (Some EPERM, f))"

text \<open>\<open>os.RemoveAll\<close>: the place and everything below it; a path that leads nowhere is no error.\<close>

definition os_RemoveAll :: "files \<Rightarrow> string \<Rightarrow> files" where
  "os_RemoveAll f p =
     (case place f (start f p) (elems p) of
        Inl e \<Rightarrow> f
      | Inr q \<Rightarrow> f\<lparr>nodes := (\<lambda>x. if prefix q x then None else nodes f x)\<rparr>)"

section \<open>Laws of resolution\<close>

lemma resolve_append:
  assumes "resolve ns n cur xs = Inr (m, d)" and "ns d = Some Dir"
  shows "resolve ns n cur (xs @ ys) = resolve ns m d ys"
  using assms
  by (induction ns n cur xs rule: resolve.induct)
    (auto split: option.splits node.splits if_splits)

lemma map_le_Some: "m \<subseteq>\<^sub>m m' \<Longrightarrow> m x = Some y \<Longrightarrow> m' x = Some y"
  by (metis domI map_le_def)

lemma resolve_mono:
  assumes "resolve ns n cur xs = Inr (m, d)" and "ns d = Some nd" and "ns \<subseteq>\<^sub>m ns'"
  shows "resolve ns' n cur xs = Inr (m, d)"
  using assms
  by (induction ns n cur xs rule: resolve.induct)
    (auto split: option.splits node.splits if_splits dest: map_le_Some)

text \<open>Where no link lies on the way, a path of plain elements leads to itself.\<close>

definition unlinked :: "tree \<Rightarrow> string list \<Rightarrow> string list \<Rightarrow> bool" where
  "unlinked ns d es \<longleftrightarrow> (\<forall>p t. prefix p es \<longrightarrow> ns (d @ p) \<noteq> Some (Symlink t))"

lemma resolve_unlinked:
  assumes "list_all plain_elem es" and "unlinked ns d es" and "resolve ns n d es = Inr (m, q)"
  shows "q = d @ es"
  using assms
proof (induction es arbitrary: d)
  case (Cons e es)
  have "prefix [e] (e # es)" by simp
  then have top: "ns (d @ [e]) \<noteq> Some (Symlink t)" for t
    using Cons.prems(2) unfolding unlinked_def by blast
  have "unlinked ns (d @ [e]) es"
    unfolding unlinked_def
  proof (intro allI impI)
    fix p t assume "prefix p es"
    then have "prefix (e # p) (e # es)" by simp
    then show "ns ((d @ [e]) @ p) \<noteq> Some (Symlink t)"
      using Cons.prems(2) unfolding unlinked_def by fastforce
  qed
  then show ?case
    using Cons.prems Cons.IH[of "d @ [e]"] top
    by (auto simp: plain_elem_def split: option.splits node.splits if_splits)
qed simp

end
