(* ===== verification/Abs_Path.thy ===== *)
theory Abs_Path imports File_System begin

text \<open>
  Absolute clean paths: a slash and plain elements with slashes between them. What \<open>Clean\<close>, \<open>Join\<close>
  and \<open>Dir\<close> make of them, as operations on the lists of elements.
\<close>

definition abs_path :: "string list \<Rightarrow> string" where
  "abs_path es = ''/'' @ join ''/'' es"

abbreviation plain_list :: "string list \<Rightarrow> bool" where
  "plain_list \<equiv> list_all plain_elem"

lemma is_rooted_abs [simp]: "is_rooted (abs_path es)"
  by (simp add: abs_path_def is_rooted_def)

lemma join_Cons: "es \<noteq> [] \<Longrightarrow> join sep (e # es) = e @ sep @ join sep es"
  by (cases es) simp_all

lemma split_slash_join: "es \<noteq> [] \<Longrightarrow> plain_list es \<Longrightarrow> split_slash (join ''/'' es) = es"
proof (induction es)
  case (Cons e es)
  then have e: "split_slash e = [e]" by (simp add: split_slash_no_slash plain_elem_def)
  show ?case
  proof (cases "es = []")
    case False
    then show ?thesis
      using Cons e split_slash_append[of e "join ''/'' es"] by (simp add: join_Cons)
  qed (simp add: e)
qed simp

lemma split_slash_abs: "plain_list es \<Longrightarrow> split_slash (abs_path es) = (if es = [] then [[], []] else [] # es)"
  by (simp add: abs_path_def split_slash_join)

lemma elems_abs [simp]:
  assumes "plain_list es"
  shows "elems (abs_path es) = es"
proof -
  have "filter (\<lambda>e. e \<noteq> []) es = es"
    using assms by (auto simp: list_all_iff plain_elem_def intro: filter_True)
  then show ?thesis using assms by (simp add: elems_def split_slash_abs)
qed

lemma start_abs [simp]: "start f (abs_path es) = []"
  by (simp add: start_def)

lemma clean_elems_append_plain:
  "plain_list es \<Longrightarrow> clean_elems r st (xs @ es) = clean_elems r st xs @ es"
proof (induction es rule: rev_induct)
  case (snoc e es)
  then show ?case using clean_elems_snoc_plain[of e r st "xs @ es"] by simp
qed simp

lemma clean_elems_plain: "plain_list es \<Longrightarrow> clean_elems r [] es = es"
  using clean_elems_append_plain[of es r "[]" "[]"] by simp

lemma clean_elems_skip: "clean_elems r st (xs @ [] # ys) = clean_elems r st (xs @ ys)"
  by (induction r st xs rule: clean_elems.induct) (auto split: list.splits)

lemma path_clean_abs: "plain_list es \<Longrightarrow> path_clean (abs_path es) = abs_path es"
  by (simp add: path_clean_def split_slash_abs render_path_def clean_elems_plain)
    (simp add: abs_path_def)

lemma split_slash_slashless: "e \<in> set (split_slash s) \<Longrightarrow> CHR ''/'' \<notin> set e"
  by (induction s arbitrary: e) (auto split: list.splits if_splits)

lemma clean_elems_rooted_plain:
  assumes "plain_list st" and "\<forall>e\<in>set xs. CHR ''/'' \<notin> set e"
  shows "plain_list (clean_elems True st xs)"
  using assms
proof (induction True st xs rule: clean_elems.induct)
  case (2 stack e es)
  then show ?case
    by (auto simp: plain_elem_def split: list.splits)
qed (simp add: list_all_iff)

text \<open>An absolute path, cleaned, keeps inside the root: the elements that are left.\<close>

definition root_elems :: "string \<Rightarrow> string list" where
  "root_elems name = clean_elems True [] (split_slash name)"

lemma root_elems_plain [simp]: "plain_list (root_elems name)"
  unfolding root_elems_def by (rule clean_elems_rooted_plain) (auto dest: split_slash_slashless)

lemma path_clean_root: "path_clean (''/'' @ name) = abs_path (root_elems name)"
  by (simp add: path_clean_def is_rooted_def render_path_def root_elems_def abs_path_def)

lemma root_elems_join: "plain_list es \<Longrightarrow> es \<noteq> [] \<Longrightarrow> root_elems (join ''/'' es) = es"
  by (simp add: root_elems_def split_slash_join clean_elems_plain)

lemma path_join_abs:
  assumes "ds \<noteq> []" "plain_list ds" "plain_list es"
  shows "path_join (abs_path ds # es) = abs_path (ds @ es)"
proof -
  have ne: "abs_path ds \<noteq> []" by (simp add: abs_path_def)
  show ?thesis
  proof (cases "es = []")
    case True
    then show ?thesis using ne assms by (simp add: path_join_def path_clean_abs)
  next
    case False
    have "split_slash (abs_path ds @ ''/'' @ join ''/'' es) = ([] # ds) @ es"
      using assms False split_slash_append[of "abs_path ds" "join ''/'' es"]
      by (simp add: split_slash_abs split_slash_join)
    moreover have "is_rooted (abs_path ds @ ''/'' @ join ''/'' es)"
      by (simp add: is_rooted_def abs_path_def)
    moreover have "clean_elems True [] (([] # ds) @ es) = ds @ es"
      using assms by (simp add: clean_elems_append_plain clean_elems_plain)
    ultimately show ?thesis using ne False
      by (simp add: path_join_def join_Cons path_clean_def render_path_def abs_path_def)
  qed
qed

lemma path_join_abs_abs:
  assumes "ds \<noteq> []" "plain_list ds" "plain_list es"
  shows "path_join [abs_path ds, abs_path es] = abs_path (ds @ es)"
proof -
  have ne: "abs_path ds \<noteq> []" by (simp add: abs_path_def)
  have "split_slash (abs_path ds @ ''/'' @ abs_path es) = ([] # ds) @ [] # (if es = [] then [[]] else es)"
    using assms split_slash_append[of "abs_path ds" "abs_path es"] by (simp add: split_slash_abs)
  moreover have "is_rooted (abs_path ds @ ''/'' @ abs_path es)"
    by (simp add: is_rooted_def abs_path_def)
  moreover have "clean_elems True [] (([] # ds) @ [] # (if es = [] then [[]] else es)) = ds @ es"
    using assms clean_elems_skip[of True "[]" ds "[[]]"] clean_elems_skip[of True "[]" ds "[]"]
      clean_elems_skip[of True "[]" ds es]
    by (simp add: clean_elems_append_plain clean_elems_plain)
  ultimately show ?thesis using ne
    by (simp add: path_join_def path_clean_def render_path_def abs_path_def)
qed

lemma path_dir_abs:
  assumes "plain_list (es @ [e])"
  shows "path_dir (abs_path (es @ [e])) = abs_path es"
proof -
  have e: "CHR ''/'' \<notin> set e" using assms by (simp add: plain_elem_def)
  have form: "abs_path (es @ [e]) = (if es = [] then ''/'' else abs_path es @ ''/'') @ e"
    by (simp add: abs_path_def join_snoc)
  have "dropWhile (\<lambda>c. c \<noteq> CHR ''/'') (rev e @ CHR ''/'' # x) = CHR ''/'' # x" for x
    using e by (subst dropWhile_append3) auto
  then have "rev (dropWhile (\<lambda>c. c \<noteq> CHR ''/'') (rev (abs_path (es @ [e])))) =
      (if es = [] then ''/'' else abs_path es @ ''/'')"
    unfolding form by (auto simp: abs_path_def)
  moreover have "path_clean (if es = [] then ''/'' else abs_path es @ ''/'') = abs_path es"
  proof (cases "es = []")
    case True
    then show ?thesis by (simp add: path_clean_def is_rooted_def render_path_def abs_path_def)
  next
    case False
    then have "split_slash (abs_path es @ ''/'') = ([] # es) @ [[]]"
      using assms split_slash_append[of "abs_path es" "[]"] by (simp add: split_slash_abs)
    moreover have "is_rooted (abs_path es @ ''/'')" by (simp add: is_rooted_def abs_path_def)
    moreover have "clean_elems True [] (([] # es) @ [[]]) = es"
      using assms clean_elems_skip[of True "[]" es "[]"] by (simp add: clean_elems_plain)
    ultimately show ?thesis using False
      by (simp add: path_clean_def render_path_def abs_path_def)
  qed
  ultimately show ?thesis by (simp add: path_dir_def)
qed

text \<open>The guard of the extraction: a path below another starts with it and a slash.\<close>

lemma abs_path_prefix:
  assumes "ds \<noteq> []"
  shows "prefix (abs_path ds @ ''/'') (abs_path (ds @ es) @ ''/'')"
proof (cases "es = []")
  case False
  have "join ''/'' (ds @ es) = join ''/'' ds @ ''/'' @ join ''/'' es"
    using assms False by (induction ds rule: list_nonempty_induct) (auto simp: join_Cons)
  then show ?thesis by (simp add: abs_path_def)
qed simp

end
