(* ===== verification/Run_Chain.thy ===== *)
theory Run_Chain imports Boot_Chain Api_Table Abs_Path begin

text \<open>
  krun-run against the server it is written for: its two calls are requests to the model of
  krun-api's handlers, and what its exit means for the server's table of machines.
\<close>

section \<open>krun-api as the client's server\<close>

text \<open>
  The path of a URL below the server's, for URLs without escapes, query and fragment: what the
  client puts together from ids.
\<close>

definition url_path :: "string \<Rightarrow> string \<Rightarrow> string list option" where
  "url_path base url =
     (if take (length base) url = base \<and> set (drop (length base) url) \<inter> set ''%?#'' = {}
      then Some (tl (split_slash (drop (length base) url))) else None)"

definition url_safe :: "string \<Rightarrow> bool" where
  "url_safe i \<longleftrightarrow> plain_elem i \<and> set i \<inter> set ''%?#'' = {}"

text \<open>\<open>order\<close> is the order in which the server visits the environment it has decoded.\<close>

fun request_of :: "string \<Rightarrow> (go_map \<Rightarrow> go_map) \<Rightarrow> http_call \<Rightarrow> http_request option" where
  "request_of base order (Post_Create url c) =
     map_option (\<lambda>p. \<lparr>rq_method = ''POST'', rq_path = p, rq_delete_rootfs = [],
        rq_body = Inr (wire (order (mc_Env (cl_Config c))) c)\<rparr>) (url_path base url)"
| "request_of base order (Post_Start url) =
     map_option (\<lambda>p. \<lparr>rq_method = ''POST'', rq_path = p, rq_delete_rootfs = [], rq_body = Inl ''EOF''\<rparr>)
       (url_path base url)"

text \<open>
  What the client's decoder makes of a body: it reads the fields it knows, by the names that both
  sides use, and leaves the others empty.
\<close>

definition no_response :: machine_response where
  "no_response = \<lparr>mr_ID = [], mr_Name = [], mr_State = []\<rparr>"

fun decoded :: "body \<Rightarrow> string + machine_response" where
  "decoded (Json_Machine m) = Inr \<lparr>mr_ID = ID m, mr_Name = Name m, mr_State = state_string (State m)\<rparr>"
| "decoded (Json_Machines ms) = Inl ''json: cannot unmarshal array into Go value of type cli.MachineResponse''"
| "decoded Json_Null = Inr no_response"
| "decoded (Json_Error e) = Inr no_response"
| "decoded (Plain_Text t) = Inl ''invalid character''"
| "decoded No_Body = Inl ''EOF''"

text \<open>
  The server: \<open>text\<close> is the encoder, \<open>env\<close> gives the surroundings of each call. A request that does not
  return, or does not reach the server, is not answered.
\<close>

definition api_server ::
  "(body \<Rightarrow> string) \<Rightarrow> string \<Rightarrow> image_cache \<Rightarrow> (go_map \<Rightarrow> go_map) \<Rightarrow> (http_call \<Rightarrow> api_env) \<Rightarrow> server_state server" where
  "api_server text base cache order env c x =
     (case request_of base order c of
        None \<Rightarrow> None
      | Some r \<Rightarrow>
          map_option
            (\<lambda>(w, s', ts). (Answered (int (status w)) (text (resp_body w)) (decoded (resp_body w)), (s', snd x @ ts)))
            (serve cache (env c) r (fst x)))"

lemma set_abs_path: "set (abs_path es) \<subseteq> insert (CHR ''/'') (set (concat es))"
proof -
  have "set (join ''/'' es) \<subseteq> insert (CHR ''/'') (set (concat es))"
    by (induction "''/''" es rule: join.induct) auto
  then show ?thesis by (simp add: abs_path_def)
qed

lemma url_path_abs:
  assumes "list_all url_safe es" "es \<noteq> []"
  shows "url_path base (base @ abs_path es) = Some es"
proof -
  have "plain_list es" "set (concat es) \<inter> set ''%?#'' = {}"
    using assms(1) by (auto simp: url_safe_def list_all_iff)
  then show ?thesis using assms(2) set_abs_path [of es] by (auto simp: url_path_def split_slash_abs)
qed

lemma client_paths:
  "''/v1/machines'' = abs_path [''v1'', ''machines'']"
  "''/v1/machines/'' @ i @ ''/start'' = abs_path [''v1'', ''machines'', i, ''start'']"
  by (simp_all add: abs_path_def)

lemma request_of_create:
  "request_of base order (Post_Create (base @ ''/v1/machines'') c) =
     Some (post [''v1'', ''machines''] (wire (order (mc_Env (cl_Config c))) c))"
proof -
  have "list_all url_safe [''v1'', ''machines'']" by (simp add: url_safe_def plain_elem_def)
  from url_path_abs [OF this, of base] show ?thesis by (simp add: client_paths post_def)
qed

lemma request_of_start:
  assumes "url_safe i"
  shows "request_of base order (Post_Start (base @ ''/v1/machines/'' @ i @ ''/start'')) = Some (start_request i)"
proof -
  have "list_all url_safe [''v1'', ''machines'', i, ''start'']"
    using assms by (simp add: url_safe_def plain_elem_def)
  from url_path_abs [OF this, of base] show ?thesis by (simp only: client_paths) (simp add: start_request_def)
qed

section \<open>One call\<close>

text \<open>
  The surroundings of the calls: nothing happens between an operation and the lookup after it, and
  \<open>uuid.New\<close> gives an id that no machine has and that needs no escapes.
\<close>

definition good_env :: "(http_call \<Rightarrow> api_env) \<Rightarrow> mgr \<Rightarrow> bool" where
  "good_env env s \<longleftrightarrow>
     (\<forall>c. e_meanwhile (env c) = (\<lambda>s. s) \<and>
        (case e_answers (env c) of [] \<Rightarrow> True | a # as \<Rightarrow> machines s (a_uuid a) = None \<and> url_safe (a_uuid a)))"

lemma serve_answered:
  assumes "serve cache env r s = Some (w, s', ts)" "undisturbed env (route_of r) s" "server_inv (s, ms)"
  shows "answered (rq_body r) (route_of r) (table s) (status w) (resp_body w) (table s') \<and>
    server_inv (s', ms @ ts)"
  using server_step_refines [OF ss_request [OF assms(1,2)] assms(3)] by simp

lemma created_id:
  assumes "serve cache env (post [''v1'', ''machines''] req) s = Some (w, s', ts)"
    and "resp_body w = Json_Machine m"
  shows "ID m = a_uuid (hd (e_answers env)) \<and> e_answers env \<noteq> []"
  using assms
  by (auto simp: serve_def serve_mux_def post_route h_CreateMachine_def response_defs Let_def
      dest!: call_created split: sum.splits if_splits option.splits result.splits)

lemma api_server_call:
  assumes "api_server text base cache order env c (s, ms) = Some (ex, y)" "request_of base order c = Some r"
  obtains w s' ts where "serve cache (env c) r s = Some (w, s', ts)" "y = (s', ms @ ts)"
    "ex = Answered (int (status w)) (text (resp_body w)) (decoded (resp_body w))"
  using assms by (auto simp: api_server_def)

text \<open>What has been asked for, and what the client sees of a machine.\<close>

definition ordered :: "(go_map \<Rightarrow> go_map) \<Rightarrow> client_request \<Rightarrow> machine \<Rightarrow> bool" where
  "ordered order req m \<longleftrightarrow>
     Name m = cl_Name req \<and> url_safe (ID m) \<and>
     (Config m)\<lparr>RootfsPath := []\<rparr> = with_defaults (rq_Config (wire (order (mc_Env (cl_Config req))) req))"

definition seen :: "machine \<Rightarrow> machine_response" where
  "seen m = \<lparr>mr_ID = ID m, mr_Name = Name m, mr_State = state_string (State m)\<rparr>"

text \<open>When the server can create a machine, and when it can start one.\<close>

definition fit :: "(http_call \<Rightarrow> api_env) \<Rightarrow> server_state \<Rightarrow> bool" where
  "fit env x \<longleftrightarrow> server_inv x \<and> good_env env (fst x)"

definition sound :: "(http_call \<Rightarrow> api_env) \<Rightarrow> server_state \<Rightarrow> bool" where
  "sound env x \<longleftrightarrow> server_inv x \<and> (\<forall>c. e_meanwhile (env c) = (\<lambda>s. s))"

lemma entry_fields [simp]:
  "Name (entry m) = Name m" "Config (entry m) = Config m"
  "Name (in_state st m) = Name m" "Config (in_state st m) = Config m"
  "ID (in_state st m) = ID m" "State (in_state st m) = st"
  by (simp_all add: entry_def in_state_def)

lemma entry_kept [simp]:
  "entry (entry m) = entry m" "entry (in_state st m) = in_state st m" "in_state st (entry m) = in_state st m"
  "in_state st (in_state st' m) = in_state st m" "seen (entry m) = seen m"
  "ordered order req (entry m) = ordered order req m" "ordered order req (in_state st m) = ordered order req m"
  by (simp_all add: entry_def in_state_def seen_def ordered_def)

lemma entry_in_state: "in_state (State m) m = entry m"
  by (simp add: in_state_def)

text \<open>The two calls.\<close>

lemma server_creates:
  assumes "fit env x"
    and "cl_CreateMachine (api_server text base cache order env) base req x = Some (res, y)"
  shows "sound env y \<and>
    (case res of
       Inl e \<Rightarrow> table (fst y) = table (fst x)
     | Inr v \<Rightarrow> \<exists>m. v = seen m \<and> ordered order req m \<and> in_state StateCreated m = m \<and> table (fst x) (ID m) = None \<and>
         table (fst y) = (table (fst x))(ID m \<mapsto> m))"
proof -
  obtain s ms where x: "x = (s, ms)" by (cases x)
  have g: "server_inv (s, ms)" "good_env env s" using assms(1) by (simp_all add: fit_def x)
  let ?c = "Post_Create (base @ ''/v1/machines'') req"
  let ?q = "wire (order (mc_Env (cl_Config req))) req"
  obtain ex where a: "api_server text base cache order env ?c (s, ms) = Some (ex, y)"
      "res = client_result ''/v1/machines'' 201 ex"
    using assms(2) by (auto simp: cl_CreateMachine_def x)
  obtain w s' ts where w: "serve cache (env ?c) (post [''v1'', ''machines''] ?q) s = Some (w, s', ts)"
      "y = (s', ms @ ts)" "ex = Answered (int (status w)) (text (resp_body w)) (decoded (resp_body w))"
    by (rule api_server_call [OF a(1) request_of_create])
  have un: "undisturbed (env ?c) (route_of (post [''v1'', ''machines''] ?q)) s"
    using g(2) by (auto simp: good_env_def undisturbed_def post_route split: list.splits)
  note ans = serve_answered [OF w(1) un g(1)]
  have y: "sound env y" using ans w(2) g(2) by (simp add: sound_def good_env_def)
  show ?thesis
  proof (cases "resp_body w")
    case (Json_Machine m)
    then have "ID m = a_uuid (hd (e_answers (env ?c))) \<and> e_answers (env ?c) \<noteq> []"
      using created_id [OF w(1)] by blast
    then have "url_safe (ID m)" using g(2) by (cases "e_answers (env ?c)") (auto simp: good_env_def dest!: spec [of _ ?c])
    moreover have r: "State m = StateCreated" "Name m = cl_Name req" "table s (ID m) = None" "status w = 201"
        "table s' = (table s)(ID m \<mapsto> entry m)"
        "(Config m)\<lparr>RootfsPath := []\<rparr> = with_defaults (rq_Config ?q)"
      using ans Json_Machine by (simp_all add: post_route post_body made_from_def wire_def)
    moreover from this have "in_state StateCreated m = entry m" using entry_in_state [of m] by simp
    ultimately show ?thesis
      using y w(2,3) a(2) Json_Machine
      by (auto simp: x client_result_def seen_def ordered_def intro!: exI [of _ "entry m"])
  qed (use y ans w(2,3) a(2) in \<open>auto simp: x post_route client_result_def\<close>)
qed

lemma server_starts:
  assumes "sound env x" "ordered order req m" "table (fst x) (ID m) = Some m" "in_state StateCreated m = m"
    and "cl_StartMachine (api_server text base cache order env) base (ID m) x = Some (res, y)"
  shows "case res of
       Inl e \<Rightarrow> table (fst y) = (table (fst x))(ID m \<mapsto> in_state StateStopped m)
     | Inr v \<Rightarrow> v = seen (in_state StateRunning m) \<and> table (fst y) = (table (fst x))(ID m \<mapsto> in_state StateRunning m)"
proof -
  obtain s ms where x: "x = (s, ms)" by (cases x)
  have g: "server_inv (s, ms)" "e_meanwhile (env c) = (\<lambda>s. s)" for c using assms(1) by (simp_all add: sound_def x)
  let ?c = "Post_Start (base @ ''/v1/machines/'' @ ID m @ ''/start'')"
  obtain ex where a: "api_server text base cache order env ?c (s, ms) = Some (ex, y)"
      "res = client_result (''/v1/machines/'' @ ID m @ ''/start'') 200 ex"
    using assms(5) by (auto simp: cl_StartMachine_def x)
  have i: "url_safe (ID m)" "ID m \<noteq> []" using assms(2) by (auto simp: ordered_def url_safe_def plain_elem_def)
  obtain w s' ts where w: "serve cache (env ?c) (start_request (ID m)) s = Some (w, s', ts)" "y = (s', ms @ ts)"
      "ex = Answered (int (status w)) (text (resp_body w)) (decoded (resp_body w))"
    by (rule api_server_call [OF a(1) request_of_start [OF i(1)]])
  have "undisturbed (env ?c) (route_of (start_request (ID m))) s"
    using g(2) i(2) by (simp add: undisturbed_def start_route)
  note ans = serve_answered [OF w(1) this g(1)]
  have st: "State m = StateCreated" using assms(4) entry_fields(6) [of StateCreated m] by simp
  show ?thesis
  proof (cases "resp_body w")
    case (Json_Machine m')
    then have "entry m' = in_state StateRunning m" "table s' = (table s)(ID m \<mapsto> entry m')" "status w = 200"
      using ans st assms(3) i(2) by (simp_all add: start_route at_rest_def x)
    moreover from this have "seen m' = seen (in_state StateRunning m)" using entry_kept(5) [of m'] by simp
    ultimately show ?thesis using w(2,3) a(2) Json_Machine by (simp add: x client_result_def seen_def)
  qed (use ans w(2,3) a(2) st assms(3) i(2) in \<open>auto simp: x start_route at_rest_def client_result_def\<close>)
qed

interpretation krun_api: machine_server "api_server enc base cache order env" base "\<lambda>x. table (fst x)" ID seen
    "ordered order" in_state "fit env" "sound env" for enc base cache order env
proof
qed (use server_creates server_starts in \<open>auto simp: seen_def\<close>)


text \<open>The image of the chain's example, on a server without machines.\<close>

definition demo_server :: "server_state server" where
  "demo_server =
     api_server (\<lambda>_. []) (fl_api demo_flags) demo_cache (\<lambda>vars. vars) (\<lambda>c. table_env [])"

lemma demo_run_succeeds:
  "\<exists>v y. krun_run demo_server (Inr (Inr demo_image)) demo_flags (demo_mgr, []) = Some (Inr v, y)"
proof -
  define req where "req = wire (mc_Env (cl_Config (run_request demo_flags demo_image))) (run_request demo_flags demo_image)"
  define base where "base = ''/images/alpine/1''"
  define m where "m = new_machine calm_answers demo_mgr req base"
  define s1 where "s1 = with_machine m {own_clone demo_mgr (a_uuid calm_answers)} demo_mgr"
  let ?ensure = "\<lambda>image. if image = ''alpine:3.18'' then Inr base else Inl ''no such image''"
  have cache: "demo_cache = Some ?ensure" unfolding demo_cache_def base_def ..
  have e: "e_answers (table_env []) = calm_answers # calm_answers # replicate 3 calm_answers"
    by (simp add: table_env_def demo_env_def eval_nat_numeral)
  have rq: "rq_BaseImage req \<noteq> []" "RootfsPath (rq_Config req) = []" "?ensure (rq_BaseImage req) = Inr base"
    by (simp_all add: req_def wire_def run_request_def demo_flags_def Let_def)
  have u: "a_uuid calm_answers = ''u1''" "a_clone calm_answers = None" "all_well calm_answers"
    by (simp_all add: calm_answers_def all_well_def)
  have c: "serve demo_cache (table_env []) (post [''v1'', ''machines''] req) demo_mgr =
      Some (setContentType (writeJSON 201 (Json_Machine m)), s1, [])"
    unfolding cache
    using serve_creates [where ensure = ?ensure, OF post_route post_body rq e, where s = demo_mgr] u
    by (simp add: m_def s1_def base_def)
  have reg: "machines s1 ''u1'' = Some (fresh demo_mgr)" "get_state (fresh demo_mgr) s1 = StateCreated"
      "ID m = ''u1''" "url_safe ''u1''"
    by (simp_all add: s1_def m_def with_machine_def new_machine_def u get_state_def GetState_def url_safe_def plain_elem_def)
  obtain s2 v n where st: "serve demo_cache (table_env []) (start_request ''u1'') s1 =
      Some (setContentType (writeJSON 200 (Json_Machine (objs s2 (fresh demo_mgr)))), s2,
        [Monitoring (Mon_Wait ''u1'' (fresh demo_mgr) v n)])"
    by (rule serve_starts [where cache = demo_cache and s = s1 and i = "''u1''" and r = "fresh demo_mgr" and
          env = "table_env []"])
      (use reg e u(3) in \<open>auto simp: at_rest_def list_all_iff table_env_def demo_env_def\<close>)
  have "cl_CreateMachine demo_server (fl_api demo_flags) (run_request demo_flags demo_image) (demo_mgr, []) =
      Some (Inr (seen m), (s1, []))"
    using c by (simp add: cl_CreateMachine_def demo_server_def api_server_def request_of_create
        req_def [symmetric] client_result_def seen_def response_defs del: request_of.simps)
  moreover have "cl_StartMachine demo_server (fl_api demo_flags) ''u1'' (s1, []) =
      Some (Inr (seen (objs s2 (fresh demo_mgr))), (s2, [Monitoring (Mon_Wait ''u1'' (fresh demo_mgr) v n)]))"
    using st by (simp add: cl_StartMachine_def demo_server_def api_server_def request_of_start [OF reg(4)]
        client_result_def seen_def response_defs del: request_of.simps append.simps)
  ultimately show ?thesis using reg(3) by (simp add: krun_run_def demo_flags_def seen_def)
qed


end
