(* ===== verification/Exec_Session.thy ===== *)
theory Exec_Session imports Handshake Resize begin

text \<open>
  An exec session in the guest (\<open>handleExecSession\<close> of cmd/vminit/main.go): the handshake line is
  read through a buffered reader, which may take more from the connection than the line; what it
  holds beyond the line is written to the terminal as it is, and \<open>copyWithResize\<close> goes on with
  the connection itself.
\<close>

section \<open>Reading the line\<close>

text \<open>
  \<open>bufio.Reader.ReadString('\n')\<close> with its buffer of 4096 bytes: \<open>line\<close> is what has been read
  without a newline, \<open>held\<close> how much of it still lies in the buffer, which limits the next read. A
  newline counts also when the read that brings it reports an error. The result is the line, the
  bytes buffered behind it and the connection. The connection is a vsock file, whose reads report
  their final error alone.
\<close>

definition newline :: byte where
  "newline = 10"

definition bytes_text :: "byte list \<Rightarrow> string" where
  "bytes_text = map (\<lambda>b. char_of (unat b))"

function read_line :: "byte list \<Rightarrow> nat \<Rightarrow> conn \<Rightarrow> (byte list \<times> byte list \<times> conn) option" where
  "read_line line held c =
     (case plain_read (4096 - held mod 4096) c of
        (d, e, c') \<Rightarrow>
          (if newline \<in> set d then
             Some (line @ takeWhile (\<lambda>b. b \<noteq> newline) d @ [newline],
                   tl (dropWhile (\<lambda>b. b \<noteq> newline) d), c')
           else if e \<noteq> None then None
           else read_line (line @ d) (held + length d) c'))"
  by pat_completeness auto
termination
proof (relation "measure (\<lambda>(line, held, c). conn_rank c)", goal_cases)
  case (2 line held c d rest e c')
  then have "plain_read (4096 - held mod 4096) c = (d, None, c')" by simp
  moreover have "0 < 4096 - held mod 4096" using mod_less_divisor [of 4096 held] by simp
  ultimately show ?case using plain_connection.read_progress by simp
qed simp

declare read_line.simps [simp del]

section \<open>The session\<close>

text \<open>
  The command and the terminal's size, and what is done to the terminal up to the end of the
  connection. \<open>starts\<close> is whether \<open>pty.StartWithSize\<close> succeeds. No result: the session ends before
  it has started a command.
\<close>

definition exec_session ::
  "bool \<Rightarrow> conn \<Rightarrow> ((string list \<times> u16 \<times> u16) \<times> pty_op list option) option" where
  "exec_session starts c =
     (case read_line [] 0 c of
        None \<Rightarrow> None
      | Some (line, buffered, c') \<Rightarrow>
          (let cmd = exec_session_command (bytes_text line)
           in if starts then
                Some (cmd, map_option (\<lambda>ops. (if buffered \<noteq> [] then [PtyWrite buffered] else []) @ ops)
                             (copyWithResize plain_read c'))
              else None))"

section \<open>Lemmas\<close>

lemma read_line_step:
  "plain_read (4096 - held mod 4096) c = (d, e, c1) \<Longrightarrow>
     read_line line held c =
       (if newline \<in> set d then
          Some (line @ takeWhile (\<lambda>b. b \<noteq> newline) d @ [newline], tl (dropWhile (\<lambda>b. b \<noteq> newline) d), c1)
        else if e \<noteq> None then None
        else read_line (line @ d) (held + length d) c1)"
  by (subst read_line.simps) simp

lemma split_at_newline:
  "newline \<in> set d \<Longrightarrow>
     d = takeWhile (\<lambda>b. b \<noteq> newline) d @ newline # tl (dropWhile (\<lambda>b. b \<noteq> newline) d)"
  by (induction d) auto

lemma room_left: "0 < 4096 - held mod (4096 :: nat)"
  using mod_less_divisor [of 4096 held] by simp

text \<open>
  When the connection carries a newline, the line is what comes before the first one, and what
  is buffered and what is still to come make up the rest.
\<close>

lemma read_line_content:
  "newline \<in> set (conn_content c) \<Longrightarrow>
     \<exists>ln b c'. read_line line held c = Some (line @ ln @ [newline], b, c') \<and> newline \<notin> set ln \<and>
       conn_content c = ln @ newline # b @ conn_content c'"
proof (induction "conn_rank c" arbitrary: line held c rule: less_induct)
  case less
  obtain d e c1 where rd: "plain_read (4096 - held mod 4096) c = (d, e, c1)" by (metis prod_cases3)
  note content = plain_connection.read_content [OF rd] and step = read_line_step [OF rd, of line]
  show ?case
  proof (cases "newline \<in> set d")
    case True
    have "newline \<notin> set (takeWhile (\<lambda>b. b \<noteq> newline) d)" by (auto dest: set_takeWhileD)
    moreover have "conn_content c = takeWhile (\<lambda>b. b \<noteq> newline) d @ newline #
        tl (dropWhile (\<lambda>b. b \<noteq> newline) d) @ conn_content c1"
      using split_at_newline [OF True] content by (metis append.assoc append_Cons)
    ultimately show ?thesis using step True by auto
  next
    case False
    then have more: "newline \<in> set (conn_content c1)" using less.prems content by simp
    then have e: "e = None" using plain_connection.read_error_end rd
      by (metis list.set(1) empty_iff not_None_eq)
    then have "conn_rank c1 < conn_rank c" using plain_connection.read_progress rd room_left by blast
    from less.hyps [OF this more] obtain ln b c' where
      "read_line (line @ d) (held + length d) c1 = Some ((line @ d) @ ln @ [newline], b, c')"
      "newline \<notin> set ln" "conn_content c1 = ln @ newline # b @ conn_content c'" by blast
    then have "read_line line held c = Some (line @ (d @ ln) @ [newline], b, c')"
      "newline \<notin> set (d @ ln)" "conn_content c = (d @ ln) @ newline # b @ conn_content c'"
      using step False e content by simp_all
    then show ?thesis by blast
  qed
qed

lemma split_unique: "ln @ x # r = ln' @ x # r' \<Longrightarrow> x \<notin> set ln \<Longrightarrow> x \<notin> set ln' \<Longrightarrow> ln = ln' \<and> r = r'"
  by (induction ln arbitrary: ln'; case_tac ln') auto

lemma exec_session_content:
  assumes "conn_content c = ln @ newline # rest" and "newline \<notin> set ln"
  shows "\<exists>b r ops. exec_session True c =
      Some (exec_session_command (bytes_text (ln @ [newline])), Some ops) \<and>
    rest = b @ r \<and> pty_effect ops = map Data b @ demux r"
proof -
  have "newline \<in> set (conn_content c)" using assms(1) by simp
  from read_line_content [OF this, of "[]" 0] obtain ln' b c' where
    rl: "read_line [] 0 c = Some (ln' @ [newline], b, c')" and nl: "newline \<notin> set ln'"
    and content: "conn_content c = ln' @ newline # b @ conn_content c'" by auto
  then have "ln @ newline # rest = ln' @ newline # b @ conn_content c'" using assms(1) by simp
  from split_unique [OF this assms(2) nl] have eq: "ln' = ln" "rest = b @ conn_content c'" by simp_all
  obtain ops where ops: "copyWithResize plain_read c' = Some ops" "pty_effect ops = demux (conn_content c')"
    using plain_connection.copy_plain [of c'] by blast
  let ?ops = "(if b \<noteq> [] then [PtyWrite b] else []) @ ops"
  have "exec_session True c = Some (exec_session_command (bytes_text (ln @ [newline])), Some ?ops)"
    using rl ops(1) eq(1) by (simp add: exec_session_def)
  moreover have "pty_effect ?ops = map Data b @ demux (conn_content c')"
    using ops(2) by (simp add: pty_effect_def)
  ultimately show ?thesis using eq(2) by blast
qed

section \<open>Properties\<close>

text \<open>
  A session over a connection that carries a line and then input: the command
  and the size are those of the line, and the terminal gets a first part of the input as it is
  and the rest with the resize messages taken out. Which part depends on how the bytes arrived.
\<close>

theorem exec_session_spec:
  assumes "conn_content c = ln @ newline # rest" and "newline \<notin> set ln"
  shows "\<exists>b r ops. exec_session True c =
      Some (exec_session_command (bytes_text (ln @ [newline])), Some ops) \<and>
    rest = b @ r \<and> pty_effect ops = map Data b @ demux r"
  using assms by (rule exec_session_content)

theorem exec_session_spec_witness:
  "\<exists>b r ops. exec_session True (conn_of [[0x61, 0x0A, 0x6C], [0x73]] False) =
      Some (exec_session_command (bytes_text [0x61, 0x0A]), Some ops) \<and>
    [0x6C, 0x73] = b @ r \<and> pty_effect ops = map Data b @ demux r"
  using exec_session_spec [of "conn_of [[0x61, 0x0A, 0x6C], [0x73]] False" "[0x61]" "[0x6C, 0x73]"]
  by (simp add: newline_def)

text \<open>
  So a resize message that arrives together with the handshake line is typed into
  the terminal, while the same bytes arriving a moment later change its size.
\<close>

theorem resize_behind_handshake_is_typed:
  "map_option snd (exec_session True (conn_of [0x61 # newline # resize_message 100 50] False)) =
     Some (Some [PtyWrite (resize_message 100 50)]) \<and>
   map_option snd (exec_session True (conn_of [[0x61, newline], resize_message 100 50] False)) =
     Some (Some [Setsize 100 50])"
  by (simp add: exec_session_def read_line.simps conn_of_def plain_read_def conn_read_def newline_def
      resize_message_def be16_put_def resizeMagic_def copyWithResize_def copy_loop.simps buf_len_def
      setsize_of_def be16_get_def flush_partial_def)

end
