(* ===== verification/Krun_Exec.thy ===== *)
theory Krun_Exec imports Exec_Session Api_Handler begin

text \<open>
  The command krun-exec (cmd/krun-exec/main.go): find the machine, connect to its exec socket, send the
  handshake and copy. What the server, the socket and the terminal answer is an argument; the
  result is an error or the bytes that were sent. Together with the server's handler, the manager
  and the guest's session this gives the whole way of a command into the guest.
\<close>

section \<open>run\<close>

datatype get_answer =
    Get_Failed string
  | Got int string "string + (string \<times> string)"

text \<open>A decoded machine is the pair of its id and its exec socket's path.\<close>

record exec_env =
  xe_get :: "string \<Rightarrow> get_answer"
  xe_dial :: "string \<Rightarrow> string option"
  xe_terminal :: bool
  xe_size :: "string + (int \<times> int)"
  xe_send :: "string option"
  xe_raw :: "string option"
  xe_turns :: "turn list"

datatype exec_error =
    Get_Machine string
  | Get_Status int string
  | Decode_Machine string
  | No_Exec_Socket string
  | Connect string
  | No_Terminal
  | Terminal_Size string
  | Send_Handshake string
  | Make_Raw string

definition text_bytes :: "string \<Rightarrow> byte list" where
  "text_bytes = map (\<lambda>c. word_of_nat (of_char c))"

definition exec_run :: "exec_env \<Rightarrow> string \<Rightarrow> string \<Rightarrow> string \<Rightarrow> string list \<Rightarrow> exec_error + byte list" where
  "exec_run xe apiURL user machineID cmd =
     (case xe_get xe (apiURL @ ''/v1/machines/'' @ machineID) of
        Get_Failed e \<Rightarrow> Inl (Get_Machine e)
      | Got st body decoded \<Rightarrow>
          if st \<noteq> 200 then Inl (Get_Status st body)
          else
            (case decoded of
               Inl e \<Rightarrow> Inl (Decode_Machine e)
             | Inr (i, path) \<Rightarrow>
                 if path = [] then Inl (No_Exec_Socket machineID)
                 else
                   (case xe_dial xe path of
                      Some e \<Rightarrow> Inl (Connect e)
                    | None \<Rightarrow>
                        if \<not> xe_terminal xe then Inl No_Terminal
                        else
                          (case xe_size xe of
                             Inl e \<Rightarrow> Inl (Terminal_Size e)
                           | Inr (cols, rows) \<Rightarrow>
                               (case xe_send xe of
                                  Some e \<Rightarrow> Inl (Send_Handshake e)
                                | None \<Rightarrow>
                                    (case xe_raw xe of
                                       Some e \<Rightarrow> Inl (Make_Raw e)
                                     | None \<Rightarrow>
                                         Inr (text_bytes (client_handshake user cols rows cmd) @
                                              copyStdinWithResize (xe_turns xe))))))))"

text \<open>\<open>main\<close> after parsing the flags: the exit status.\<close>

definition exec_main :: "exec_env \<Rightarrow> string \<Rightarrow> string list \<Rightarrow> nat" where
  "exec_main xe apiURL args =
     (if length args < 1 then 1
      else
        (case parseTarget (args ! 0) of
           None \<Rightarrow> 1
         | Some (user, machineID) \<Rightarrow>
             (case exec_run xe apiURL user machineID (tl args) of Inl e \<Rightarrow> 1 | Inr sent \<Rightarrow> 0)))"

section \<open>Text as bytes\<close>

lemma bytes_text_bytes [simp]: "bytes_text (text_bytes s) = s"
proof -
  have "char_of (unat (word_of_nat (of_char c) :: byte)) = c" for c
    by (simp add: unat_of_nat)
  then show ?thesis by (simp add: bytes_text_def text_bytes_def comp_def)
qed

lemma text_bytes_append [simp]: "text_bytes (s @ t) = text_bytes s @ text_bytes t"
  by (simp add: text_bytes_def)

lemma newline_text: "newline \<in> set (text_bytes s) \<longleftrightarrow> CHR 0x0A \<in> set s"
proof -
  have "((word_of_nat (of_char c) :: byte) = 10) = (c = CHR 0x0A)" for c
  proof -
    have "((word_of_nat (of_char c) :: byte) = 10) = (unat (word_of_nat (of_char c) :: byte) = unat (10 :: byte))"
      by (rule word_unat_eq_iff)
    also have "\<dots> = (of_char c = (10 :: nat))" by (simp add: unat_of_nat)
    also have "\<dots> = (c = CHR 0x0A)"
      using of_char_eq_iff[of c "CHR 0x0A", where 'a = nat] by simp
    finally show ?thesis by blast
  qed
  then show ?thesis by (force simp: newline_def text_bytes_def image_iff)
qed

lemma fields_from_size: "sum_list (map length (fields_from cur s)) \<le> length cur + length s"
proof (induction cur s rule: fields_from.induct)
  case (2 cur c s)
  then show ?case by (auto simp: Let_def)
qed simp

lemma token_no_newline:
  assumes "is_token s"
  shows "CHR 0x0A \<notin> set s"
proof
  assume "CHR 0x0A \<in> set s"
  then obtain u v where s: "s = u @ [CHR 0x0A] @ v" by (auto dest: split_list)
  have "is_space_rune [CHR 0x0A]" by (simp add: is_space_rune_def space_runes_def)
  from fields_from_append_space[OF this, of "[]" u v]
  have "[s] = fields_from [] u @ fields_from [] v"
    using assms s by (simp add: is_token_def Go_Strings.fields_def)
  then have "length s = sum_list (map length (fields_from [] u)) + sum_list (map length (fields_from [] v))"
    by (metis add_0_right list.simps(8,9) map_append sum_list.Cons sum_list.Nil sum_list_append)
  also have "\<dots> \<le> length u + length v"
    using fields_from_size[of "[]" u] fields_from_size[of "[]" v] by simp
  finally show False using s by simp
qed

lemma handshake_line:
  assumes "is_token user" and "list_all (\<lambda>a. CHR 0x0A \<notin> set a) cmd"
  obtains ln where "client_handshake user cols rows cmd = ln @ [CHR 0x0A]" "CHR 0x0A \<notin> set ln"
proof -
  have j: "CHR 0x0A \<notin> set (join '' '' cmd)"
    using assms(2) by (induction "'' ''" cmd rule: join.induct) auto
  have "CHR 0x0A \<notin> set (fmt_d i)" for i by (rule token_no_newline[OF is_token_fmt_d])
  then show thesis
    using that token_no_newline[OF assms(1)] j by (auto simp: client_handshake_def Let_def)
qed

text \<open>What a run sends, in the guest.\<close>

lemma sent_reaches_session:
  assumes "is_token user" and "list_all (\<lambda>a. CHR 0x0A \<notin> set a) cmd"
    and "xe_size xe = Inr (cols, rows)" and "exec_run xe apiURL user machineID cmd = Inr sent"
    and "conn_content c = sent"
  shows "\<exists>b r ops. exec_session True c =
      Some ((session_argv user (concat (map Go_Strings.fields cmd)), received_dim 80 cols, received_dim 24 rows), Some ops) \<and>
    copyStdinWithResize (xe_turns xe) = b @ r \<and> pty_effect ops = map Data b @ demux r"
proof -
  let ?hs = "client_handshake user cols rows cmd"
  obtain ln where ln: "?hs = ln @ [CHR 0x0A]" "CHR 0x0A \<notin> set ln"
    by (rule handshake_line[OF assms(1,2)])
  have nl: "text_bytes [CHR 0x0A] = [newline]" by (simp add: text_bytes_def newline_def)
  have "sent = text_bytes ?hs @ copyStdinWithResize (xe_turns xe)"
    using assms(3,4) by (auto simp: exec_run_def split: get_answer.splits sum.splits if_splits option.splits)
  then have "conn_content c = text_bytes ln @ newline # copyStdinWithResize (xe_turns xe)"
    using assms(5) ln(1) nl by simp
  from exec_session_content[OF this] ln(2) obtain b r ops where
    "exec_session True c = Some (exec_session_command (bytes_text (text_bytes ln @ [newline])), Some ops)"
    "copyStdinWithResize (xe_turns xe) = b @ r" "pty_effect ops = map Data b @ demux r"
    by (auto simp: newline_text)
  moreover have "bytes_text (text_bytes ln @ [newline]) = ?hs"
    unfolding ln(1) nl[symmetric] text_bytes_append[symmetric] by (rule bytes_text_bytes)
  moreover have "exec_session_command ?hs =
      (session_argv user (concat (map Go_Strings.fields cmd)), received_dim 80 cols, received_dim 24 rows)"
    using assms(1) is_token_nonempty by (simp add: exec_session_command_def parse_client_handshake)
  ultimately show ?thesis by auto
qed

section \<open>Properties\<close>

text \<open>
  From krun-exec into the guest: for a user that is one token and arguments without
  line breaks, what a run sends, however it is cut up on its way, makes the guest run the words
  of the arguments for that user in a terminal of the client's size, as far as it fits in 16 bits,
  and type what follows: a first part as it is, the rest without the resize messages, which set the size.
\<close>

lemma krun_exec_reaches_guest:
  assumes "is_token user" and "list_all (\<lambda>a. CHR 0x0A \<notin> set a) cmd"
    and "xe_size xe = Inr (cols, rows)" and "exec_run xe apiURL user machineID cmd = Inr sent"
    and "conn_content c = sent"
  shows "\<exists>b r ops. exec_session True c =
      Some ((session_argv user (concat (map Go_Strings.fields cmd)), received_dim 80 cols, received_dim 24 rows), Some ops) \<and>
    copyStdinWithResize (xe_turns xe) = b @ r \<and> pty_effect ops = map Data b @ demux r"
  using assms by (rule sent_reaches_session)

text \<open>
  A line break in an argument ends the handshake there: the rest of the argument is not part of
  the command but typed into its terminal.
\<close>

lemma line_break_splits_command:
  "exec_session True (conn_of [text_bytes (client_handshake ''root'' 80 24 [''cat'' @ [CHR 0x0A] @ ''date''])] False) =
     Some (([''su'', ''-s'', ''/bin/sh'', ''-'', ''root'', ''-c'', ''cat''], 80, 24),
           Some [PtyWrite (text_bytes (''date'' @ [CHR 0x0A]))])"
  by code_simp (simp add: copy_loop.simps plain_read_def conn_read_def flush_partial_def)

definition demo_exec :: exec_env where
  "demo_exec =
     \<lparr>xe_get = (\<lambda>_. Got 200 [] (Inr (''u1'', ''/s/u1.exec.sock''))), xe_dial = (\<lambda>_. None), xe_terminal = True,
      xe_size = Inr (120, 40), xe_send = None, xe_raw = None, xe_turns = []\<rparr>"

lemma krun_exec_reaches_guest_witness:
  "\<exists>c b r ops. exec_session True c =
      Some ((session_argv ''root'' [''ls'', ''-l''], 120, 40), Some ops) \<and> [] = b @ r \<and>
      pty_effect ops = map Data b @ demux r"
proof -
  have t: "is_token ''root''" "is_token ''ls''" "is_token ''-l''"
    by (rule is_tokenI; simp add: space_lead_def space_runes_def)+
  obtain sent where sent: "exec_run demo_exec ''http://h'' ''root'' ''u1'' [''ls -l''] = Inr sent"
    by (simp add: exec_run_def demo_exec_def)
  have "Go_Strings.fields ''ls -l'' = [''ls'', ''-l'']"
    using fields_space_cons[of "''ls''" "''-l''"] t(2,3) by (simp add: is_token_def)
  moreover have "conn_content (conn_of [sent] False) = sent" by simp
  moreover have "xe_size demo_exec = Inr (120, 40)" "xe_turns demo_exec = []" by (simp_all add: demo_exec_def)
  ultimately show ?thesis
    using krun_exec_reaches_guest[OF t(1) _ _ sent, of 120 40 "conn_of [sent] False"]
    by (simp add: received_dim_def) blast
qed

end
