(* ===== verification/Shutdown_Rpc.thy ===== *)
theory Shutdown_Rpc imports Vminit Krun_Vmm begin

text \<open>
  The shutdown call from the host to the guest: the generated client and handler of the service
  (gen/vminit/v1/vminitv1connect) with their routes, the port they meet on, and the two ends together:
  \<open>Stop\<close> of krun/vm.go beside vminit in the guest. The connect library's part of a call is a POST
  to the client's URL and the handler's answer.
\<close>

section \<open>Routes of the service\<close>

definition VMInitServiceName :: string where
  "VMInitServiceName = ''vminit.v1.VMInitService''"

definition VMInitServiceShutdownProcedure :: string where
  "VMInitServiceShutdownProcedure = ''/vminit.v1.VMInitService/Shutdown''"

text \<open>\<open>strings.TrimRight(s, "/")\<close>, and the URL of the client that \<open>NewVMInitServiceClient\<close> makes.\<close>

definition trim_slashes :: "string \<Rightarrow> string" where
  "trim_slashes s = rev (dropWhile (\<lambda>c. c = CHR ''/'') (rev s))"

definition shutdown_url :: "string \<Rightarrow> string" where
  "shutdown_url baseURL = trim_slashes baseURL @ VMInitServiceShutdownProcedure"

text \<open>
  \<open>NewVMInitServiceHandler\<close>: the path to mount the handler on, and the handler over the
  implementation of \<open>Shutdown\<close>. An answer is the method's, a method's error, or 404.
\<close>

datatype rpc_answer = Rpc_Response | Rpc_Error string | Rpc_Broken | Http_Not_Found

type_synonym 's rpc_method = "'s \<Rightarrow> rpc_answer \<times> 's"

definition service_mount :: string where
  "service_mount = ''/vminit.v1.VMInitService/''"

definition service_handler :: "'s rpc_method \<Rightarrow> string \<Rightarrow> 's rpc_method" where
  "service_handler shutdown path s =
     (if path = VMInitServiceShutdownProcedure then shutdown s else (Http_Not_Found, s))"

definition unimplemented_Shutdown :: "'s rpc_method" where
  "unimplemented_Shutdown s =
     (Rpc_Error ''unimplemented: vminit.v1.VMInitService.Shutdown is not implemented'', s)"

text \<open>
  vminit's service has a \<open>Shutdown\<close> of its own, which hides the embedded one; its \<open>ServeMux\<close> sends the
  paths below the mount to the handler.
\<close>

definition vminit_Shutdown :: "guest rpc_method" where
  "vminit_Shutdown g = (case Shutdown g of (ok, g') \<Rightarrow> (if ok then Rpc_Response else Rpc_Broken, g'))"

definition vminit_rpc :: "string \<Rightarrow> guest rpc_method" where
  "vminit_rpc path g =
     (if has_prefix path service_mount then service_handler vminit_Shutdown path g
      else (Http_Not_Found, g))"

text \<open>The path of a URL, behind the scheme and the host.\<close>

definition path_of_url :: "string \<Rightarrow> string" where
  "path_of_url url = dropWhile (\<lambda>c. c \<noteq> CHR ''/'') (trim_prefix url ''http://'')"

definition client_Shutdown :: "string \<Rightarrow> guest rpc_method" where
  "client_Shutdown baseURL g = vminit_rpc (path_of_url (shutdown_url baseURL)) g"

text \<open>The URL of \<open>Stop\<close>, with or without slashes at its end, reaches the method.\<close>

lemma client_reaches_service:
  assumes "trim_slashes base = ''http://'' @ host" "CHR ''/'' \<notin> set host"
  shows "client_Shutdown base g = vminit_Shutdown g"
proof -
  have "path_of_url (shutdown_url base) = VMInitServiceShutdownProcedure"
    using assms(2) by (auto simp: path_of_url_def shutdown_url_def assms(1) trim_prefix_def has_prefix_def
        VMInitServiceShutdownProcedure_def dropWhile_append)
  moreover have "has_prefix VMInitServiceShutdownProcedure service_mount"
    by (simp add: has_prefix_def VMInitServiceShutdownProcedure_def service_mount_def)
  ultimately show ?thesis
    by (simp add: client_Shutdown_def vminit_rpc_def service_handler_def)
qed

text \<open>The two ends meet: krun-vmm maps the socket of \<open>Stop\<close> to the port that vminit listens on.\<close>

lemma shutdown_port:
  assumes "vminit_boot pid args hostname answers = (boot_log, Inr cmd)" "j_shutdown_socket_path cfg \<noteq> []"
  shows "Vsock_Listen vsockPortRPC \<in> set boot_log \<and>
    (''krun_add_vsock_port2'', [C_u32 ctx, C_u32 (word_of_nat vsockPortRPC),
       C_string (j_shutdown_socket_path cfg), C_bool True]) \<in> set (expected_calls ctx cfg)"
  using assms
  by (auto simp: vminit_boot_def listenVsock_def expected_calls_def context_calls_def if_given_def
      vsockPortRPC_def split: if_splits prod.splits option.splits)

section \<open>Stop and the guest\<close>

text \<open>
  A VM that is being stopped and its guest. The call may fail on its way, before or after the guest
  has carried it out. The guest runs as long as the child does, which may exit at any time.
\<close>

type_synonym vm_and_guest = "(stop_pc \<times> vm) \<times> (wait_pc \<times> guest)"

definition running_child :: "vm \<Rightarrow> bool" where
  "running_child v \<longleftrightarrow> vm_cmd v = Some Alive \<or> vm_cmd v = Some Dying"

inductive stop_step :: "vm_and_guest \<Rightarrow> vm_and_guest \<Rightarrow> bool" where
  call_answered: "running_child v \<Longrightarrow> pc \<noteq> Off \<Longrightarrow> shutdownSocketPath v \<noteq> [] \<Longrightarrow>
     client_Shutdown ''http://localhost'' g = (Rpc_Response, g') \<Longrightarrow>
     vm_stop_step (Rpc_Result True) Stop_Rpc v = Some (k, v') \<Longrightarrow>
     stop_step ((Stop_Rpc, v), (pc, g)) ((k, v'), (pc, g'))"
| call_lost: "running_child v \<Longrightarrow> pc \<noteq> Off \<Longrightarrow> shutdownSocketPath v \<noteq> [] \<Longrightarrow>
     client_Shutdown ''http://localhost'' g = (a, g') \<Longrightarrow>
     vm_stop_step (Rpc_Result False) Stop_Rpc v = Some (k, v') \<Longrightarrow>
     stop_step ((Stop_Rpc, v), (pc, g)) ((k, v'), (pc, g'))"
| call_fails: "vm_stop_step (Rpc_Result False) Stop_Rpc v = Some (k, v') \<Longrightarrow>
     stop_step ((Stop_Rpc, v), y) ((k, v'), y)"
| stop_goes_on: "k \<noteq> Stop_Rpc \<Longrightarrow> vm_stop_step ch k v = Some (k', v') \<Longrightarrow>
     stop_step ((k, v), y) ((k', v'), y)"
| guest_goes_on: "running_child v \<Longrightarrow> guest_step y y' \<Longrightarrow> stop_step ((k, v), y) ((k, v), y')"
| child_ends: "child_exit e v = Some v' \<Longrightarrow> stop_step ((k, v), y) ((k, v'), y)"
| end_announced: "announce_exit v = Some v' \<Longrightarrow> stop_step ((k, v), y) ((k, v'), y)"
| end_received: "vm_Wait v = Some (x, v') \<Longrightarrow> stop_step ((k, v), y) ((k, v'), y)"

text \<open>Along the way the VM stays started, the guest is one that has booted, and its log grows.\<close>

lemma around_log: "around g g' \<Longrightarrow> \<exists>l. g_log g' = g_log g @ l"
  by (erule around.cases) (auto simp: guest_unfolds split: serve_result.splits)

lemma guest_step_log: "guest_step y y' \<Longrightarrow> \<exists>l. g_log (snd y') = g_log (snd y) @ l"
  by (erule guest_step.cases) (auto simp: act_def elim!: main_step_cases dest: around_log)

lemma client_Shutdown_local:
  "client_Shutdown ''http://localhost'' g = vminit_Shutdown g"
  by (rule client_reaches_service [where host = "''localhost''"]) (simp_all add: trim_slashes_def)

lemma client_Shutdown_around:
  "client_Shutdown ''http://localhost'' g = (a, g') \<Longrightarrow> around g g' \<and>
     (\<exists>l. g_log g' = g_log g @ Sync # l) \<and> (a = Rpc_Response \<longrightarrow> g_shutdown_closed g')"
  using shutdown_called [of g]
  by (auto simp: client_Shutdown_local vminit_Shutdown_def Shutdown_def act_def split: if_splits)

lemma around_closed: "around g g' \<Longrightarrow> g_shutdown_closed g \<Longrightarrow> g_shutdown_closed g'"
  by (erule around.cases) (auto simp: guest_unfolds split: serve_result.splits)

lemma guest_step_closed: "guest_step y y' \<Longrightarrow> g_shutdown_closed (snd y) \<Longrightarrow> g_shutdown_closed (snd y')"
  by (erule guest_step.cases) (auto simp: act_def elim!: main_step_cases dest: around_closed)

lemma vm_stop_step_stays_started:
  "vm_stop_step ch k v = Some (k', v') \<Longrightarrow> vm_started v \<Longrightarrow> vm_started v'"
  by (induction ch k v rule: vm_stop_step.induct)
    (auto dest!: vm_WaitTimeout_started split: if_splits option.splits, auto simp: vm_defs split: option.splits child.splits)

lemma vm_stop_step_target: "vm_stop_step ch k v = Some (k', v') \<Longrightarrow> k' \<noteq> Stop_Rpc"
  by (induction ch k v rule: vm_stop_step.induct) (auto split: if_splits option.splits)

text \<open>After the call.\<close>

fun called :: "action list \<Rightarrow> action list \<Rightarrow> vm_and_guest \<Rightarrow> bool" where
  "called boot_log l0 ((k, v), (pc, g)) \<longleftrightarrow>
     k \<noteq> Stop_Rpc \<and> vm_started v \<and> guest_run boot_log (pc, g) \<and> g_shutdown_closed g \<and>
     (\<exists>l. g_log g = l0 @ l)"

lemma called_step: "stop_step x x' \<Longrightarrow> called boot_log l0 x \<Longrightarrow> called boot_log l0 x'"
proof (induction rule: stop_step.induct)
  case (stop_goes_on k ch v k' v' y)
  then show ?case using vm_stop_step_stays_started vm_stop_step_target by (cases y) auto
next
  case (guest_goes_on v y y' k)
  obtain pc g pc' g' where y: "y = (pc, g)" "y' = (pc', g')" by (cases y; cases y')
  have "guest_run boot_log y'" using guest_goes_on y by (auto intro: guest_moves)
  then show ?case
    using guest_goes_on y guest_step_log [OF guest_goes_on.hyps(2)] guest_step_closed [OF guest_goes_on.hyps(2)] by auto
next
  case (child_ends e v v' k y)
  then show ?case using child_exit_started by (cases y) auto
next
  case (end_announced v v' k y)
  then show ?case using announce_exit_started by (cases y) auto
next
  case (end_received v x v' k y)
  then show ?case using vm_Wait_started [OF end_received.hyps] by (cases y) auto
qed auto

lemma called_steps: "stop_step\<^sup>*\<^sup>* x x' \<Longrightarrow> called boot_log l0 x \<Longrightarrow> called boot_log l0 x'"
  by (induction rule: rtranclp_induct) (auto intro: called_step)

text \<open>The guest's own steps, beside a \<open>Stop\<close> that waits; then the end of the child and of \<open>Stop\<close>.\<close>

lemma guest_gets_off:
  "main_steps chs y = Some y' \<Longrightarrow> running_child v \<Longrightarrow> stop_step\<^sup>*\<^sup>* ((k, v), y) ((k, v), y')"
proof (induction chs y rule: main_steps.induct)
  case (2 ch chs pc g)
  then obtain pc1 g1 where m: "main_step ch pc g = Some (pc1, g1)" "main_steps chs (pc1, g1) = Some y'"
    by (auto split: option.splits)
  have "stop_step ((k, v), (pc, g)) ((k, v), (pc1, g1))"
    by (rule guest_goes_on [OF 2(3) main_moves [OF m(1)]])
  then show ?case using 2(1) [OF m(1) m(2) 2(3)] by (rule converse_rtranclp_into_rtranclp)
qed simp

lemma child_end_returns:
  assumes "vm_started v" "vm_cmd v = Some Alive"
  obtains v' where "stop_step\<^sup>*\<^sup>* ((Stop_Wait, v), y) ((Stop_Returned, v'), y)" "vm_cmd v' = Some (Exited None)"
proof -
  obtain c where c: "errC v = Some c" "closed c = False" "queued c = []"
    using assms by (cases "errC v") (auto simp: vm_defs)
  define v1 where "v1 = v\<lparr>vm_cmd := Some (Exited None)\<rparr>"
  define v2 where "v2 = v1\<lparr>errC := Some \<lparr>queued = [], closed = True\<rparr>\<rparr>"
  have "child_exit None v = Some v1" using assms(2) by (simp add: child_exit_def v1_def)
  moreover have "announce_exit v1 = Some v2" by (simp add: announce_exit_def v1_def v2_def c)
  moreover have "vm_stop_step Receives Stop_Wait v2 = Some (Stop_Returned, v2)"
    by (simp add: vm_WaitTimeout_def v2_def recv_def)
  ultimately have "stop_step ((Stop_Wait, v), y) ((Stop_Wait, v1), y)"
      "stop_step ((Stop_Wait, v1), y) ((Stop_Wait, v2), y)"
      "stop_step ((Stop_Wait, v2), y) ((Stop_Returned, v2), y)"
    by (simp_all only: child_ends end_announced stop_goes_on stop_pc.distinct simp_thms)
  then have "stop_step\<^sup>*\<^sup>* ((Stop_Wait, v), y) ((Stop_Returned, v2), y)" by auto
  with that show thesis by (auto simp: v2_def v1_def)
qed


text \<open>The sleepy guest, and a VM started with a shutdown socket.\<close>

definition demo_vm :: vm where
  "demo_vm = snd (vm_Start Spawned (NewVM
     \<lparr>LogLevel = 3, VmmBinPath = ''krun-vmm'', vc_VCPUs = 1, vc_MemoryMiB = 256, vc_RootfsPath = ''/r'',
      vc_ExecPath = ''/usr/local/bin/vminit'', vc_Args = [''sleep'', ''600''], vc_Env = [], vc_Workdir = [],
      ConsolePath = [], NetSocketPath = [], MAC = [], vc_Volumes = [],
      ShutdownSocketPath = ''/s/u1.shutdown.sock'', vc_ExecSocketPath = []\<rparr>))"


end
