(* ===== verification/Exec_Chain.thy ===== *)
theory Exec_Chain imports Run_Chain Krun_Exec Shutdown_Rpc begin

text \<open>
  From krun-exec to a session in a running machine: the path that the server gives for the machine is the
  socket that its child has libkrun map to the port on which the guest serves sessions.
\<close>

section \<open>The way to the guest\<close>

text \<open>
  What krun-exec's request is answered by the server in state \<open>s\<close>, and what its decoder reads of a machine.
\<close>

fun exec_decoded :: "body \<Rightarrow> string + (string \<times> string)" where
  "exec_decoded (Json_Machine m) = Inr (ID m, ExecSocketPath m)"
| "exec_decoded (Json_Machines ms) = Inl ''json: cannot unmarshal array into Go value of type main.machineResponse''"
| "exec_decoded Json_Null = Inr ([], [])"
| "exec_decoded (Json_Error e) = Inr ([], [])"
| "exec_decoded (Plain_Text t) = Inl ''invalid character''"
| "exec_decoded No_Body = Inl ''EOF''"

definition api_get :: "(body \<Rightarrow> string) \<Rightarrow> string \<Rightarrow> image_cache \<Rightarrow> api_env \<Rightarrow> mgr \<Rightarrow> string \<Rightarrow> get_answer" where
  "api_get enc base cache env s url =
     (case url_path base url of
        None \<Rightarrow> Get_Failed ''unsupported URL''
      | Some p \<Rightarrow>
          (case serve cache env (get_request p) s of
             None \<Rightarrow> Get_Failed ''no response''
           | Some (w, _, _) \<Rightarrow> Got (int (status w)) (enc (resp_body w)) (exec_decoded (resp_body w))))"

text \<open>
  What libkrun documents of \<open>krun_add_vsock_port2\<close> with its last argument true: it listens on the socket, and
  a connection to it becomes one to the port in the guest. Where a socket leads in a VM that
  was configured by these calls; no socket, no connection.
\<close>

fun mapped_port :: "string \<times> c_arg list \<Rightarrow> (string \<times> u32) option" where
  "mapped_port (cf, [C_u32 ctx, C_u32 port, C_string path, C_bool True]) =
     (if cf = ''krun_add_vsock_port2'' then Some (path, port) else None)"
| "mapped_port _ = None"

definition leads_to :: "(string \<times> c_arg list) list \<Rightarrow> string \<rightharpoonup> u32" where
  "leads_to cs = map_of (List.map_filter mapped_port cs)"

definition host_dial :: "(string \<times> c_arg list) list \<Rightarrow> string \<Rightarrow> string option" where
  "host_dial cs path = (if leads_to cs path = None then Some ''connect: no such file or directory'' else None)"

lemma leads_to_append:
  "leads_to (cs @ ds) = leads_to ds ++ leads_to cs"
  by (simp add: leads_to_def map_filter_def)

lemma leads_to_simps [simp]:
  "leads_to [] = Map.empty"
  "mapped_port c = None \<Longrightarrow> leads_to (c # cs) = leads_to cs"
  "mapped_port c = Some (p, n) \<Longrightarrow> leads_to (c # cs) = (leads_to cs)(p \<mapsto> n)"
  by (simp_all add: leads_to_def List.map_filter_simps)

lemma leads_to_if_given:
  "leads_to (if_given v c) = (if v = [] then Map.empty else leads_to [c])"
  by (simp add: if_given_def)

lemma leads_to_volumes:
  "leads_to (map (\<lambda>v. (''krun_add_virtiofs'', [C_u32 ctx, C_string (vol_Tag v), C_string (vol_HostPath v)])) vs) = Map.empty"
  by (induction vs) simp_all

lemma exec_port_mapped:
  assumes "j_exec_socket_path cfg \<noteq> []" "j_shutdown_socket_path cfg \<noteq> j_exec_socket_path cfg"
  shows "leads_to (expected_calls ctx cfg) (j_exec_socket_path cfg) = Some (word_of_nat vsockPortExec)"
  using assms
  by (simp add: expected_calls_def context_calls_def leads_to_append leads_to_if_given leads_to_volumes
      vsockPortExec_def map_add_def)

text \<open>The two sockets of a machine are different.\<close>

lemma sockets_differ:
  assumes "socketDir s \<noteq> []" "dotless i"
  shows "path_join [socketDir s, i @ ''.shutdown.sock''] \<noteq> path_join [socketDir s, i @ ''.exec.sock'']"
proof -
  have p: "plain_elem (i @ ''.shutdown.sock'')" "plain_elem (i @ ''.exec.sock'')"
    using plain_dotted [OF assms(2)] by simp_all
  show ?thesis by (rule path_join_name [OF assms(1) p(1)]) (use p in simp)
qed

section \<open>Into a running machine\<close>

lemma api_get_machine:
  assumes "machines s i = Some r" "url_safe i"
  shows "api_get enc base cache env s (base @ ''/v1/machines/'' @ i) =
    Got 200 (enc (Json_Machine (objs s r))) (Inr (ID (objs s r), ExecSocketPath (objs s r)))"
proof -
  have "list_all url_safe [''v1'', ''machines'', i]" using assms(2) by (simp add: url_safe_def plain_elem_def)
  from url_path_abs [OF this, of base] have "url_path base (base @ ''/v1/machines/'' @ i) = Some [''v1'', ''machines'', i]"
    by (simp add: abs_path_def)
  moreover have "i \<noteq> []" using assms(2) by (auto simp: url_safe_def plain_elem_def)
  ultimately show ?thesis
    using assms(1)
    by (simp add: api_get_def serve_def serve_mux_def get_route h_GetMachine_def Get_def response_defs)
qed

text \<open>A run against a server that knows the machine and a host on which the machine's socket leads somewhere.\<close>

lemma exec_run_connects:
  assumes "machines s i = Some r" "url_safe i" "ExecSocketPath (objs s r) = path" "path \<noteq> []" "leads_to cs path \<noteq> None"
    and "xe_terminal xe" "xe_size xe = Inr (cols, rows)" "xe_send xe = None" "xe_raw xe = None"
  shows "exec_run (xe\<lparr>xe_get := api_get enc base cache env s, xe_dial := host_dial cs\<rparr>) base user i cmd =
    Inr (text_bytes (client_handshake user cols rows cmd) @ copyStdinWithResize (xe_turns xe))"
  using api_get_machine [OF assms(1,2), of enc base cache env, simplified] assms(3-)
  by (simp add: exec_run_def host_dial_def)



end
