(* ===== verification/Confinement.thy ===== *)
theory Confinement imports Abs_Path begin

text \<open>
  What keeps writing inside one directory, when images come with symbolic links of their own: an invariant
  of the file system relative to an earlier one, and that each operation of the file system
  preserves it on paths that no link of the image lies on.
\<close>

section \<open>The invariant\<close>

text \<open>
  \<open>ds\<close> are the elements of the directory's path and \<open>d\<close> the place it leads to, \<open>links\<close> the places
  below it where links may stand, \<open>own\<close> the places whose file has no other name, \<open>f0\<close> the file
  system before. Outside, every node and every file is as before, and no file is shared.
\<close>

definition resolves_to :: "files \<Rightarrow> string list \<Rightarrow> string list \<Rightarrow> bool" where
  "resolves_to f ds d \<longleftrightarrow> (\<exists>n. resolve (nodes f) max_links [] ds = Inr (n, d)) \<and> nodes f d = Some Dir"

definition fresh_inodes :: "files \<Rightarrow> bool" where
  "fresh_inodes f \<longleftrightarrow> (\<forall>q i. nodes f q = Some (File i) \<longrightarrow> i < next_inode f)"

definition only_links :: "string list set \<Rightarrow> string list \<Rightarrow> files \<Rightarrow> bool" where
  "only_links links d f \<longleftrightarrow> (\<forall>p t. nodes f (d @ p) = Some (Symlink t) \<longrightarrow> p \<in> links)"

definition same_outside :: "files \<Rightarrow> string list \<Rightarrow> files \<Rightarrow> bool" where
  "same_outside f0 d f \<longleftrightarrow>
     (\<forall>q. \<not> prefix d q \<longrightarrow> nodes f q = nodes f0 q) \<and>
     (\<forall>q i. \<not> prefix d q \<longrightarrow> nodes f q = Some (File i) \<longrightarrow> inodes f i = inodes f0 i)"

definition unshared :: "string list \<Rightarrow> string list set \<Rightarrow> files \<Rightarrow> bool" where
  "unshared d own f \<longleftrightarrow>
     (\<forall>p q i. nodes f (d @ p) = Some (File i) \<longrightarrow> nodes f q = Some (File i) \<longrightarrow>
        prefix d q \<and> (p \<in> own \<longrightarrow> q = d @ p))"

definition confined ::
  "string list set \<Rightarrow> string list set \<Rightarrow> files \<Rightarrow> string list \<Rightarrow> string list \<Rightarrow> files \<Rightarrow> bool" where
  "confined links own f0 ds d f \<longleftrightarrow>
     resolves_to f ds d \<and> fresh_inodes f \<and> only_links links d f \<and> same_outside f0 d f \<and>
     unshared d own f \<and> nodes f0 \<subseteq>\<^sub>m nodes f"

lemmas confined_unfolds =
  confined_def resolves_to_def fresh_inodes_def only_links_def same_outside_def unshared_def

text \<open>A path below the directory with no link on it.\<close>

definition clear :: "string list set \<Rightarrow> string list \<Rightarrow> bool" where
  "clear links es \<longleftrightarrow> plain_list es \<and> (\<forall>p\<in>links. \<not> prefix p es)"

lemma clear_appendD: "clear links (es @ es') \<Longrightarrow> clear links es"
  by (auto simp: clear_def dest: prefix_order.trans[OF _ prefixI[OF refl]])

lemma clear_butlast: "clear links es \<Longrightarrow> clear links (butlast es)"
  by (cases es rule: rev_cases) (auto dest: clear_appendD)

section \<open>Where paths lead\<close>

lemma confined_resolve:
  assumes "confined links own f0 ds d f" and "clear links es"
  obtains n where "\<And>m q. resolve (nodes f) max_links [] (ds @ es) = Inr (m, q) \<Longrightarrow> q = d @ es"
    "resolve (nodes f) max_links [] (ds @ es) = resolve (nodes f) n d es"
proof -
  obtain n where n: "resolve (nodes f) max_links [] ds = Inr (n, d)" "nodes f d = Some Dir"
    using assms(1) by (auto simp: confined_def resolves_to_def)
  have app: "resolve (nodes f) max_links [] (ds @ es) = resolve (nodes f) n d es"
    by (rule resolve_append[OF n])
  have "unlinked (nodes f) d es" "plain_list es"
    using assms by (auto simp: unlinked_def confined_def only_links_def clear_def)
  then show thesis
    using that app resolve_unlinked by metis
qed

lemma confined_follow:
  assumes "confined links own f0 ds d f" and "clear links es" and "follow f [] (ds @ es) = Inr q"
  shows "q = d @ es"
proof -
  obtain n where "\<And>m q. resolve (nodes f) max_links [] (ds @ es) = Inr (m, q) \<Longrightarrow> q = d @ es"
    by (rule confined_resolve[OF assms(1,2)]) blast
  then show ?thesis using assms(3) by (auto simp: follow_def map_sum_def split: sum.splits)
qed

lemma confined_lookup_dir:
  assumes "confined links own f0 ds d f"
  shows "lookup f [] ds = Inr Dir"
  using assms by (auto simp: confined_def resolves_to_def lookup_def follow_def)

lemma confined_place:
  assumes "confined links own f0 ds d f" and "clear links (butlast es)" and "es \<noteq> []"
    and "place f [] (ds @ es) = Inr q"
  shows "q = d @ es" and "nodes f (d @ butlast es) = Some Dir"
proof -
  have b: "butlast (ds @ es) = ds @ butlast es" "last (ds @ es) = last es"
    using assms(3) by (simp_all add: butlast_append)
  obtain q' where "follow f [] (ds @ butlast es) = Inr q'" "nodes f q' = Some Dir" "q = q' @ [last es]"
    using assms(3,4) b by (auto simp: place_def split: sum.splits option.splits node.splits if_splits)
  moreover from confined_follow[OF assms(1,2) this(1)] have "q' = d @ butlast es" .
  ultimately show "q = d @ es" "nodes f (d @ butlast es) = Some Dir" using assms(3) by simp_all
qed

section \<open>Operations keep inside\<close>

lemma resolves_to_mono: "resolves_to f ds d \<Longrightarrow> nodes f \<subseteq>\<^sub>m nodes f' \<Longrightarrow> resolves_to f' ds d"
  by (auto simp: resolves_to_def intro: resolve_mono map_le_Some)

lemma map_le_upd: "m x = None \<Longrightarrow> m \<subseteq>\<^sub>m m(x \<mapsto> y)"
  by (auto simp: map_le_def)

lemma confined_new_node:
  assumes "confined links own f0 ds d f" and "nodes f (d @ es) = None"
    and "\<And>t. nd = Symlink t \<Longrightarrow> es \<in> links"
    and "\<And>i. nd = File i \<Longrightarrow>
      i < next_inode f \<and> (\<forall>q. nodes f q = Some (File i) \<longrightarrow> prefix d q \<and> q \<notin> (@) d ` own) \<and>
      (es \<in> own \<longrightarrow> (\<forall>q. nodes f q \<noteq> Some (File i)))"
  shows "confined links own f0 ds d (set_node (d @ es) nd f)"
proof -
  have le: "nodes f \<subseteq>\<^sub>m nodes (set_node (d @ es) nd f)"
    using assms(2) by (simp add: set_node_def map_le_upd)
  have le0: "nodes f0 \<subseteq>\<^sub>m nodes f" and r: "resolves_to f ds d"
    using assms(1) by (auto simp: confined_def)
  show ?thesis
    unfolding confined_def
  proof (intro conjI)
    show "resolves_to (set_node (d @ es) nd f) ds d" by (rule resolves_to_mono[OF r le])
    show "nodes f0 \<subseteq>\<^sub>m nodes (set_node (d @ es) nd f)" by (rule map_le_trans[OF le0 le])
    show "fresh_inodes (set_node (d @ es) nd f)"
      using assms(1,4) by (auto simp: confined_def fresh_inodes_def set_node_def)
    show "only_links links d (set_node (d @ es) nd f)"
      using assms(1,3) by (auto simp: confined_def only_links_def set_node_def)
    show "same_outside f0 d (set_node (d @ es) nd f)"
      using assms(1) by (auto simp: confined_def same_outside_def set_node_def)
    show "unshared d own (set_node (d @ es) nd f)"
      using assms(1,4) unfolding confined_def unshared_def set_node_def by (auto simp: image_iff)
  qed
qed

lemma create_at_nodes: "create_at f base es nd = (r, f') \<Longrightarrow> nodes f \<subseteq>\<^sub>m nodes f'"
  by (auto simp: create_at_def set_node_def map_le_upd split: sum.splits if_splits)

lemma confined_create:
  assumes "confined links own f0 ds d f" and "clear links (butlast es)" and "es \<noteq> []"
    and "\<And>t. nd = Symlink t \<Longrightarrow> es \<in> links"
    and "\<And>i. nd = File i \<Longrightarrow> es \<notin> own \<and> (\<exists>p. p \<notin> own \<and> nodes f (d @ p) = Some (File i))"
    and "create_at f [] (ds @ es) nd = (r, f')"
  shows "confined links own f0 ds d f'"
proof (cases "place f [] (ds @ es)")
  case (Inr q)
  have q: "q = d @ es" by (rule confined_place(1)[OF assms(1-3) Inr])
  show ?thesis
  proof (cases "nodes f q")
    case None
    have "confined links own f0 ds d (set_node (d @ es) nd f)"
    proof (rule confined_new_node[OF assms(1)])
      show "nodes f (d @ es) = None" using None q by simp
      show "es \<in> links" if "nd = Symlink t" for t using assms(4) that by blast
      show "i < next_inode f \<and> (\<forall>q. nodes f q = Some (File i) \<longrightarrow> prefix d q \<and> q \<notin> (@) d ` own) \<and>
          (es \<in> own \<longrightarrow> (\<forall>q. nodes f q \<noteq> Some (File i)))" if nd: "nd = File i" for i
      proof -
        obtain p where p: "es \<notin> own" "p \<notin> own" "nodes f (d @ p) = Some (File i)"
          using assms(5)[OF nd] by blast
        have u: "unshared d own f" "fresh_inodes f" using assms(1) by (auto simp: confined_def)
        have "q \<notin> (@) d ` own" if q: "nodes f q = Some (File i)" for q
        proof
          assume "q \<in> (@) d ` own"
          then obtain p' where "q = d @ p'" "p' \<in> own" by blast
          then have "d @ p = d @ p'" using u(1) p(3) q unfolding unshared_def by metis
          then show False using p(2) \<open>p' \<in> own\<close> by simp
        qed
        then show ?thesis
          using u p unfolding unshared_def fresh_inodes_def by blast
      qed
    qed
    then show ?thesis using assms(6) Inr None q by (simp add: create_at_def)
  qed (use assms(1,6) Inr in \<open>simp add: create_at_def\<close>)
qed (use assms(1,6) in \<open>simp add: create_at_def\<close>)

lemma confined_mkdir_all:
  assumes "confined links own f0 ds d f" and "clear links es"
    and "mkdir_all f [] (rev (ds @ es)) = (r, f')"
  shows "confined links own f0 ds d f'"
  using assms(2,3)
proof (induction es arbitrary: r f' rule: rev_induct)
  case Nil
  have "mkdir_all f [] (rev ds) = (None, f)"
    using confined_lookup_dir[OF assms(1)] by (cases ds rule: rev_cases) auto
  then show ?case using Nil assms(1) by simp
next
  case (snoc e es)
  obtain r1 f1 where m: "mkdir_all f [] (rev (ds @ es)) = (r1, f1)" by fastforce
  have "clear links es" using snoc.prems(1) by (rule clear_appendD)
  from snoc.IH[OF this m] have c: "confined links own f0 ds d f1" .
  have "confined links own f0 ds d f2"
    if "create_at f1 [] (ds @ es @ [e]) Dir = (r2, f2)" for r2 f2
    by (rule confined_create[OF c _ _ _ _ that]) (use \<open>clear links es\<close> in simp_all)
  then show ?case
    using snoc.prems(2) m assms(1) c
    by (auto split: sum.splits node.splits option.splits)
qed

lemma mkdir_all_nodes: "mkdir_all f base rs = (r, f') \<Longrightarrow> nodes f \<subseteq>\<^sub>m nodes f'"
proof (induction f base rs arbitrary: r f' rule: mkdir_all.induct)
  case (2 f base e rs)
  then show ?case
    by (auto split: sum.splits node.splits option.splits prod.splits
        dest: create_at_nodes intro: map_le_trans)
qed simp

lemma confined_change_file:
  assumes "confined links own f0 ds d f" and "nodes f (d @ p) = Some (File i)"
  shows "confined links own f0 ds d (f\<lparr>inodes := (inodes f)(i := nd)\<rparr>)"
proof -
  let ?f = "f\<lparr>inodes := (inodes f)(i := nd)\<rparr>"
  have u: "unshared d own f" and o: "same_outside f0 d f"
    using assms(1) by (auto simp: confined_def)
  have "inodes ?f j = inodes f0 j" if "\<not> prefix d q" "nodes f q = Some (File j)" for q j
  proof -
    have "j \<noteq> i" using u assms(2) that unfolding unshared_def by blast
    then show ?thesis using o that by (simp add: same_outside_def)
  qed
  then have "same_outside f0 d ?f" using o by (simp add: same_outside_def)
  then show ?thesis
    using assms(1)
    by (simp add: confined_def resolves_to_def fresh_inodes_def only_links_def unshared_def)
qed

text \<open>A file that has just been created is where its path leads, and stays there.\<close>

lemma resolve_new_file:
  assumes "resolve ns n cur xs = Inr (m, q)" and "ns q = None"
  shows "resolve (ns(q \<mapsto> File i)) n cur xs = Inr (m, q)"
  using assms
  by (induction ns n cur xs rule: resolve.induct) (auto split: option.splits node.splits if_splits)

definition found_at :: "files \<Rightarrow> string list \<Rightarrow> string list \<Rightarrow> bool" where
  "found_at f es q \<longleftrightarrow> follow f [] es = Inr q \<and> nodes f q \<noteq> None"

lemma found_at_mono:
  assumes "found_at f es q" and "nodes f \<subseteq>\<^sub>m nodes f'"
  shows "found_at f' es q"
proof -
  obtain m nd where "resolve (nodes f) max_links [] es = Inr (m, q)" "nodes f q = Some nd"
    using assms(1) by (auto simp: found_at_def follow_def map_sum_def split: sum.splits)
  from resolve_mono[OF this assms(2)] map_le_Some[OF assms(2) this(2)]
  show ?thesis by (simp add: found_at_def follow_def)
qed

lemma found_at_lookup: "found_at f es q \<Longrightarrow> lookup f [] es = Inr (the (nodes f q))"
  by (auto simp: found_at_def lookup_def)

lemma confined_open:
  assumes "confined links own f0 ds d f" and "clear links es"
    and "open_trunc f [] (ds @ es) mode = Inr (i, f')"
  shows "confined links own f0 ds d f'" and "nodes f' (d @ es) = Some (File i)"
    and "i_data (inodes f' i) = []" and "found_at f' (ds @ es) (d @ es)"
proof -
  obtain q where q: "follow f [] (ds @ es) = Inr q"
    using assms(3) by (auto simp: open_trunc_def split: sum.splits)
  have qd: "q = d @ es" by (rule confined_follow[OF assms(1,2) q])
  have "confined links own f0 ds d f' \<and> nodes f' (d @ es) = Some (File i) \<and> i_data (inodes f' i) = [] \<and>
      found_at f' (ds @ es) (d @ es)"
  proof (cases "nodes f q")
    case None
    let ?n = "next_inode f"
    let ?g = "f\<lparr>next_inode := Suc ?n, inodes := (inodes f)(?n := \<lparr>i_data = [], i_mode = sys_mode mode\<rparr>)\<rparr>"
    have unused: "nodes f x \<noteq> Some (File ?n)" for x
      using assms(1) by (auto simp: confined_def fresh_inodes_def)
    have "confined links own f0 ds d ?g"
      using assms(1) unused
      by (auto simp: confined_def resolves_to_def fresh_inodes_def only_links_def unshared_def
          same_outside_def intro: less_SucI)
    then have c: "confined links own f0 ds d (set_node (d @ es) (File ?n) ?g)"
      by (rule confined_new_node) (use None qd unused in auto)
    have "follow (set_node (d @ es) (File ?n) ?g) [] (ds @ es) = Inr (d @ es)"
      using q None qd
      by (auto simp: follow_def set_node_def map_sum_def resolve_new_file split: sum.splits)
    then show ?thesis
      using assms(3) q None qd c by (auto simp: open_trunc_def Let_def found_at_def) (simp_all add: set_node_def)
  next
    case (Some nd)
    then obtain j where j: "nd = File j" "j = i"
        "f' = f\<lparr>inodes := (inodes f)(j := (inodes f j)\<lparr>i_data := []\<rparr>)\<rparr>"
      using assms(3) q by (auto simp: open_trunc_def split: node.splits)
    then show ?thesis
      using confined_change_file[OF assms(1)] Some qd q by (simp add: found_at_def follow_def)
  qed
  then show "confined links own f0 ds d f'" "nodes f' (d @ es) = Some (File i)"
    "i_data (inodes f' i) = []" "found_at f' (ds @ es) (d @ es)" by blast+
qed

lemma confined_append:
  assumes "confined links own f0 ds d f" and "nodes f (d @ p) = Some (File i)"
  shows "confined links own f0 ds d (append_data i t f)"
  using confined_change_file[OF assms] by (simp add: append_data_def)

lemma confined_write:
  assumes "confined links own f0 ds d f" and "clear links es"
    and "write_file f [] (ds @ es) t mode = (r, f')"
  shows "confined links own f0 ds d f' \<and>
    (r = None \<longrightarrow>
       (\<exists>i. nodes f' (d @ es) = Some (File i) \<and> i_data (inodes f' i) = t \<and> found_at f' (ds @ es) (d @ es)))"
proof (cases "open_trunc f [] (ds @ es) mode")
  case (Inr x)
  obtain i g where x: "x = (i, g)" by (cases x)
  note o = confined_open[OF assms(1,2) Inr[unfolded x]]
  have "confined links own f0 ds d (append_data i t g)" by (rule confined_append[OF o(1,2)])
  then show ?thesis
    using assms(3) Inr x o by (auto simp: write_file_def append_data_def found_at_def follow_def)
next
  case (Inl e)
  then show ?thesis using assms by (auto simp: write_file_def)
qed

lemma open_trunc_nodes: "open_trunc f base es mode = Inr (i, f') \<Longrightarrow> nodes f \<subseteq>\<^sub>m nodes f'"
  by (auto simp: open_trunc_def Let_def set_node_def map_le_upd split: sum.splits option.splits node.splits)

lemma write_file_nodes: "write_file f base es t mode = (r, f') \<Longrightarrow> nodes f \<subseteq>\<^sub>m nodes f'"
  by (auto simp: write_file_def append_data_def dest: open_trunc_nodes split: sum.splits)

end
