(* ===== verification/Image_Cache.thy ===== *)
theory Image_Cache imports Confinement Image_Config begin

text \<open>
  The cache of extracted images (internal/api/image_cache.go) and what is put into each of them
  (internal/cli/rootfs.go). The registry is outside: its answers, a digest and a stream of tar
  entries, are arguments. So is the group of the singleflight library, as the function that carries out a call for
  a key.
\<close>

section \<open>Preparing a root file system\<close>

datatype inject_error = Mkdir_Failed string errno | Read_Init_Failed errno | Write_Init_Failed errno

definition InjectInit :: "files \<Rightarrow> string \<Rightarrow> string \<Rightarrow> inject_error option \<times> files" where
  "InjectInit f rootfsDir initBinaryPath =
     (let binDir = path_join [rootfsDir, ''usr'', ''local'', ''bin''] in
      case os_MkdirAll f binDir of
        (Some e, f1) \<Rightarrow> (Some (Mkdir_Failed binDir e), f1)
      | (None, f1) \<Rightarrow>
          (case os_ReadFile f1 initBinaryPath of
             Inl e \<Rightarrow> (Some (Read_Init_Failed e), f1)
           | Inr data \<Rightarrow>
               (case os_WriteFile f1 (path_join [binDir, ''vminit'']) data 0x1ED of
                  (e, f2) \<Rightarrow> (map_option Write_Init_Failed e, f2))))"

definition resolv_conf :: string where
  "resolv_conf = ''options use-vc'' @ [CHR 0x0A] @ ''nameserver 192.168.127.1'' @ [CHR 0x0A]"

definition FixResolvConf :: "files \<Rightarrow> string \<Rightarrow> errno option \<times> files" where
  "FixResolvConf f rootfsDir =
     (let etcDir = path_join [rootfsDir, ''etc''] in
      case os_MkdirAll f etcDir of
        (Some e, f1) \<Rightarrow> (Some e, f1)
      | (None, f1) \<Rightarrow> os_WriteFile f1 (path_join [etcDir, ''resolv.conf'']) resolv_conf 0x1A4)"

section \<open>Extracting\<close>

datatype typeflag = TypeDir | TypeReg | TypeSymlink | TypeLink | TypeOther

record tar_header =
  hdr_Name :: string
  hdr_Typeflag :: typeflag
  hdr_Linkname :: string
  hdr_Mode :: int

text \<open>
  What the tar reader gives: an entry with the bytes it has and the error that ends them, if any,
  or an error in place of an entry; the stream ends with the list.
\<close>

datatype tar_item = Tar_Entry tar_header string "string option" | Tar_Failed string

datatype extract_error = Tar_Read string | Open_Failed errno | Copy_Failed string

definition entry_target :: "string \<Rightarrow> string \<Rightarrow> string" where
  "entry_target destDir name = path_join [destDir, path_clean (''/'' @ name)]"

definition extract_entry ::
  "string \<Rightarrow> tar_header \<Rightarrow> string \<Rightarrow> string option \<Rightarrow> files \<Rightarrow> extract_error option \<times> files" where
  "extract_entry destDir h bytes cerr f =
     (let target = entry_target destDir (hdr_Name h) in
      if \<not> prefix (destDir @ ''/'') (target @ ''/'') then (None, f)
      else
        (case hdr_Typeflag h of
           TypeDir \<Rightarrow> (None, snd (os_MkdirAll f target))
         | TypeReg \<Rightarrow>
             (let f1 = snd (os_MkdirAll f (path_dir target)) in
              case open_trunc f1 (start f1 target) (elems target) (word_of_int (hdr_Mode h)) of
                Inl e \<Rightarrow> (Some (Open_Failed e), f1)
              | Inr (i, f2) \<Rightarrow> (map_option Copy_Failed cerr, append_data i bytes f2))
         | TypeSymlink \<Rightarrow>
             (let f1 = snd (os_MkdirAll f (path_dir target))
              in (None, snd (os_Symlink f1 (hdr_Linkname h) target)))
         | TypeLink \<Rightarrow>
             (let linkTarget = entry_target destDir (hdr_Linkname h);
                  f1 = snd (os_MkdirAll f (path_dir target))
              in (None, snd (os_Link f1 linkTarget target)))
         | TypeOther \<Rightarrow> (None, f)))"

fun extractTar :: "string \<Rightarrow> tar_item list \<Rightarrow> files \<Rightarrow> extract_error option \<times> files" where
  "extractTar destDir [] f = (None, f)"
| "extractTar destDir (Tar_Failed e # items) f = (Some (Tar_Read e), f)"
| "extractTar destDir (Tar_Entry h bytes cerr # items) f =
     (case extract_entry destDir h bytes cerr f of
        (Some e, f') \<Rightarrow> (Some e, f')
      | (None, f') \<Rightarrow> extractTar destDir items f')"

section \<open>Ensure\<close>

record image_cache_dir =
  ic_cacheDir :: string
  ic_vminitPath :: string

datatype ensure_error =
    Resolve_Digest string
  | Pull_Image string
  | Create_Cache_Dir errno
  | Extract_Image extract_error
  | Inject_Init inject_error
  | Fix_Resolv errno

definition NewImageCache :: "files \<Rightarrow> string \<Rightarrow> string \<Rightarrow> (errno + image_cache_dir) \<times> files" where
  "NewImageCache f cacheDir vminitPath =
     (case os_MkdirAll f cacheDir of
        (Some e, f1) \<Rightarrow> (Inl e, f1)
      | (None, f1) \<Rightarrow> (Inr \<lparr>ic_cacheDir = cacheDir, ic_vminitPath = vminitPath\<rparr>, f1))"

definition image_dir :: "image_cache_dir \<Rightarrow> string \<Rightarrow> string \<Rightarrow> string" where
  "image_dir ic imageRef digest = path_join [ic_cacheDir ic, imageName imageRef, shortSHA digest]"

text \<open>From the extraction on; an error removes the directory.\<close>

definition populate :: "image_cache_dir \<Rightarrow> string \<Rightarrow> tar_item list \<Rightarrow> files \<Rightarrow> ensure_error option \<times> files" where
  "populate ic dir items f =
     (case extractTar dir items f of
        (Some e, f1) \<Rightarrow> (Some (Extract_Image e), os_RemoveAll f1 dir)
      | (None, f1) \<Rightarrow>
          (case InjectInit f1 dir (ic_vminitPath ic) of
             (Some e, f2) \<Rightarrow> (Some (Inject_Init e), os_RemoveAll f2 dir)
           | (None, f2) \<Rightarrow>
               (case FixResolvConf f2 dir of
                  (Some e, f3) \<Rightarrow> (Some (Fix_Resolv e), os_RemoveAll f3 dir)
                | (None, f3) \<Rightarrow> (None, f3))))"

text \<open>The function that \<open>Ensure\<close> gives to the group.\<close>

definition fetch ::
  "image_cache_dir \<Rightarrow> string \<Rightarrow> string + tar_item list \<Rightarrow> files \<Rightarrow> ensure_error option \<times> files" where
  "fetch ic dir pulled f =
     (case os_Stat f dir of
        Inr nd \<Rightarrow> (None, f)
      | Inl _ \<Rightarrow>
          (case pulled of
             Inl e \<Rightarrow> (Some (Pull_Image e), f)
           | Inr items \<Rightarrow>
               (case os_MkdirAll f dir of
                  (Some e, f1) \<Rightarrow> (Some (Create_Cache_Dir e), f1)
                | (None, f1) \<Rightarrow> populate ic dir items f1)))"

type_synonym flight_group =
  "string \<Rightarrow> (files \<Rightarrow> ensure_error option \<times> files) \<Rightarrow> files \<Rightarrow> ensure_error option \<times> files"

definition Ensure ::
  "flight_group \<Rightarrow> image_cache_dir \<Rightarrow> (string \<Rightarrow> string + string) \<Rightarrow> (string \<Rightarrow> string + tar_item list)
     \<Rightarrow> string \<Rightarrow> files \<Rightarrow> (ensure_error + string) \<times> files" where
  "Ensure Do_group ic crane_Digest crane_Pull imageRef f =
     (case crane_Digest imageRef of
        Inl e \<Rightarrow> (Inl (Resolve_Digest e), f)
      | Inr digest \<Rightarrow>
          (let dir = image_dir ic imageRef digest in
           case os_Stat f dir of
             Inr nd \<Rightarrow> (Inr dir, f)
           | Inl _ \<Rightarrow>
               (case Do_group digest (fetch ic dir (crane_Pull imageRef)) f of
                  (Some e, f') \<Rightarrow> (Inl e, f')
                | (None, f') \<Rightarrow> (Inr dir, f'))))"

text \<open>
  What the library documents of \<open>Do\<close>: a call runs its function, unless a call for the same key is in
  flight; then it waits for that one and gets its result.
\<close>

definition alone :: flight_group where
  "alone digest run f = run f"

definition joining :: "ensure_error option \<times> files \<Rightarrow> flight_group" where
  "joining flight digest run f = flight"

section \<open>Images whose links are not in the way\<close>

text \<open>The place of an entry below the directory, and those of a stream's symbolic links.\<close>

definition entry_place :: "tar_header \<Rightarrow> string list" where
  "entry_place h = root_elems (hdr_Name h)"

fun symlink_place :: "tar_item \<Rightarrow> string list set" where
  "symlink_place (Tar_Entry h bytes cerr) = (if hdr_Typeflag h = TypeSymlink then {entry_place h} else {})"
| "symlink_place (Tar_Failed e) = {}"

definition link_places :: "tar_item list \<Rightarrow> string list set" where
  "link_places items = \<Union> (symlink_place ` set items)"

text \<open>
  An entry that does not go through a link of the image: no link is on its path, or on the
  path of what a hard link names; a link is at the end of its own only. Hard links leave the
  places in \<open>own\<close> alone.
\<close>

fun no_detour :: "string list set \<Rightarrow> string list set \<Rightarrow> tar_item \<Rightarrow> bool" where
  "no_detour own links (Tar_Failed e) = True"
| "no_detour own links (Tar_Entry h bytes cerr) =
     (let es = entry_place h; old = root_elems (hdr_Linkname h) in
      case hdr_Typeflag h of
        TypeDir \<Rightarrow> clear links es
      | TypeReg \<Rightarrow> es \<noteq> [] \<and> clear links es
      | TypeSymlink \<Rightarrow> es \<noteq> [] \<and> clear links (butlast es)
      | TypeLink \<Rightarrow> es \<noteq> [] \<and> clear links (butlast es) \<and> es \<notin> own \<and> clear links old \<and> old \<notin> own
      | TypeOther \<Rightarrow> True)"

lemma entry_target_abs:
  assumes "ds \<noteq> []" "plain_list ds"
  shows "entry_target (abs_path ds) name = abs_path (ds @ root_elems name)"
  unfolding entry_target_def path_clean_root using assms by (rule path_join_abs_abs) simp

text \<open>Names alone cannot leave the directory: the guard of the extraction never fires.\<close>

lemma guard_passes:
  assumes "ds \<noteq> []" "plain_list ds"
  shows "prefix (abs_path ds @ ''/'') (entry_target (abs_path ds) name @ ''/'')"
  using assms abs_path_prefix by (simp add: entry_target_abs)

lemma parent_abs:
  assumes "plain_list (ds @ es)" "es \<noteq> []"
  shows "path_dir (abs_path (ds @ es)) = abs_path (ds @ butlast es)"
proof -
  have "ds @ es = (ds @ butlast es) @ [last es]" using assms(2) by simp
  then show ?thesis using path_dir_abs[of "ds @ butlast es" "last es"] assms(1) by metis
qed

lemma confined_os_MkdirAll:
  assumes "confined links own f0 ds d f" and "clear links es" and "plain_list ds"
  shows "confined links own f0 ds d (snd (os_MkdirAll f (abs_path (ds @ es))))"
proof -
  have "plain_list (ds @ es)" using assms(2,3) by (simp add: clear_def)
  then show ?thesis
    using confined_mkdir_all[OF assms(1,2)]
    by (cases "mkdir_all f [] (rev (ds @ es))") (simp add: os_MkdirAll_def)
qed

text \<open>An entry below an absolute directory, with its guard gone.\<close>

lemma extract_entry_abs:
  assumes "ds \<noteq> []" "plain_list ds"
  shows "extract_entry (abs_path ds) h bytes cerr f =
    (let target = abs_path (ds @ entry_place h); f1 = snd (os_MkdirAll f (path_dir target)) in
     case hdr_Typeflag h of
       TypeDir \<Rightarrow> (None, snd (os_MkdirAll f target))
     | TypeReg \<Rightarrow>
         (case open_trunc f1 [] (ds @ entry_place h) (word_of_int (hdr_Mode h)) of
            Inl e \<Rightarrow> (Some (Open_Failed e), f1)
          | Inr (i, f2) \<Rightarrow> (map_option Copy_Failed cerr, append_data i bytes f2))
     | TypeSymlink \<Rightarrow> (None, snd (create_at f1 [] (ds @ entry_place h) (Symlink (hdr_Linkname h))))
     | TypeLink \<Rightarrow> (None, snd (os_Link f1 (abs_path (ds @ root_elems (hdr_Linkname h))) target))
     | TypeOther \<Rightarrow> (None, f))"
proof -
  have "elems (abs_path (ds @ entry_place h)) = ds @ entry_place h"
    using assms by (simp add: entry_place_def)
  moreover have "entry_target (abs_path ds) n = abs_path (ds @ root_elems n)" for n
    by (rule entry_target_abs[OF assms])
  ultimately show ?thesis
    using guard_passes[OF assms, of "hdr_Name h"]
    unfolding extract_entry_def os_Symlink_def entry_place_def
    by (cases "hdr_Typeflag h") (simp_all del: prefix_snoc append.simps add: Let_def)
qed

lemma confined_entry:
  assumes c: "confined links own f0 ds d f" and ds: "ds \<noteq> []" "plain_list ds"
    and n: "no_detour own links (Tar_Entry h bytes cerr)"
    and l: "symlink_place (Tar_Entry h bytes cerr) \<subseteq> links"
    and e: "extract_entry (abs_path ds) h bytes cerr f = (r, f')"
  shows "confined links own f0 ds d f'"
proof -
  define es where "es = entry_place h"
  define old where "old = root_elems (hdr_Linkname h)"
  have plain: "plain_list (ds @ es)" "plain_list (ds @ old)"
    using ds by (simp_all add: es_def old_def entry_place_def)
  note ee = e[unfolded extract_entry_abs[OF ds] Let_def, folded es_def old_def]
  define f1 where "f1 = snd (os_MkdirAll f (path_dir (abs_path (ds @ es))))"
  have c1: "confined links own f0 ds d f1" if "es \<noteq> []" "clear links (butlast es)"
    using confined_os_MkdirAll[OF c that(2) ds(2)] parent_abs[OF plain(1) that(1)] by (simp add: f1_def)
  show ?thesis
  proof (cases "hdr_Typeflag h")
    case TypeDir
    then show ?thesis
      using ee n confined_os_MkdirAll[OF c _ ds(2), of es] by (simp add: Let_def es_def)
  next
    case TypeReg
    then have es: "es \<noteq> []" "clear links es" using n by (simp_all add: Let_def es_def)
    note c1 = c1[OF es(1) clear_butlast[OF es(2)]]
    show ?thesis
    proof (cases "open_trunc f1 [] (ds @ es) (word_of_int (hdr_Mode h))")
      case (Inl x)
      then show ?thesis using ee TypeReg c1 plain by (simp add: Let_def f1_def)
    next
      case (Inr x)
      obtain i g where x: "x = (i, g)" by (cases x)
      note o = confined_open[OF c1 es(2) Inr[unfolded x]]
      from confined_append[OF o(1,2)] show ?thesis
        using ee TypeReg Inr x plain by (auto simp: Let_def f1_def)
    qed
  next
    case TypeSymlink
    then have es: "es \<noteq> []" "clear links (butlast es)" "es \<in> links"
      using n l by (simp_all add: Let_def es_def)
    obtain r' f2 where k: "create_at f1 [] (ds @ es) (Symlink (hdr_Linkname h)) = (r', f2)" by fastforce
    have "confined links own f0 ds d f2"
      by (rule confined_create[OF c1[OF es(1,2)] es(2,1) _ _ k]) (use es(3) in simp_all)
    then show ?thesis using ee TypeSymlink k plain by (simp add: f1_def)
  next
    case TypeLink
    then have es: "es \<noteq> []" "clear links (butlast es)" "es \<notin> own" "clear links old" "old \<notin> own"
      using n by (simp_all add: Let_def es_def old_def)
    note c1 = c1[OF es(1,2)]
    show ?thesis
    proof (cases "\<exists>i. lookup f1 [] (ds @ old) = Inr (File i)")
      case True
      then obtain i where i: "lookup f1 [] (ds @ old) = Inr (File i)" by blast
      then obtain q where q: "follow f1 [] (ds @ old) = Inr q" "nodes f1 q = Some (File i)"
        by (auto simp: lookup_def split: sum.splits option.splits)
      then have "nodes f1 (d @ old) = Some (File i)" using confined_follow[OF c1 es(4)] by blast
      moreover obtain r' f2 where k: "create_at f1 [] (ds @ es) (File i) = (r', f2)" by fastforce
      ultimately have "confined links own f0 ds d f2"
        using es(3,5) by (intro confined_create[OF c1 es(2,1) _ _ k]) auto
      then show ?thesis using ee TypeLink k plain i by (simp add: Let_def f1_def os_Link_def os_Stat_def)
    next
      case False
      then show ?thesis using ee TypeLink plain c1
        by (cases "lookup f1 [] (ds @ old)")
          (auto simp: Let_def f1_def os_Link_def os_Stat_def split: node.splits)
    qed
  qed (use ee c in \<open>simp add: Let_def\<close>)
qed

lemma confined_extract:
  assumes "confined links own f0 ds d f" and "ds \<noteq> []" "plain_list ds"
    and "list_all (no_detour own links) items" and "link_places items \<subseteq> links"
    and "extractTar (abs_path ds) items f = (r, f')"
  shows "confined links own f0 ds d f'"
  using assms(1,4,5,6)
proof (induction items arbitrary: f)
  case (Cons it items)
  show ?case
  proof (cases it)
  case (Tar_Entry h bytes cerr)
  obtain r1 f1 where e: "extract_entry (abs_path ds) h bytes cerr f = (r1, f1)" by fastforce
  have "confined links own f0 ds d f1"
    by (rule confined_entry[OF Cons(2) assms(2,3) _ _ e])
       (use Cons(3,4) Tar_Entry in \<open>auto simp: link_places_def\<close>)
  then show ?thesis
    using Cons Tar_Entry e by (cases r1) (auto simp: link_places_def)
  qed (use Cons in simp)
qed simp

section \<open>A new directory\<close>

definition wf_files :: "files \<Rightarrow> bool" where
  "wf_files f \<longleftrightarrow>
     nodes f [] = Some Dir \<and> (\<forall>q e. nodes f (q @ [e]) \<noteq> None \<longrightarrow> nodes f q = Some Dir) \<and> fresh_inodes f"

lemma nothing_below: "wf_files f \<Longrightarrow> nodes f q = None \<Longrightarrow> nodes f (q @ p) = None"
proof (induction p rule: rev_induct)
  case (snoc e p)
  then show ?case unfolding wf_files_def by (metis append_assoc option.distinct(1))
qed simp

lemma wf_create_dir:
  assumes "wf_files f" and "create_at f [] es Dir = (r, f')"
  shows "wf_files f' \<and> inodes f' = inodes f"
proof (cases "r = None")
  case True
  then obtain q where q: "place f [] es = Inr q" "nodes f q = None" "f' = set_node q Dir f"
    using assms(2) by (auto simp: create_at_def split: sum.splits if_splits)
  then have "es \<noteq> []" using assms(1) by (auto simp: place_def wf_files_def)
  then obtain q0 where q0: "nodes f q0 = Some Dir" "q = q0 @ [last es]"
    using q(1) by (auto simp: place_def split: sum.splits option.splits node.splits)
  then show ?thesis
    using assms(1) q by (auto simp: wf_files_def fresh_inodes_def set_node_def)
qed (use assms in \<open>auto simp: create_at_def split: sum.splits if_splits\<close>)

lemma wf_mkdir_all:
  assumes "wf_files f" and "mkdir_all f [] rs = (r, f')"
  shows "wf_files f' \<and> inodes f' = inodes f"
  using assms(2)
proof (induction rs arbitrary: r f')
  case (Cons e rs)
  obtain r1 f1 where m: "mkdir_all f [] rs = (r1, f1)" by fastforce
  have "wf_files f1 \<and> inodes f1 = inodes f" by (rule Cons.IH[OF m])
  then show ?case
    using Cons.prems m assms(1) wf_create_dir[of f1 "rev (e # rs)" r f']
    by (auto split: sum.splits node.splits option.splits)
qed (use assms(1) in simp)

text \<open>What \<open>MkdirAll\<close> leaves when it has made the directory: the state \<open>g\<close> before the last step.\<close>

definition new_dir :: "files \<Rightarrow> string list \<Rightarrow> string list \<Rightarrow> files \<Rightarrow> bool" where
  "new_dir g ds d f' \<longleftrightarrow>
     wf_files g \<and> ds \<noteq> [] \<and> (\<exists>n. resolve (nodes g) max_links [] (butlast ds) = Inr (n, butlast d)) \<and>
     nodes g (butlast d) = Some Dir \<and> d \<noteq> [] \<and> last d = last ds \<and> nodes g d = None \<and>
     f' = set_node d Dir g"

lemma mkdir_all_new_dir:
  assumes "wf_files f" and "es \<noteq> []" and "lookup f [] es = Inl e0"
    and "mkdir_all f [] (rev es) = (None, f')"
  obtains g d where "new_dir g es d f'" and "nodes f \<subseteq>\<^sub>m nodes g" and "inodes g = inodes f"
proof -
  have es: "rev es = last es # rev (butlast es)"
    using assms(2) by (metis append_butlast_last_id rev.simps(2) rev_rev_ident rev_append rev_singleton_conv append_Cons append_Nil)
  obtain g where g: "mkdir_all f [] (rev (butlast es)) = (None, g)" "create_at g [] es Dir = (None, f')"
    using assms(3,4) es by (auto simp: assms(2) split: prod.splits option.splits)
  have w: "wf_files g" "inodes g = inodes f" using wf_mkdir_all[OF assms(1) g(1)] by auto
  obtain q where q: "place g [] es = Inr q" "nodes g q = None" "f' = set_node q Dir g"
    using g(2) by (auto simp: create_at_def split: sum.splits if_splits)
  then obtain q0 where q0: "follow g [] (butlast es) = Inr q0" "nodes g q0 = Some Dir" "q = q0 @ [last es]"
    using assms(2) by (auto simp: place_def split: sum.splits option.splits node.splits)
  then have "new_dir g es q f'"
    using w q assms(2) by (auto simp: new_dir_def follow_def map_sum_def split: sum.splits)
  then show thesis using that mkdir_all_nodes[OF g(1)] w(2) by blast
qed

lemma new_dir_confined:
  assumes "new_dir g ds d f" and "plain_list ds"
  shows "confined links own f ds d f" and "nodes f (d @ p) = (if p = [] then Some Dir else None)"
proof -
  obtain n where n: "resolve (nodes g) max_links [] (butlast ds) = Inr (n, butlast d)"
      "nodes g (butlast d) = Some Dir" "nodes g d = None" "wf_files g" "f = set_node d Dir g"
      "ds \<noteq> []" "d \<noteq> []" "last d = last ds"
    using assms(1) by (auto simp: new_dir_def)
  have le: "nodes g \<subseteq>\<^sub>m nodes f" using n(3,5) by (simp add: set_node_def map_le_upd)
  have d: "d = butlast d @ [last ds]" using n(7,8) append_butlast_last_id[of d] by simp
  have "plain_elem (last ds)" using assms(2) n(6) by (auto simp: list_all_iff)
  moreover have "nodes f d = Some Dir" by (simp add: n(5) set_node_def)
  ultimately have "resolve (nodes f) n (butlast d) [last ds] = Inr (n, d)"
    using d by (auto simp: plain_elem_def)
  then have "resolve (nodes f) max_links [] (butlast ds @ [last ds]) = Inr (n, d)"
    using resolve_append[OF resolve_mono[OF n(1,2) le] map_le_Some[OF le n(2)]] by simp
  then have r: "resolves_to f ds d"
    using n(6) \<open>nodes f d = Some Dir\<close> by (auto simp: resolves_to_def)
  show below: "nodes f (d @ p) = (if p = [] then Some Dir else None)" for p
    using nothing_below[OF n(4,3)] n(5) by (auto simp: set_node_def)
  have "fresh_inodes f" using n(4,5) by (auto simp: wf_files_def fresh_inodes_def set_node_def)
  then show "confined links own f ds d f"
    using r below
    by (auto simp: confined_def only_links_def same_outside_def unshared_def split: if_splits)
qed

lemma RemoveAll_new_dir:
  assumes "new_dir g ds d f1" and "confined links own f1 ds d f" and "plain_list ds"
  shows "\<exists>e. os_Stat (os_RemoveAll f (abs_path ds)) (abs_path ds) = Inl e" and
    "\<not> prefix d q \<Longrightarrow> nodes (os_RemoveAll f (abs_path ds)) q = nodes f q" and
    "inodes (os_RemoveAll f (abs_path ds)) = inodes f"
proof -
  obtain n where n: "resolve (nodes g) max_links [] (butlast ds) = Inr (n, butlast d)"
      "nodes g (butlast d) = Some Dir" "nodes g d = None" "wf_files g" "f1 = set_node d Dir g"
      "ds \<noteq> []" "d \<noteq> []" "last d = last ds"
    using assms(1) by (auto simp: new_dir_def)
  have le: "nodes g \<subseteq>\<^sub>m nodes f"
    using assms(2) n(3,5) by (auto simp: confined_def set_node_def intro: map_le_trans map_le_upd)
  have d: "d = butlast d @ [last ds]" using n(7,8) append_butlast_last_id[of d] by simp
  have "place f [] ds = Inr d"
    using resolve_mono[OF n(1,2) le] map_le_Some[OF le n(2)] n(6) d
    by (simp add: place_def follow_def)
  then have rm: "os_RemoveAll f (abs_path ds) = f\<lparr>nodes := (\<lambda>x. if prefix d x then None else nodes f x)\<rparr>"
    using assms(3) by (simp add: os_RemoveAll_def)
  let ?h = "os_RemoveAll f (abs_path ds)"
  have "nodes g \<subseteq>\<^sub>m nodes ?h"
    using le nothing_below[OF n(4,3)] by (auto simp: map_le_def rm prefix_def)
  note h = resolve_mono[OF n(1,2) this] map_le_Some[OF this n(2)]
  have "plain_elem (last ds)" using assms(3) n(6) by (auto simp: list_all_iff)
  moreover have "nodes ?h d = None" by (simp add: rm)
  ultimately have "resolve (nodes ?h) n (butlast d) [last ds] = Inr (n, d)"
    using d by (auto simp: plain_elem_def)
  then have "resolve (nodes ?h) max_links [] (butlast ds @ [last ds]) = Inr (n, d)"
    using resolve_append[OF h] by simp
  then have "follow ?h [] ds = Inr d" using n(6) by (simp add: follow_def)
  then show "\<exists>e. os_Stat ?h (abs_path ds) = Inl e"
    using assms(3) \<open>nodes ?h d = None\<close> by (simp add: os_Stat_def lookup_def)
  show "\<not> prefix d q \<Longrightarrow> nodes ?h q = nodes f q" "inodes ?h = inodes f" by (simp_all add: rm)
qed

section \<open>A populated directory\<close>

definition init_place :: "string list" where
  "init_place = [''usr'', ''local'', ''bin'', ''vminit'']"

definition resolv_place :: "string list" where
  "resolv_place = [''etc'', ''resolv.conf'']"

text \<open>No link of the image lies on the paths of the two files, and no hard link names the second.\<close>

definition well_behaved :: "tar_item list \<Rightarrow> bool" where
  "well_behaved items \<longleftrightarrow>
     list_all (no_detour {resolv_place} (link_places items)) items \<and>
     clear (link_places items) init_place \<and> clear (link_places items) resolv_place"

lemma plain_places: "plain_list init_place" "plain_list resolv_place"
  by (simp_all add: init_place_def resolv_place_def plain_elem_def)

lemma join_place:
  assumes "ds \<noteq> []" "plain_list (ds @ es)"
  shows "path_join (abs_path ds # es) = abs_path (ds @ es)"
  using assms path_join_abs by simp

text \<open>A file of the host is read as before.\<close>

lemma host_file_stable:
  assumes "os_ReadFile f p = Inr t" and "is_rooted p" and "nodes f \<subseteq>\<^sub>m nodes f1"
    and "inodes f1 = inodes f" and "\<And>x. nodes f (d @ x) = None" and "confined links own f1 ds d f'"
  shows "os_ReadFile f' p = Inr t"
proof -
  obtain i q where i: "follow f [] (elems p) = Inr q" "nodes f q = Some (File i)" "t = i_data (inodes f i)"
    using assms(1,2)
    by (auto simp: os_ReadFile_def os_Stat_def lookup_def start_def split: sum.splits option.splits node.splits)
  have le: "nodes f \<subseteq>\<^sub>m nodes f'"
    using assms(3,6) by (auto simp: confined_def intro: map_le_trans)
  have "found_at f (elems p) q" using i by (simp add: found_at_def)
  from found_at_lookup[OF found_at_mono[OF this le]] map_le_Some[OF le i(2)]
  have l: "lookup f' [] (elems p) = Inr (File i)" by simp
  have "\<not> prefix d q" using assms(5) i(2) by (auto simp: prefix_def)
  then have "inodes f' i = inodes f1 i"
    using assms(6) map_le_Some[OF le i(2)] by (auto simp: confined_def same_outside_def)
  then show ?thesis
    using l i assms(2,4) by (simp add: os_ReadFile_def os_Stat_def start_def)
qed

lemma write_file_others:
  assumes "write_file f base es t mode = (r, f')" and "nodes f' q = Some (File j)"
    and "follow f base es = Inr q" and "i \<noteq> j" and "i < next_inode f"
  shows "inodes f' i = inodes f i"
  using assms
  by (auto simp: write_file_def open_trunc_def append_data_def set_node_def Let_def
      split: sum.splits option.splits node.splits)

lemma mkdir_all_inodes: "mkdir_all f base rs = (r, f') \<Longrightarrow> inodes f' = inodes f"
  by (induction f base rs arbitrary: r f' rule: mkdir_all.induct)
    (auto simp: create_at_def set_node_def split: sum.splits node.splits option.splits prod.splits if_splits)

lemma confined_inject:
  assumes c: "confined links own f0 ds d f" and ds: "ds \<noteq> []" "plain_list ds"
    and cl: "clear links init_place" and i: "InjectInit f (abs_path ds) vp = (r, f')"
    and rd: "\<And>f'. confined links own f0 ds d f' \<Longrightarrow> os_ReadFile f' vp = Inr t"
  shows "confined links own f0 ds d f' \<and>
    (r = None \<longrightarrow> (\<exists>i. nodes f' (d @ init_place) = Some (File i) \<and> i_data (inodes f' i) = t \<and>
       found_at f' (ds @ init_place) (d @ init_place)))"
proof -
  let ?bin = "[''usr'', ''local'', ''bin'']"
  have b: "init_place = ?bin @ [''vminit'']" by (simp add: init_place_def)
  have plain: "plain_list (ds @ ?bin)" "plain_list (ds @ init_place)"
    using ds plain_places by (simp_all add: plain_elem_def)
  have j: "path_join [abs_path ds, ''usr'', ''local'', ''bin''] = abs_path (ds @ ?bin)"
    "path_join [abs_path (ds @ ?bin), ''vminit''] = abs_path (ds @ init_place)"
    using join_place[OF ds(1) plain(1)] join_place[of "ds @ ?bin" "[''vminit'']"] plain ds(1)
    by (simp_all add: b plain_elem_def)
  obtain r1 f1 where m: "os_MkdirAll f (abs_path (ds @ ?bin)) = (r1, f1)" by fastforce
  have c1: "confined links own f0 ds d f1"
    using confined_os_MkdirAll[OF c _ ds(2), of ?bin] clear_appendD[OF cl[unfolded b]] m by simp
  show ?thesis
  proof (cases r1)
    case None
    obtain r2 f2 where w: "os_WriteFile f1 (abs_path (ds @ init_place)) t 0x1ED = (r2, f2)" by fastforce
    then have "write_file f1 [] (ds @ init_place) t 0x1ED = (r2, f2)"
      using plain by (simp add: os_WriteFile_def)
    from confined_write[OF c1 cl this] show ?thesis
      using i m None w j rd[OF c1] by (auto simp: InjectInit_def Let_def)
  qed (use i m j c1 in \<open>auto simp: InjectInit_def Let_def\<close>)
qed

lemma confined_fix:
  assumes c: "confined links {resolv_place} f0 ds d f" and ds: "ds \<noteq> []" "plain_list ds"
    and cl: "clear links resolv_place" and i: "FixResolvConf f (abs_path ds) = (r, f')"
  shows "confined links {resolv_place} f0 ds d f' \<and> nodes f \<subseteq>\<^sub>m nodes f' \<and>
    (r = None \<longrightarrow> (\<exists>i. nodes f' (d @ resolv_place) = Some (File i) \<and> i_data (inodes f' i) = resolv_conf \<and>
       found_at f' (ds @ resolv_place) (d @ resolv_place)) \<and>
     (\<forall>q i. nodes f q = Some (File i) \<longrightarrow> q \<noteq> d @ resolv_place \<longrightarrow> inodes f' i = inodes f i))"
proof -
  have b: "resolv_place = [''etc''] @ [''resolv.conf'']" by (simp add: resolv_place_def)
  have plain: "plain_list (ds @ [''etc''])" "plain_list (ds @ resolv_place)"
    using ds plain_places by (simp_all add: plain_elem_def)
  have j: "path_join [abs_path ds, ''etc''] = abs_path (ds @ [''etc''])"
    "path_join [abs_path (ds @ [''etc'']), ''resolv.conf''] = abs_path (ds @ resolv_place)"
    using join_place[OF ds(1) plain(1)] join_place[of "ds @ [''etc'']" "[''resolv.conf'']"] plain ds(1)
    by (simp_all add: b plain_elem_def)
  obtain r1 f1 where m: "os_MkdirAll f (abs_path (ds @ [''etc''])) = (r1, f1)" by fastforce
  then have m': "mkdir_all f [] (rev (ds @ [''etc''])) = (r1, f1)"
    using plain(1) by (simp add: os_MkdirAll_def)
  have c1: "confined links {resolv_place} f0 ds d f1"
    using confined_os_MkdirAll[OF c _ ds(2), of "[''etc'']"] clear_appendD[OF cl[unfolded b]] m by simp
  have le1: "nodes f \<subseteq>\<^sub>m nodes f1" "inodes f1 = inodes f"
    using mkdir_all_nodes[OF m'] mkdir_all_inodes[OF m'] by simp_all
  show ?thesis
  proof (cases r1)
    case None
    obtain r2 f2 where "os_WriteFile f1 (abs_path (ds @ resolv_place)) resolv_conf 0x1A4 = (r2, f2)"
      by fastforce
    then have w: "write_file f1 [] (ds @ resolv_place) resolv_conf 0x1A4 = (r2, f2)" "r2 = r" "f2 = f'"
      using plain i m None j by (auto simp: os_WriteFile_def FixResolvConf_def Let_def)
    note cw = confined_write[OF c1 cl w(1)]
    have le: "nodes f \<subseteq>\<^sub>m nodes f'"
      using le1(1) write_file_nodes[OF w(1)] w(3) by (auto intro: map_le_trans)
    have "inodes f' i = inodes f i"
      if r: "r = None" and q: "nodes f q = Some (File i)" "q \<noteq> d @ resolv_place" for q i
    proof -
      obtain k where k: "nodes f' (d @ resolv_place) = Some (File k)" using cw r w by auto
      have "unshared d {resolv_place} f'" using cw w by (auto simp: confined_def)
      then have ne: "i \<noteq> k" using k map_le_Some[OF le q(1)] q(2) unfolding unshared_def by blast
      have "\<exists>x. follow f1 [] (ds @ resolv_place) = Inr x"
        using w r by (auto simp: write_file_def open_trunc_def split: sum.splits)
      then have fl: "follow f1 [] (ds @ resolv_place) = Inr (d @ resolv_place)"
        using confined_follow[OF c1 cl] by blast
      have "i < next_inode f1"
        using c1 map_le_Some[OF le1(1) q(1)] by (auto simp: confined_def fresh_inodes_def)
      from write_file_others[OF w(1) _ fl ne this] k w le1(2) show ?thesis by simp
    qed
    then show ?thesis using cw w le by auto
  qed (use i m j c1 le1 in \<open>auto simp: FixResolvConf_def Let_def\<close>)
qed

text \<open>
  The directory \<open>ds\<close>, which leads to \<open>d\<close>, has both files, and their paths lead to them.
\<close>

definition holds_file :: "files \<Rightarrow> string list \<Rightarrow> string list \<Rightarrow> string list \<Rightarrow> string \<Rightarrow> bool" where
  "holds_file f ds d p t \<longleftrightarrow>
     (\<exists>i. nodes f (d @ p) = Some (File i) \<and> i_data (inodes f i) = t \<and> found_at f (ds @ p) (d @ p))"

definition populated :: "string list \<Rightarrow> string list \<Rightarrow> string \<Rightarrow> files \<Rightarrow> bool" where
  "populated ds d t f \<longleftrightarrow>
     resolves_to f ds d \<and> fresh_inodes f \<and>
     holds_file f ds d init_place t \<and> holds_file f ds d resolv_place resolv_conf"

lemma holds_file_read:
  assumes "holds_file f ds d p t" "plain_list (ds @ p)"
  shows "os_ReadFile f (abs_path (ds @ p)) = Inr t"
  using assms by (auto simp: holds_file_def os_ReadFile_def os_Stat_def dest!: found_at_lookup)

lemma populated_reads:
  assumes "populated ds d t f" "plain_list ds"
  shows "os_ReadFile f (abs_path (ds @ init_place)) = Inr t \<and>
    os_ReadFile f (abs_path (ds @ resolv_place)) = Inr resolv_conf"
  using assms plain_places by (auto simp: populated_def intro!: holds_file_read)

text \<open>The two files, written into a directory that an image has been extracted into.\<close>

lemma confined_finish:
  assumes c: "confined links {resolv_place} f0 ds d f" and ds: "ds \<noteq> []" "plain_list ds"
    and cl: "clear links init_place" "clear links resolv_place"
    and i: "InjectInit f (abs_path ds) vp = (None, f3)" and x: "FixResolvConf f3 (abs_path ds) = (None, f4)"
    and rd: "\<And>h. confined links {resolv_place} f0 ds d h \<Longrightarrow> os_ReadFile h vp = Inr t"
  shows "populated ds d t f4"
proof -
  note c3 = confined_inject[OF c ds cl(1) i rd]
  note c4 = confined_fix[OF conjunct1[OF c3] ds cl(2) x]
  obtain i where i3: "nodes f3 (d @ init_place) = Some (File i)" "i_data (inodes f3 i) = t"
      "found_at f3 (ds @ init_place) (d @ init_place)" using c3 by blast
  have le: "nodes f3 \<subseteq>\<^sub>m nodes f4" using c4 by blast
  have ne: "d @ init_place \<noteq> d @ resolv_place" by (simp add: init_place_def resolv_place_def)
  have "inodes f4 i = inodes f3 i" using c4 i3(1) ne by blast
  then have "holds_file f4 ds d init_place t"
    using found_at_mono[OF i3(3) le] map_le_Some[OF le i3(1)] i3(2) by (simp add: holds_file_def)
  moreover have "holds_file f4 ds d resolv_place resolv_conf" using c4 by (simp add: holds_file_def)
  ultimately show ?thesis using c4 by (simp add: populated_def confined_def)
qed

text \<open>
  A stream extracted into the directory, vminit and resolv.conf: when all has gone well both files
  are there, otherwise the directory is gone; the host's files are the same in both cases.
\<close>

lemma populate_spec:
  assumes nd: "new_dir g ds d f1" and ds: "plain_list ds" and wb: "well_behaved items"
    and rd: "os_ReadFile f (ic_vminitPath ic) = Inr t" "is_rooted (ic_vminitPath ic)"
      "nodes f \<subseteq>\<^sub>m nodes f1" "inodes f1 = inodes f" "\<And>x. nodes f (d @ x) = None"
    and p: "populate ic (abs_path ds) items f1 = (r, f')"
  shows "(case r of None \<Rightarrow> populated ds d t f' | Some e \<Rightarrow> \<exists>e. os_Stat f' (abs_path ds) = Inl e) \<and>
    same_outside f1 d f'"
proof -
  let ?L = "link_places items" and ?O = "{resolv_place}"
  have dn: "ds \<noteq> []" using nd by (simp add: new_dir_def)
  have w: "list_all (no_detour ?O ?L) items" "clear ?L init_place" "clear ?L resolv_place"
    using wb by (auto simp: well_behaved_def)
  have removed: "(\<exists>e. os_Stat (os_RemoveAll h (abs_path ds)) (abs_path ds) = Inl e) \<and>
      same_outside f1 d (os_RemoveAll h (abs_path ds))" if "confined ?L ?O f1 ds d h" for h
    using RemoveAll_new_dir[OF nd that ds] that
    by (auto simp: confined_def same_outside_def)
  obtain r2 f2 where x: "extractTar (abs_path ds) items f1 = (r2, f2)" by fastforce
  have c2: "confined ?L ?O f1 ds d f2"
    by (rule confined_extract[OF new_dir_confined(1)[OF nd ds] dn ds w(1) _ x]) simp
  have rd': "os_ReadFile h (ic_vminitPath ic) = Inr t" if "confined ?L ?O f1 ds d h" for h
    by (rule host_file_stable[OF rd that])
  obtain r3 f3 where i: "InjectInit f2 (abs_path ds) (ic_vminitPath ic) = (r3, f3)" by fastforce
  note c3 = confined_inject[OF c2 dn ds w(2) i rd']
  obtain r4 f4 where fx: "FixResolvConf f3 (abs_path ds) = (r4, f4)" by fastforce
  have c4: "confined ?L ?O f1 ds d f4" using confined_fix[OF conjunct1[OF c3] dn ds w(3) fx] by blast
  consider (tar_failed) e where "r2 = Some e" | (inject) e where "r2 = None" "r3 = Some e"
    | (fix_conf) e where "r2 = None" "r3 = None" "r4 = Some e" | (all_well) "r2 = None" "r3 = None" "r4 = None"
    by (cases r2; cases r3; cases r4) auto
  then show ?thesis
  proof cases
    case tar_failed
    then show ?thesis using p x removed[OF c2] by (auto simp: populate_def)
  next
    case inject
    then show ?thesis using p x i removed[of f3] c3
      by (auto simp: populate_def)
  next
    case fix_conf
    then show ?thesis
      using p x i fx removed[OF c4]
      by (auto simp: populate_def)
  next
    case all_well
    then have "populated ds d t f4" using confined_finish[OF c2 dn ds w(2,3) _ _ rd'] i fx by simp
    then show ?thesis using p x i fx all_well c4 by (simp add: populate_def confined_def)
  qed
qed

section \<open>Ensure\<close>

text \<open>A call of \<open>Ensure\<close> that is alone, for an image that the cache does not have.\<close>

lemma Ensure_populates:
  assumes "wf_files f" and "image_dir ic ref digest = abs_path ds" and "plain_list ds" and "ds \<noteq> []"
    and "crane_Digest ref = Inr digest" and "crane_Pull ref = Inr items" and "well_behaved items"
    and "is_rooted (ic_vminitPath ic)" and "os_ReadFile f (ic_vminitPath ic) = Inr init"
    and "os_Stat f (abs_path ds) = Inl e0"
    and "Ensure alone ic crane_Digest crane_Pull ref f = (res, f')"
  shows "(case res of
       Inr dir \<Rightarrow> dir = abs_path ds \<and> (\<exists>d. populated ds d init f')
     | Inl (Create_Cache_Dir e) \<Rightarrow> True
     | Inl _ \<Rightarrow> \<exists>e. os_Stat f' (abs_path ds) = Inl e) \<and>
    (\<forall>q nd. nodes f q = Some nd \<longrightarrow> nodes f' q = Some nd \<and> (\<forall>i. nd = File i \<longrightarrow> inodes f' i = inodes f i))"
proof -
  obtain r1 f1 where m: "mkdir_all f [] (rev ds) = (r1, f1)" by fastforce
  then have m': "os_MkdirAll f (abs_path ds) = (r1, f1)" using assms(3) by (simp add: os_MkdirAll_def)
  have e: "Ensure alone ic crane_Digest crane_Pull ref f =
      (case (case (r1, f1) of (Some e, f1) \<Rightarrow> (Some (Create_Cache_Dir e), f1)
             | (None, f1) \<Rightarrow> populate ic (abs_path ds) items f1) of
         (Some e, f') \<Rightarrow> (Inl e, f') | (None, f') \<Rightarrow> (Inr (abs_path ds), f'))"
    using assms(2,5,6,10) m' by (simp add: Ensure_def alone_def fetch_def Let_def)
  show ?thesis
  proof (cases r1)
    case (Some err)
    then show ?thesis
      using assms(11) e mkdir_all_nodes[OF m] mkdir_all_inodes[OF m] by (auto dest: map_le_Some)
  next
    case None
    have "lookup f [] ds = Inl e0" using assms(3,10) by (simp add: os_Stat_def)
    from mkdir_all_new_dir[OF assms(1,4) this m[unfolded None]]
    obtain g d where g: "new_dir g ds d f1" "nodes f \<subseteq>\<^sub>m nodes g" "inodes g = inodes f" .
    have gd: "wf_files g" "nodes g d = None" "f1 = set_node d Dir g" using g(1) by (auto simp: new_dir_def)
    then have le: "nodes f \<subseteq>\<^sub>m nodes f1" "inodes f1 = inodes f"
      using g(2,3) by (auto simp: set_node_def intro: map_le_trans map_le_upd)
    have none: "nodes f (d @ x) = None" for x
      using nothing_below[OF gd(1,2), of x] g(2) by (metis domIff map_le_def)
    obtain r f2 where p: "populate ic (abs_path ds) items f1 = (r, f2)" by fastforce
    note spec = populate_spec[OF g(1) assms(3,7,9,8) le none p]
    have "nodes f2 q = Some nd \<and> (\<forall>i. nd = File i \<longrightarrow> inodes f2 i = inodes f i)"
      if "nodes f q = Some nd" for q nd
    proof -
      have "\<not> prefix d q" using none that by (auto simp: prefix_def)
      moreover have "nodes f1 q = Some nd" by (rule map_le_Some[OF le(1) that])
      ultimately show ?thesis
        using conjunct2[OF spec] le(2) unfolding same_outside_def by metis
    qed
    then show ?thesis
      using assms(11) e p None conjunct1[OF spec]
      by (cases r) (auto split: ensure_error.split)
  qed
qed

section \<open>Properties\<close>

text \<open>
  C27 (safety). Extraction stays inside: an image in which nothing goes through one of the image's own
  links, extracted into a new directory, changes no node and no file outside it, whatever the names
  of its entries, with dots, double dots or leading slashes, and the targets of its links.
\<close>

theorem extraction_stays_inside:
  assumes "new_dir g ds d f" and "plain_list ds"
    and "list_all (no_detour {} (link_places items)) items"
    and "extractTar (abs_path ds) items f = (r, f')"
  shows "(\<forall>q. \<not> prefix d q \<longrightarrow> nodes f' q = nodes f q) \<and>
    (\<forall>q i. \<not> prefix d q \<longrightarrow> nodes f q = Some (File i) \<longrightarrow> inodes f' i = inodes f i) \<and>
    nodes f \<subseteq>\<^sub>m nodes f'"
proof -
  have "ds \<noteq> []" using assms(1) by (simp add: new_dir_def)
  then have c: "confined (link_places items) {} f ds d f'"
    using confined_extract[OF new_dir_confined(1)[OF assms(1,2)] _ assms(2,3) _ assms(4)] by simp
  then show ?thesis by (simp add: confined_def same_outside_def)
qed


section \<open>Examples\<close>

text \<open>A host with a cache directory, a password file and the binary of vminit; an image.\<close>

definition demo_files :: files where
  "demo_files =
     \<lparr>nodes = [[] \<mapsto> Dir, [''c''] \<mapsto> Dir, [''etc''] \<mapsto> Dir, [''etc'', ''passwd''] \<mapsto> File 0,
               [''vminit''] \<mapsto> File 1],
      inodes = (\<lambda>i. \<lparr>i_data = (if i = 0 then ''root:x:0:0'' else ''ELF''), i_mode = 0x1A4\<rparr>),
      next_inode = 2, cwd = []\<rparr>"

definition demo_ic :: image_cache_dir where
  "demo_ic = \<lparr>ic_cacheDir = ''/c'', ic_vminitPath = ''/vminit''\<rparr>"

definition dir_entry :: "string \<Rightarrow> tar_item" where
  "dir_entry name = Tar_Entry \<lparr>hdr_Name = name, hdr_Typeflag = TypeDir, hdr_Linkname = [], hdr_Mode = 0x1ED\<rparr> [] None"

definition file_entry :: "string \<Rightarrow> string \<Rightarrow> tar_item" where
  "file_entry name t =
     Tar_Entry \<lparr>hdr_Name = name, hdr_Typeflag = TypeReg, hdr_Linkname = [], hdr_Mode = 0x1A4\<rparr> t None"

definition link_entry :: "string \<Rightarrow> string \<Rightarrow> tar_item" where
  "link_entry name old =
     Tar_Entry \<lparr>hdr_Name = name, hdr_Typeflag = TypeSymlink, hdr_Linkname = old, hdr_Mode = 0x1FF\<rparr> [] None"

definition demo_items :: "tar_item list" where
  "demo_items =
     [dir_entry ''bin/'', file_entry ''./bin/busybox'' ''sh'', link_entry ''bin/sh'' ''/bin/busybox'',
      file_entry ''../../etc/passwd'' ''image'']"

lemmas demo_defs = demo_files_def demo_ic_def demo_items_def dir_entry_def file_entry_def link_entry_def

lemma demo_well_behaved: "well_behaved demo_items"
  by (simp add: well_behaved_def demo_defs link_places_def entry_place_def root_elems_def clear_def
      plain_elem_def Let_def init_place_def resolv_place_def)

lemma wf_demo: "wf_files demo_files"
  by (auto simp: wf_files_def fresh_inodes_def demo_files_def Cons_eq_append_conv split: if_splits)

definition demo_place :: "string list" where
  "demo_place = [''c'', ''alpine'', ''0123456789ab'']"

definition demo_ref :: string where "demo_ref = ''docker.io/library/alpine:3.18''"

definition demo_digest :: string where "demo_digest = ''sha256:0123456789abcdef''"

lemma demo_dir: "image_dir demo_ic demo_ref demo_digest = abs_path demo_place"
  by code_simp

lemma demo_place_plain: "plain_list demo_place" "demo_place \<noteq> []"
  by (simp_all add: demo_place_def plain_elem_def)


lemma demo_new_dir:
  obtains g d f where "os_MkdirAll demo_files (abs_path demo_place) = (None, f)" "new_dir g demo_place d f"
proof -
  obtain r f where m: "os_MkdirAll demo_files (abs_path demo_place) = (r, f)" by fastforce
  have none: "fst (os_MkdirAll demo_files (abs_path demo_place)) = None" by code_simp
  then have "mkdir_all demo_files [] (rev demo_place) = (None, f)"
    using m demo_place_plain by (simp add: os_MkdirAll_def)
  moreover have "lookup demo_files [] demo_place = Inl ENOENT" by code_simp
  ultimately obtain g d where "new_dir g demo_place d f"
    using mkdir_all_new_dir[OF wf_demo demo_place_plain(2)] by blast
  then show thesis using that m none by simp
qed

theorem extraction_stays_inside_witness:
  "\<exists>f f'. extractTar (abs_path demo_place) demo_items f = (None, f') \<and> nodes f \<subseteq>\<^sub>m nodes f' \<and>
     nodes f' [''etc''] = Some Dir"
proof -
  obtain g d f where f: "os_MkdirAll demo_files (abs_path demo_place) = (None, f)" "new_dir g demo_place d f"
    by (rule demo_new_dir)
  have n: "list_all (no_detour {} (link_places demo_items)) demo_items"
    by (simp add: demo_defs link_places_def entry_place_def root_elems_def clear_def plain_elem_def Let_def)
  have "fst (extractTar (abs_path demo_place) demo_items (snd (os_MkdirAll demo_files (abs_path demo_place)))) = None"
    "nodes (snd (os_MkdirAll demo_files (abs_path demo_place))) [''etc''] = Some Dir" by code_simp+
  then obtain f' where f': "extractTar (abs_path demo_place) demo_items f = (None, f')" "nodes f [''etc''] = Some Dir"
    using f(1) by (metis prod.collapse snd_conv)
  have le: "nodes f \<subseteq>\<^sub>m nodes f'"
    using extraction_stays_inside[OF f(2) demo_place_plain(1) n f'(1)] by blast
  then show ?thesis using f'(1) map_le_Some[OF le f'(2)] by blast
qed

section \<open>Links in the way\<close>

text \<open>
  C35 (safety). The condition on links is needed: the guard of the extraction looks at names only. An
  image with a link to a directory of the host and a file behind that link has the host's file
  overwritten; one whose \<open>etc/resolv.conf\<close> is a link to a file of the host has that file
  overwritten when the image is prepared. Neither is an error.
\<close>

definition link_then_file :: "tar_item list" where
  "link_then_file = [link_entry ''x'' ''/etc'', file_entry ''x/passwd'' ''root::0:0'']"

definition linked_resolv_conf :: "tar_item list" where
  "linked_resolv_conf = [dir_entry ''etc'', link_entry ''etc/resolv.conf'' ''/etc/passwd'']"


text \<open>
  A path \<open>Ensure\<close> returns need not lead to an image that is ready, or exist, when calls overlap.
  Calls are joined by digest, but the directory is named after the reference: a second reference
  to an image in flight gets its own directory's path, which nobody has made. And the check
  before the group takes a directory that another call has just made for a cached image.
\<close>

lemma Ensure_returns_unready:
  "(let flight = fetch demo_ic (abs_path demo_place) (Inr demo_items) demo_files in
    case Ensure (joining flight) demo_ic (\<lambda>_. Inr demo_digest) (\<lambda>_. Inr demo_items) ''mirror/my-alpine:3'' demo_files of
      (res, f') \<Rightarrow> fst flight = None \<and> res = Inr ''/c/my-alpine/0123456789ab'' \<and>
        os_Stat f' ''/c/my-alpine/0123456789ab'' = Inl ENOENT) \<and>
   (let made = snd (os_MkdirAll demo_files (abs_path demo_place)) in
    case Ensure alone demo_ic (\<lambda>_. Inr demo_digest) (\<lambda>_. Inr demo_items) demo_ref made of
      (res, f') \<Rightarrow> res = Inr (abs_path demo_place) \<and>
        os_ReadFile f' ''/c/alpine/0123456789ab/usr/local/bin/vminit'' = Inl ENOENT)"
  by (intro conjI; code_simp)

text \<open>A mode with the setuid bit, as in a tar header, opens a file without it.\<close>

lemma setuid_bit_dropped: "sys_mode (word_of_int 0x9ED) = 0x1ED"
  by (simp add: sys_mode_def)

end
