(* ===== verification/Krun_Api.thy ===== *)
theory Krun_Api imports Krun_Const Api_Handler Image_Cache begin

text \<open>
  The server's \<open>main\<close> (cmd/krun-api/main.go): the library path, the log level, the manager and the
  optional image cache, and the shutdown on a signal. Flags come parsed, the parser of log levels
  and the operating system answer as arguments.
\<close>

section \<open>Starting\<close>

text \<open>\<open>brew --prefix\<close>: its output, if it ran and succeeded.\<close>

definition brewPrefix :: "string option \<Rightarrow> string" where
  "brewPrefix out = (case out of None \<Rightarrow> [] | Some t \<Rightarrow> trim_space t)"

type_synonym environ = "string \<rightharpoonup> string"

definition getenv :: "environ \<Rightarrow> string \<Rightarrow> string" where
  "getenv env k = (case env k of None \<Rightarrow> [] | Some v \<Rightarrow> v)"

text \<open>An error of \<open>Setenv\<close> is only printed.\<close>

definition ensureBrewLibPath :: "string option \<Rightarrow> bool \<Rightarrow> environ \<Rightarrow> environ" where
  "ensureBrewLibPath out setenv_ok env =
     (if getenv env ''DYLD_LIBRARY_PATH'' \<noteq> [] then env
      else
        (let prefix = brewPrefix out in
         if prefix = [] then env
         else if setenv_ok then env(''DYLD_LIBRARY_PATH'' \<mapsto> path_join [prefix, ''lib'']) else env))"

text \<open>\<open>slog\<close>'s levels are numbers, of which four have names; libkrun's go from 0 (off) to 5.\<close>

definition krun_log_level :: "int \<Rightarrow> u32" where
  "krun_log_level level =
     (if level = -4 then LogLevelDebug
      else if level = 0 then LogLevelInfo
      else if level = 4 then LogLevelWarn
      else if level = 8 then LogLevelError
      else LogLevelOff)"

record api_flags =
  af_vmmPath :: string
  af_socketDir :: string
  af_logLevel :: string
  af_vminitPath :: string

datatype api_failure = Bad_Log_Level string | No_Manager new_error | No_Image_Cache errno

text \<open>The state the server runs with, or why it exits with status 1.\<close>

definition api_start ::
  "(string \<Rightarrow> string + int) \<Rightarrow> (string \<Rightarrow> string option) \<Rightarrow> files \<Rightarrow> api_flags
     \<Rightarrow> (api_failure + (mgr \<times> image_cache_dir option)) \<times> files" where
  "api_start parse_level mkdir f fl =
     (case parse_level (af_logLevel fl) of
        Inl e \<Rightarrow> (Inl (Bad_Log_Level e), f)
      | Inr level \<Rightarrow>
          (case NewManager mkdir (af_vmmPath fl) (af_socketDir fl) (krun_log_level level) of
             Inl e \<Rightarrow> (Inl (No_Manager e), f)
           | Inr s \<Rightarrow>
               if af_vminitPath fl \<noteq> [] then
                 (case NewImageCache f (path_join [af_socketDir fl, ''images'']) (af_vminitPath fl) of
                    (Inl e, f') \<Rightarrow> (Inl (No_Image_Cache e), f')
                  | (Inr ic, f') \<Rightarrow> (Inr (s, Some ic), f'))
               else (Inr (s, None), f)))"

section \<open>Shutting down\<close>

text \<open>
  After the signal \<open>main\<close> calls \<open>StopAll\<close>, which picks the running machines and stops them one after the
  other, and only then closes the server, so requests are served all along: \<open>meanwhile\<close> is what
  they do to the manager after the machines have been picked.
\<close>

definition api_shutdown ::
  "string list \<Rightarrow> (string \<Rightarrow> answers list) \<Rightarrow> (mgr \<Rightarrow> mgr) \<Rightarrow> mgr \<Rightarrow> mgr" where
  "api_shutdown ids answers_of meanwhile s =
     stop_each (map (\<lambda>i. (i, answers_of i)) (stop_all_ids ids s)) (meanwhile s)"

text \<open>
  \<open>main\<close> from its flags to its end: the exit status and the manager it leaves. The handlers are given the manager and the
  cache; \<open>served\<close> is what the requests do with them until the end comes. That is a signal, or a
  \<open>ListenAndServe\<close> that fails, and then the process exits at once, with nothing stopped.
\<close>

datatype api_end = Listen_Failed string | Signalled

definition api_main ::
  "(string \<Rightarrow> string + int) \<Rightarrow> (string \<Rightarrow> string option) \<Rightarrow> files \<Rightarrow> api_flags \<Rightarrow>
     (mgr \<times> image_cache_dir option \<Rightarrow> mgr) \<Rightarrow> api_end \<Rightarrow>
     string list \<Rightarrow> (string \<Rightarrow> answers list) \<Rightarrow> (mgr \<Rightarrow> mgr) \<Rightarrow> nat \<times> mgr option" where
  "api_main parse_level mkdir f fl served ending ids answers_of meanwhile =
     (case fst (api_start parse_level mkdir f fl) of
        Inl e \<Rightarrow> (1, None)
      | Inr (s, cache) \<Rightarrow>
          (case ending of
             Listen_Failed e \<Rightarrow> (1, Some (served (s, cache)))
           | Signalled \<Rightarrow> (0, Some (api_shutdown ids answers_of meanwhile (served (s, cache))))))"

lemma api_shutdown_StopAll: "api_shutdown ids answers_of (\<lambda>s. s) s = StopAll ids answers_of s"
  by (simp add: api_shutdown_def StopAll_def)

section \<open>What one Stop does\<close>

definition not_alive :: "mgr \<Rightarrow> nat \<Rightarrow> bool" where
  "not_alive s v \<longleftrightarrow> vm_cmd (vm_objs s v) \<noteq> Some Alive"

text \<open>No machine comes up and no child comes back to life.\<close>

definition winding_down :: "mgr \<Rightarrow> mgr \<Rightarrow> bool" where
  "winding_down s s' \<longleftrightarrow>
     machines s' = machines s \<and>
     (\<forall>r. get_state r s \<noteq> StateRunning \<longrightarrow> get_state r s' \<noteq> StateRunning) \<and>
     (\<forall>v. vm_started (vm_objs s v) \<longrightarrow>
        vm_started (vm_objs s' v) \<and> (not_alive s v \<longrightarrow> not_alive s' v))"

lemma winding_down_refl [simp]: "winding_down s s"
  by (simp add: winding_down_def)

lemma winding_down_trans: "winding_down s s' \<Longrightarrow> winding_down s' s'' \<Longrightarrow> winding_down s s''"
  by (simp add: winding_down_def)

text \<open>A \<open>Stop\<close> of a running machine \<open>i\<close>, at \<open>r\<close>, with a started VM \<open>v\<close>.\<close>

fun halting :: "mgr \<Rightarrow> string \<Rightarrow> nat \<Rightarrow> nat \<Rightarrow> thread \<Rightarrow> mgr \<Rightarrow> bool" where
  "halting s0 i r v (Stopping (Stop_Enter j)) s \<longleftrightarrow> j = i \<and> s = s0"
| "halting s0 i r v (Stopping (Stop_Check j q vo no)) s \<longleftrightarrow> j = i \<and> q = r \<and> vo = Some v \<and> s = s0"
| "halting s0 i r v (Stopping (Stop_Mark j q vo no)) s \<longleftrightarrow> q = r \<and> vo = Some v \<and> s = s0"
| "halting s0 i r v (Stopping (Stop_Net j q vo no)) s \<longleftrightarrow> q = r \<and> vo = Some v \<and> winding_down s0 s"
| "halting s0 i r v (Stopping (Stop_Vm j q w no k)) s \<longleftrightarrow>
     q = r \<and> w = v \<and> winding_down s0 s \<and> (past_kill k \<longrightarrow> not_alive s v)"
| "halting s0 i r v (Stopping (Stop_No_VM j q no)) s \<longleftrightarrow> False"
| "halting s0 i r v (Stopping (Stop_No_VM_State j q)) s \<longleftrightarrow> False"
| "halting s0 i r v (Stopping (Stop_Poll j q no)) s \<longleftrightarrow> q = r \<and> winding_down s0 s \<and> not_alive s v"
| "halting s0 i r v (Stopping (Stop_Select j q no)) s \<longleftrightarrow> q = r \<and> winding_down s0 s \<and> not_alive s v"
| "halting s0 i r v (Stopping (Stop_Force j q no)) s \<longleftrightarrow> q = r \<and> winding_down s0 s \<and> not_alive s v"
| "halting s0 i r v (Stopping (Stop_Force_State j q)) s \<longleftrightarrow> q = r \<and> winding_down s0 s \<and> not_alive s v"
| "halting s0 i r v (Stopping (Stop_Force_Delete j)) s \<longleftrightarrow>
     winding_down s0 s \<and> not_alive s v \<and> get_state r s = StateStopped"
| "halting s0 i r v (Done Ok) s \<longleftrightarrow> winding_down s0 s \<and> not_alive s v \<and> get_state r s = StateStopped"
| "halting s0 i r v _ s \<longleftrightarrow> False"

lemma winding_down_parts:
  "winding_down s0 s \<Longrightarrow> winding_down s0 (close_opt b no s)"
  "winding_down s0 s \<Longrightarrow> winding_down s0 (unregister i s)"
  "winding_down s0 s \<Longrightarrow> st \<noteq> StateRunning \<Longrightarrow> winding_down s0 (set_state r st s)"
  "not_alive (close_opt b no s) v = not_alive s v" "not_alive (unregister i s) v = not_alive s v"
  "not_alive (set_state r st s) v = not_alive s v"
  by (auto simp: winding_down_def not_alive_def)

lemma vm_stop_step_stays:
  assumes "vm_stop_step ch k v = Some (k', v')" and "vm_started v" and "vm_cmd v \<noteq> Some Alive"
  shows "vm_cmd v' \<noteq> Some Alive"
  using assms
  by (induction ch k v rule: vm_stop_step.induct)
    (auto simp: vm_defs split: if_splits option.splits child.splits list.splits)

lemma halting_step:
  assumes "halting s0 i r v t s" and "thread_step a t s = Some (t', s', new)"
    and "machines s0 i = Some r" "get_state r s0 = StateRunning" "vms s0 i = Some v"
    and "vm_started (vm_objs s0 v)"
  shows "halting s0 i r v t' s' \<and> new = []"
proof (cases t)
  case (Stopping p)
  show ?thesis
  proof (cases p)
    case (Stop_Vm j q w no k)
    then have h: "w = v" "winding_down s0 s" "past_kill k \<longrightarrow> not_alive s v"
      using assms(1) Stopping by auto
    show ?thesis
    proof (cases "k = Stop_Returned")
      case False
      then obtain k' x where st: "vm_stop_step (a_stop a) k (vm_objs s v) = Some (k', x)"
          "s' = s\<lparr>vm_objs := (vm_objs s)(v := x)\<rparr>" "t' = Stopping (Stop_Vm j q v no k')" "new = []"
        using assms(2) Stopping Stop_Vm h(1) by (auto split: option.splits)
      have stv: "vm_started (vm_objs s v)" using h(2) assms(6) by (simp add: winding_down_def)
      have x: "vm_started x \<and> (past_kill k' \<longrightarrow> vm_cmd x \<noteq> Some Alive)"
        using vm_stop_step_started[OF st(1) stv] h(3) by (simp add: not_alive_def)
      moreover have "not_alive s v \<Longrightarrow> vm_cmd x \<noteq> Some Alive"
        using vm_stop_step_stays[OF st(1) stv] by (simp add: not_alive_def)
      ultimately have "winding_down s s'"
        by (auto simp: winding_down_def st(2) not_alive_def get_state_def)
      then show ?thesis
        using x st assms(1) Stopping Stop_Vm winding_down_trans[OF h(2)] by (simp add: not_alive_def)
    qed (use assms(1,2) Stopping Stop_Vm in \<open>auto simp: past_kill_def\<close>)
  qed (use assms Stopping in \<open>auto simp: winding_down_parts past_kill_def split: if_splits option.splits\<close>)
next
  case (Done res)
  then show ?thesis using assms(2) by simp
qed (use assms(1) in simp_all)

lemma one_stop:
  assumes "run_thread as (Stopping (Stop_Enter i)) s = (Done res, s', ts)"
    and "machines s i = Some r" "get_state r s = StateRunning" "vms s i = Some v"
    and "vm_started (vm_objs s v)"
  shows "winding_down s s' \<and> get_state r s' = StateStopped \<and> not_alive s' v"
proof -
  let ?P = "\<lambda>t u (us :: thread list). halting s i r v t u"
  have "?P (Done res) s' ([] @ ts)"
    by (rule run_thread_inv[OF assms(1), where P = ?P])
      (use assms halting_step in \<open>auto\<close>)
  then show ?thesis by (cases res) auto
qed

section \<open>What a shutdown does\<close>

text \<open>The calls return one after the other; and what a running machine has in the manager.\<close>

fun stops_return :: "(string \<times> answers list) list \<Rightarrow> mgr \<Rightarrow> bool" where
  "stops_return [] s = True"
| "stops_return ((i, as) # rest) s =
     (case run_thread as (Stopping (Stop_Enter i)) s of
        (Done res, s', ts) \<Rightarrow> stops_return rest s'
      | _ \<Rightarrow> False)"

definition backed :: "mgr \<Rightarrow> string \<Rightarrow> bool" where
  "backed s i \<longleftrightarrow>
     (case (machines s i, vms s i) of
        (Some r, Some v) \<Rightarrow> get_state r s = StateRunning \<and> vm_started (vm_objs s v)
      | _ \<Rightarrow> False)"

definition down :: "mgr \<Rightarrow> mgr \<Rightarrow> string \<Rightarrow> bool" where
  "down s0 s i \<longleftrightarrow>
     (case (machines s0 i, vms s0 i) of
        (Some r, Some v) \<Rightarrow> get_state r s \<noteq> StateRunning \<and> vm_started (vm_objs s v) \<and> not_alive s v
      | _ \<Rightarrow> False)"

lemma backedE:
  assumes "backed s i"
  obtains r v where "machines s i = Some r" "get_state r s = StateRunning" "vms s i = Some v"
    "vm_started (vm_objs s v)"
  using assms by (auto simp: backed_def split: option.splits)

lemma down_winding: "down s0 s i \<Longrightarrow> winding_down s s' \<Longrightarrow> down s0 s' i"
  by (auto simp: down_def winding_down_def split: option.splits)

lemma run_stop_frame:
  assumes "run_thread as (Stopping (Stop_Enter i)) s = (Done res, s', ts)"
  shows "\<forall>j. j \<noteq> i \<longrightarrow> vms s' j = vms s j"
    and "\<forall>q. machines s i \<noteq> Some q \<longrightarrow> objs s' q = objs s q"
proof -
  let ?own = "\<lambda>p. case p of
      Stop_Enter j \<Rightarrow> j = i | Stop_Check j r vo no \<Rightarrow> j = i \<and> machines s i = Some r
    | Stop_Mark j r vo no \<Rightarrow> j = i \<and> machines s i = Some r
    | Stop_Net j r vo no \<Rightarrow> j = i \<and> machines s i = Some r
    | Stop_Vm j r v no k \<Rightarrow> j = i \<and> machines s i = Some r
    | Stop_Poll j r no \<Rightarrow> j = i \<and> machines s i = Some r
    | Stop_Select j r no \<Rightarrow> j = i \<and> machines s i = Some r
    | Stop_Force j r no \<Rightarrow> j = i \<and> machines s i = Some r
    | Stop_Force_State j r \<Rightarrow> j = i \<and> machines s i = Some r
    | Stop_Force_Delete j \<Rightarrow> j = i
    | Stop_No_VM j r no \<Rightarrow> j = i \<and> machines s i = Some r
    | Stop_No_VM_State j r \<Rightarrow> j = i \<and> machines s i = Some r"
  let ?P = "\<lambda>t u (us :: thread list).
      (case t of Stopping p \<Rightarrow> ?own p | Done _ \<Rightarrow> True | _ \<Rightarrow> False) \<and> machines u = machines s \<and>
      (\<forall>j. j \<noteq> i \<longrightarrow> vms u j = vms s j) \<and> (\<forall>q. machines s i \<noteq> Some q \<longrightarrow> objs u q = objs s q)"
  have "?P (Done res) s' ([] @ ts)"
  proof (rule run_thread_inv[OF assms, where P = ?P])
    fix a t u us t' u' new
    assume P: "?P t u us" and st: "thread_step a t u = Some (t', u', new)"
    show "?P t' u' (us @ new)"
    proof (cases t)
      case (Stopping p)
      then show ?thesis using P st by (cases p) (auto split: if_splits option.splits)
    qed (use P st in simp_all)
  qed simp
  then show "\<forall>j. j \<noteq> i \<longrightarrow> vms s' j = vms s j"
    "\<forall>q. machines s i \<noteq> Some q \<longrightarrow> objs s' q = objs s q" by blast+
qed

lemma stop_each_down:
  assumes "stops_return (map (\<lambda>i. (i, answers_of i)) ids) s" and "distinct ids"
    and "\<forall>i\<in>set ids. backed s i" and "inj_on (machines s) (set ids)"
  shows "(\<forall>i\<in>set ids. down s (stop_each (map (\<lambda>i. (i, answers_of i)) ids) s) i) \<and>
    winding_down s (stop_each (map (\<lambda>i. (i, answers_of i)) ids) s)"
  using assms
proof (induction ids arbitrary: s)
  case (Cons i ids)
  let ?rest = "\<lambda>s. stop_each (map (\<lambda>i. (i, answers_of i)) ids) s"
  obtain res s' ts where run: "run_thread (answers_of i) (Stopping (Stop_Enter i)) s = (Done res, s', ts)"
      and ret: "stops_return (map (\<lambda>i. (i, answers_of i)) ids) s'"
    using Cons.prems(1) by (auto split: prod.splits thread.splits)
  obtain r v where b: "machines s i = Some r" "get_state r s = StateRunning" "vms s i = Some v"
      "vm_started (vm_objs s v)"
    using Cons.prems(3) by (auto elim: backedE)
  note one = one_stop[OF run b]
  note frame = run_stop_frame[OF run]
  have m: "machines s' = machines s" using one by (simp add: winding_down_def)
  have keep: "backed s' j \<and> vms s' j = vms s j" if "j \<in> set ids" for j
  proof -
    have ne: "j \<noteq> i" using Cons.prems(2) that by auto
    have "backed s j" using Cons.prems(3) that by simp
    then obtain q w where q: "machines s j = Some q" "get_state q s = StateRunning" "vms s j = Some w"
        "vm_started (vm_objs s w)"
      by (rule backedE)
    have "machines s i \<noteq> Some q"
      using q(1) ne that Cons.prems(4) by (auto simp: inj_on_def)
    then have "get_state q s' = StateRunning" using frame(2) q(2) by (simp add: get_state_def)
    moreover have "vm_started (vm_objs s' w)" using one q(4) by (simp add: winding_down_def)
    ultimately show ?thesis using q frame(1) ne m by (simp add: backed_def)
  qed
  have IH: "(\<forall>j\<in>set ids. down s' (?rest s') j) \<and> winding_down s' (?rest s')"
    using Cons.IH[OF ret] Cons.prems(2,4) keep m by (simp add: inj_on_def)
  have "down s (?rest s') i"
  proof (rule down_winding)
    show "down s s' i" using b one by (simp add: down_def winding_down_def)
    show "winding_down s' (?rest s')" using IH by blast
  qed
  moreover have "down s (?rest s') j" if "j \<in> set ids" for j
    using bspec[OF conjunct1[OF IH] that] keep[OF that] m by (simp add: down_def)
  ultimately show ?case
    using run IH one winding_down_trans by (auto simp del: run_thread.simps)
qed simp


text \<open>The machine of the manager's example, running; a \<open>Stop\<close> that the guest does not answer.\<close>

definition running_mgr :: mgr where
  "running_mgr =
     fst (snd (run_thread (replicate 5 calm_answers) (Starting (Start_Enter ''u1'')) created_mgr))"

definition hard_stop :: "answers list" where
  "hard_stop =
     replicate 4 calm_answers @
     [calm_answers\<lparr>a_stop := Rpc_Result False\<rparr>, calm_answers, calm_answers\<lparr>a_stop := Timer_Fires\<rparr>,
      calm_answers, calm_answers, calm_answers\<lparr>a_deadline := True\<rparr>, calm_answers, calm_answers,
      calm_answers]"

lemma running_machine:
  "machines running_mgr = [''u1'' \<mapsto> 0]" "get_state 0 running_mgr = StateRunning"
  "vms running_mgr = [''u1'' \<mapsto> 2]" "vm_started (vm_objs running_mgr 2)"
  "vm_cmd (vm_objs running_mgr 2) = Some Alive"
  by (simp_all add: running_mgr_def created_mgr_def run_simps eval_nat_numeral vm_defs)

lemma running_stops:
  "stops_return [(''u1'', hard_stop)] running_mgr"
  by (simp add: hard_stop_def running_mgr_def created_mgr_def run_simps eval_nat_numeral vm_defs)



end
