(* ===== verification/Exec_Server.thy ===== *)
theory Exec_Server imports Vminit begin

text \<open>
  The exec server of vminit around a session (cmd/vminit/main.go): raw vsock connections, the accept
  loop, the end of a session with its two copying goroutines, and the reaper of zombies. What goes
  through a session is in the theory of exec sessions.
\<close>

section \<open>Vsock connections\<close>

text \<open>
  A descriptor is a number. \<open>fds\<close> are the open ones of the process, each with what is left of it: \<open>SHUT_WR\<close>
  closes the side for writing.
\<close>

datatype sock = Full | Read_Only

type_synonym fds = "nat \<rightharpoonup> sock"

record vsock_listener =
  vl_fd :: nat
  vl_port :: nat

record vsock_conn =
  vc_fd :: nat
  vc_name :: string
  vc_port :: nat

definition newVsockConn :: "nat \<Rightarrow> nat \<Rightarrow> vsock_conn" where
  "newVsockConn fd port = \<lparr>vc_fd = fd, vc_name = ''vsock-'' @ fmt_d (int port), vc_port = port\<rparr>"

text \<open>\<open>Accept\<close> on what the system call answers, an error or the new descriptor.\<close>

definition vl_Accept :: "vsock_listener \<Rightarrow> string + nat \<Rightarrow> fds \<Rightarrow> (string + vsock_conn) \<times> fds" where
  "vl_Accept l answer f =
     (case answer of
        Inl e \<Rightarrow> (Inl e, f)
      | Inr nfd \<Rightarrow> (Inr (newVsockConn nfd (vl_port l)), f(nfd \<mapsto> Full)))"

definition vl_Close :: "vsock_listener \<Rightarrow> fds \<Rightarrow> fds" where
  "vl_Close l f = f(vl_fd l := None)"

definition vc_Close :: "vsock_conn \<Rightarrow> fds \<Rightarrow> fds" where
  "vc_Close c f = f(vc_fd c := None)"

text \<open>\<open>CloseWrite\<close> fails on a closed descriptor; its caller does not look.\<close>

definition vc_CloseWrite :: "vsock_conn \<Rightarrow> fds \<Rightarrow> fds" where
  "vc_CloseWrite c f = (if f (vc_fd c) = None then f else f(vc_fd c \<mapsto> Read_Only))"

definition vsockAddr_Network :: string where
  "vsockAddr_Network = ''vsock''"

definition vsockAddr_String :: "nat \<Rightarrow> string" where
  "vsockAddr_String port = ''vsock://*:'' @ fmt_d (int port)"

section \<open>Accepting\<close>

text \<open>
  \<open>serveExec\<close> on what the calls of \<open>Accept\<close> answer: the connections it starts sessions for, and whether
  it has returned. Any error ends it.
\<close>

fun serveExec :: "vsock_listener \<Rightarrow> (string + nat) list \<Rightarrow> fds \<Rightarrow> (vsock_conn list \<times> bool) \<times> fds" where
  "serveExec l [] f = (([], False), f)"
| "serveExec l (a # as) f =
     (case vl_Accept l a f of
        (Inl e, f1) \<Rightarrow> (([], True), f1)
      | (Inr c, f1) \<Rightarrow>
          (case serveExec l as f1 of ((cs, over), f2) \<Rightarrow> ((c # cs, over), f2)))"

lemma serveExec_sessions:
  "fst (serveExec l as f) =
     (map (\<lambda>a. newVsockConn (projr a) (vl_port l)) (takeWhile (\<lambda>a. \<not> isl a) as), \<exists>a \<in> set as. isl a)"
  by (induction as arbitrary: f) (auto simp: vl_Accept_def case_prod_beta prod_eq_iff split: sum.splits)

text \<open>One failing call, as for a connection that the host has given up, and no session is served any more.\<close>

lemma serveExec_ends_at_error:
  "fst (serveExec l (as @ Inl e # bs) f) = (fst (fst (serveExec l (as @ [Inl e]) f)), True)"
  by (simp add: serveExec_sessions takeWhile_append)

section \<open>The end of a session\<close>

text \<open>
  Two goroutines copy, from the connection to the terminal and back; each sends to \<open>done\<close> (room for two)
  when it ends. The handler waits for the first, closes both files, waits for the second and then
  for the command. \<open>se_peer\<close>: the host has its end open; \<open>se_command\<close>: the command runs.
\<close>

datatype in_pc = In_Copying | In_Sent
datatype out_pc = Out_Copying | Out_Closing | Out_Sent
datatype end_pc = Wait_First | Close_Conn | Close_Pty | Wait_Second | Wait_Command | Session_Over

record session =
  se_conn :: vsock_conn
  se_fds :: fds
  se_in :: in_pc
  se_out :: out_pc
  se_main :: end_pc
  se_done :: nat
  se_pty :: bool
  se_peer :: bool
  se_command :: bool

definition conn_open :: "session \<Rightarrow> bool" where
  "conn_open s \<longleftrightarrow> se_fds s (vc_fd (se_conn s)) \<noteq> None"

definition send_done :: "session \<Rightarrow> session" where
  "send_done s = s\<lparr>se_done := se_done s + 1\<rparr>"

text \<open>
  The session's own steps. A copy ends at the end of what it reads, or on an error; \<open>cancels\<close> says whether
  closing a file makes a pending read of it return, as the documentation of \<open>os.File\<close> promises for
  files that support deadlines. A descriptor made by a plain \<open>accept\<close> is in blocking mode and does not.
\<close>

inductive session_step :: "bool \<Rightarrow> session \<Rightarrow> session \<Rightarrow> bool" for cancels where
  in_ends: "se_in s = In_Copying \<Longrightarrow> \<not> se_peer s \<or> \<not> conn_open s \<and> cancels \<Longrightarrow>
     session_step cancels s (send_done (s\<lparr>se_in := In_Sent\<rparr>))"
| out_ends: "se_out s = Out_Copying \<Longrightarrow> \<not> se_command s \<or> \<not> se_pty s \<Longrightarrow>
     session_step cancels s (s\<lparr>se_out := Out_Closing\<rparr>)"
| out_half_closes: "se_out s = Out_Closing \<Longrightarrow>
     session_step cancels s (send_done (s\<lparr>se_out := Out_Sent, se_fds := vc_CloseWrite (se_conn s) (se_fds s)\<rparr>))"
| first_done: "se_main s = Wait_First \<Longrightarrow> se_done s = Suc n \<Longrightarrow>
     session_step cancels s (s\<lparr>se_main := Close_Conn, se_done := n\<rparr>)"
| closes_conn: "se_main s = Close_Conn \<Longrightarrow>
     session_step cancels s (s\<lparr>se_main := Close_Pty, se_fds := vc_Close (se_conn s) (se_fds s)\<rparr>)"
| closes_pty: "se_main s = Close_Pty \<Longrightarrow>
     session_step cancels s (s\<lparr>se_main := Wait_Second, se_pty := False\<rparr>)"
| second_done: "se_main s = Wait_Second \<Longrightarrow> se_done s = Suc n \<Longrightarrow>
     session_step cancels s (s\<lparr>se_main := Wait_Command, se_done := n\<rparr>)"
| command_done: "se_main s = Wait_Command \<Longrightarrow> \<not> se_command s \<Longrightarrow>
     session_step cancels s (s\<lparr>se_main := Session_Over\<rparr>)"

text \<open>
  The world: the host closes its end, the command exits, a copy fails on a byte it has got: input for a
  terminal that is gone, output for a connection that is gone.
\<close>

inductive session_world :: "session \<Rightarrow> session \<Rightarrow> bool" where
  peer_closes: "session_world s (s\<lparr>se_peer := False\<rparr>)"
| command_exits: "session_world s (s\<lparr>se_command := False\<rparr>)"
| input_fails: "se_in s = In_Copying \<Longrightarrow> \<not> se_pty s \<or> \<not> se_command s \<Longrightarrow>
     session_world s (send_done (s\<lparr>se_in := In_Sent\<rparr>))"
| output_fails: "se_out s = Out_Copying \<Longrightarrow> \<not> conn_open s \<or> \<not> se_peer s \<Longrightarrow>
     session_world s (s\<lparr>se_out := Out_Closing\<rparr>)"

definition session_start :: "vsock_conn \<Rightarrow> fds \<Rightarrow> session" where
  "session_start c f =
     \<lparr>se_conn = c, se_fds = f(vc_fd c \<mapsto> Full), se_in = In_Copying, se_out = Out_Copying, se_main = Wait_First,
      se_done = 0, se_pty = True, se_peer = True, se_command = True\<rparr>"

inductive session_run :: "bool \<Rightarrow> session \<Rightarrow> session \<Rightarrow> bool" for cancels s0 where
  session_starts: "session_run cancels s0 s0"
| session_moves: "session_run cancels s0 s \<Longrightarrow> session_step cancels s s' \<Longrightarrow> session_run cancels s0 s'"
| world_moves_session: "session_run cancels s0 s \<Longrightarrow> session_world s s' \<Longrightarrow> session_run cancels s0 s'"

text \<open>Every step of the session, and none of the world, brings it closer to its end.\<close>

fun in_rank :: "in_pc \<Rightarrow> nat" where
  "in_rank In_Copying = 1" | "in_rank In_Sent = 0"

fun out_rank :: "out_pc \<Rightarrow> nat" where
  "out_rank Out_Copying = 2" | "out_rank Out_Closing = 1" | "out_rank Out_Sent = 0"

fun end_rank :: "end_pc \<Rightarrow> nat" where
  "end_rank Wait_First = 5" | "end_rank Close_Conn = 4" | "end_rank Close_Pty = 3"
| "end_rank Wait_Second = 2" | "end_rank Wait_Command = 1" | "end_rank Session_Over = 0"

definition session_rank :: "session \<Rightarrow> nat" where
  "session_rank s = in_rank (se_in s) + out_rank (se_out s) + end_rank (se_main s)"

lemma session_step_rank: "session_step cancels s s' \<Longrightarrow> session_rank s' < session_rank s"
  by (erule session_step.cases) (auto simp: session_rank_def send_done_def)

lemma session_world_rank: "session_world s s' \<Longrightarrow> session_rank s' \<le> session_rank s"
  by (erule session_world.cases) (auto simp: session_rank_def send_done_def)

text \<open>What has been sent and received on \<open>done\<close>, and what is closed when.\<close>

fun sent_in :: "in_pc \<Rightarrow> nat" where
  "sent_in In_Copying = 0" | "sent_in In_Sent = 1"

fun sent_out :: "out_pc \<Rightarrow> nat" where
  "sent_out Out_Sent = 1" | "sent_out _ = 0"

fun received :: "end_pc \<Rightarrow> nat" where
  "received Wait_First = 0" | "received Close_Conn = 1" | "received Close_Pty = 1"
| "received Wait_Second = 1" | "received Wait_Command = 2" | "received Session_Over = 2"

definition session_inv :: "session \<Rightarrow> bool" where
  "session_inv s \<longleftrightarrow>
     se_done s + received (se_main s) = sent_in (se_in s) + sent_out (se_out s) \<and>
     (se_main s \<in> {Close_Pty, Wait_Second, Wait_Command, Session_Over} \<longrightarrow> \<not> conn_open s) \<and>
     (se_main s \<in> {Wait_Second, Wait_Command, Session_Over} \<longrightarrow> \<not> se_pty s) \<and>
     (se_main s = Session_Over \<longrightarrow> \<not> se_command s)"

lemmas session_defs = session_inv_def send_done_def conn_open_def vc_CloseWrite_def vc_Close_def

lemma session_step_inv: "session_step cancels s s' \<Longrightarrow> session_inv s \<Longrightarrow> session_inv s'"
  by (erule session_step.cases) (auto simp: session_defs)

lemma session_world_inv: "session_world s s' \<Longrightarrow> session_inv s \<Longrightarrow> session_inv s'"
  by (erule session_world.cases) (auto simp: session_defs)

lemma session_run_inv: "session_run cancels (session_start c f) s \<Longrightarrow> session_inv s"
proof (induction rule: session_run.induct)
  case session_starts
  then show ?case by (simp add: session_start_def session_defs)
qed (auto intro: session_step_inv session_world_inv)

text \<open>A session that cannot go on by itself waits for the command, or for the host.\<close>

lemma session_goes_on:
  assumes "session_inv s" "se_main s \<noteq> Session_Over" "\<not> se_command s" "cancels \<or> \<not> se_peer s"
  shows "\<exists>s'. session_step cancels s s'"
proof (cases "se_done s")
  case 0
  show ?thesis
  proof (cases "se_main s")
    case Wait_First
    then have "se_out s \<noteq> Out_Sent" using assms(1) 0 by (cases "se_out s") (auto simp: session_inv_def)
    then show ?thesis using assms(3) by (cases "se_out s") (auto intro: out_ends out_half_closes)
  next
    case Wait_Second
    then have closed: "\<not> conn_open s" "\<not> se_pty s" using assms(1) by (auto simp: session_inv_def)
    show ?thesis
    proof (cases "se_in s")
      case In_Copying
      then show ?thesis using closed assms(4) by (auto intro: in_ends)
    next
      case In_Sent
      then have "se_out s \<noteq> Out_Sent" using assms(1) 0 Wait_Second by (auto simp: session_inv_def)
      then show ?thesis using assms(3) by (cases "se_out s") (auto intro: out_ends out_half_closes)
    qed
  qed (use assms in \<open>auto intro: session_step.intros\<close>)
next
  case (Suc n)
  then show ?thesis using assms by (cases "se_main s") (auto intro: session_step.intros)
qed

lemma session_rank_bound: "session_rank s \<le> 8"
  by (cases "se_in s"; cases "se_out s"; cases "se_main s") (simp_all add: session_rank_def)

lemma session_over:
  assumes "session_inv s" "se_main s = Session_Over"
  shows "se_in s = In_Sent \<and> se_out s = Out_Sent \<and> se_done s = 0 \<and> \<not> conn_open s \<and> \<not> se_pty s \<and> \<not> se_command s"
proof -
  have "sent_in (se_in s) \<le> 1" "sent_out (se_out s) \<le> 1" by (cases "se_in s"; simp) (cases "se_out s"; simp)
  then have "sent_in (se_in s) = 1 \<and> sent_out (se_out s) = 1 \<and> se_done s = 0"
    using assms by (simp add: session_inv_def)
  then show ?thesis using assms by (cases "se_in s"; cases "se_out s") (simp_all add: session_inv_def)
qed

text \<open>
  On a descriptor in blocking mode, which a plain \<open>accept\<close> gives, a session whose command has exited
  stays as it is for as long as the host keeps its end open.
\<close>

lemma session_waits_for_host:
  "\<exists>s. session_run False (session_start c f) s \<and> \<not> se_command s \<and> se_peer s \<and>
     se_main s = Wait_Second \<and> (\<forall>s'. \<not> session_step False s s')"
proof -
  define s where "s = \<lparr>se_conn = c, se_fds = f(vc_fd c := None), se_in = In_Copying, se_out = Out_Sent,
    se_main = Wait_Second, se_done = 0, se_pty = False, se_peer = True, se_command = False\<rparr>"
  note sess = session_start_def vc_CloseWrite_def vc_Close_def send_done_def
  have "session_run False (session_start c f) ((session_start c f)\<lparr>se_command := False\<rparr>)" (is "session_run _ _ ?a")
    by (rule world_moves_session [OF session_starts command_exits])
  then have "session_run False (session_start c f) (?a\<lparr>se_out := Out_Closing\<rparr>)" (is "session_run _ _ ?b")
    by (rule session_moves [OF _ out_ends]) (simp_all add: session_start_def)
  then have "session_run False (session_start c f)
      (send_done (?b\<lparr>se_out := Out_Sent, se_fds := vc_CloseWrite (se_conn ?b) (se_fds ?b)\<rparr>))" (is "session_run _ _ ?d")
    by (rule session_moves [OF _ out_half_closes]) simp
  then have "session_run False (session_start c f) (?d\<lparr>se_main := Close_Conn, se_done := 0\<rparr>)" (is "session_run _ _ ?e")
    by (rule session_moves [OF _ first_done]) (simp_all add: session_start_def send_done_def)
  then have "session_run False (session_start c f) (?e\<lparr>se_main := Close_Pty, se_fds := vc_Close (se_conn ?e) (se_fds ?e)\<rparr>)"
      (is "session_run _ _ ?g")
    by (rule session_moves [OF _ closes_conn]) simp
  then have "session_run False (session_start c f) (?g\<lparr>se_main := Wait_Second, se_pty := False\<rparr>)"
    by (rule session_moves [OF _ closes_pty]) simp
  moreover have "?g\<lparr>se_main := Wait_Second, se_pty := False\<rparr> = s"
    by (simp add: sess s_def)
  ultimately have "session_run False (session_start c f) s" by simp
  moreover have "\<not> session_step False s s'" for s'
    by (auto simp: s_def elim: session_step.cases)
  moreover have "\<not> se_command s" "se_peer s" "se_main s = Wait_Second" by (simp_all add: s_def)
  ultimately show ?thesis by blast
qed

text \<open>
  C30 (termination). An exec session ends: each of its steps brings it closer to its end, which is at
  most eight steps away, and no step of the world takes it back; when the command has exited, and the
  host has closed its end or closing the connection makes the pending read return, a session that
  is not over can go on. When it is over, both copies have ended, the connection and the terminal
  are closed and the command has been waited for.
\<close>

theorem session_ends:
  assumes "session_run cancels (session_start c f) s"
  shows "session_rank s \<le> 8 \<and>
    (\<forall>s'. session_step cancels s s' \<longrightarrow> session_rank s' < session_rank s) \<and>
    (\<forall>s'. session_world s s' \<longrightarrow> session_rank s' \<le> session_rank s) \<and>
    (se_main s \<noteq> Session_Over \<and> \<not> se_command s \<and> (cancels \<or> \<not> se_peer s) \<longrightarrow>
       (\<exists>s'. session_step cancels s s')) \<and>
    (se_main s = Session_Over \<longrightarrow>
       se_in s = In_Sent \<and> se_out s = Out_Sent \<and> \<not> conn_open s \<and> \<not> se_pty s \<and> \<not> se_command s)"
  using session_rank_bound session_step_rank session_world_rank
    session_goes_on [OF session_run_inv [OF assms]] session_over [OF session_run_inv [OF assms]]
  by blast

theorem session_ends_witness:
  "\<exists>s'. session_step True ((session_start (newVsockConn 7 vsockPortExec) Map.empty)\<lparr>se_command := False\<rparr>) s'"
proof -
  have "session_run True (session_start (newVsockConn 7 vsockPortExec) Map.empty)
      ((session_start (newVsockConn 7 vsockPortExec) Map.empty)\<lparr>se_command := False\<rparr>)"
    by (rule world_moves_session [OF session_starts command_exits])
  from session_ends [OF this] show ?thesis by (simp add: session_start_def)
qed

section \<open>Zombies\<close>

text \<open>
  Children of init: those that have exited and wait to be collected, and those that run.
  \<open>Wait4(-1, WNOHANG)\<close> collects one, gives 0 if none has exited, and fails if there are none.
\<close>

record children =
  zombies :: "nat list"
  live :: "nat list"

definition wait4 :: "children \<Rightarrow> (int \<times> bool) \<times> children" where
  "wait4 k =
     (case zombies k of
        z # zs \<Rightarrow> ((int z, True), k\<lparr>zombies := zs\<rparr>)
      | [] \<Rightarrow> (if live k = [] then (-1, False) else (0, True), k))"

text \<open>What \<open>reapZombies\<close> does on a signal: the process ids it collects.\<close>

function reap :: "children \<Rightarrow> int list \<times> children" where
  "reap k =
     (case wait4 k of ((pid, ok), k') \<Rightarrow>
        (if pid \<le> 0 \<or> \<not> ok then ([], k') else (case reap k' of (pids, k'') \<Rightarrow> (pid # pids, k''))))"
  by auto

termination
  by (relation "measure (\<lambda>k. length (zombies k))") (auto simp: wait4_def split: list.splits if_splits)

declare reap.simps [simp del]

text \<open>It collects all that have exited, whoever waits for them, and returns without waiting itself.\<close>

lemma reap_all:
  assumes "list_all (\<lambda>z. 0 < z) (zombies k)"
  shows "reap k = (map int (zombies k), k\<lparr>zombies := []\<rparr>)"
  using assms
proof (induction "zombies k" arbitrary: k)
  case Nil
  then show ?case by (simp add: reap.simps [of k] wait4_def)
next
  case (Cons z zs)
  from Cons.hyps(1) [of "k\<lparr>zombies := zs\<rparr>"] Cons.prems Cons.hyps(2) [symmetric] show ?case
    by (simp add: reap.simps [of k] wait4_def)
qed

text \<open>
  \<open>cmd.Wait\<close> waits for one process: it gets the status if it comes first, and an error (\<open>ECHILD\<close>)
  if the reaper has taken it.
\<close>

definition cmd_Wait :: "nat \<Rightarrow> children \<Rightarrow> (string option \<times> children) option" where
  "cmd_Wait pid k =
     (if pid \<in> set (zombies k) then Some (None, k\<lparr>zombies := remove1 pid (zombies k)\<rparr>)
      else if pid \<in> set (live k) then None
      else Some (Some ''wait: no child processes'', k))"

lemma reaper_takes_status:
  assumes "list_all (\<lambda>z. 0 < z) (zombies k)" "pid \<in> set (zombies k)" "pid \<notin> set (live k)"
  shows "cmd_Wait pid k = Some (None, k\<lparr>zombies := remove1 pid (zombies k)\<rparr>) \<and>
    cmd_Wait pid (snd (reap k)) = Some (Some ''wait: no child processes'', snd (reap k))"
  using assms by (simp add: cmd_Wait_def reap_all)

end
