(* ===== verification/Clone.thy ===== *)
theory Clone imports Image_Cache Operations begin

text \<open>
  Clones of image directories (machine/clone.go). The system call is a parameter; the locale
  \<open>clonefile\<close> states what its manual page promises, and the lemmas in it say what that gives for machines:
  a clone has the image's files, and what happens in one is not seen outside it.
\<close>

section \<open>The call\<close>

type_synonym clonefileat = "int \<Rightarrow> string \<Rightarrow> int \<Rightarrow> string \<Rightarrow> u32 \<Rightarrow> files \<Rightarrow> fs_result"

definition AT_FDCWD :: int where "AT_FDCWD = - 2"

definition cloneDir :: "clonefileat \<Rightarrow> string \<Rightarrow> string \<Rightarrow> files \<Rightarrow> fs_result" where
  "cloneDir sys src dst f = sys AT_FDCWD src AT_FDCWD dst 0 f"

text \<open>What can be seen below a directory: names, data, modes and links, not which inodes hold them.\<close>

datatype seen_node = Seen_Dir | Seen_File inode | Seen_Link string

type_synonym seen_tree = "string list \<rightharpoonup> seen_node"

fun seen_as :: "files \<Rightarrow> node \<Rightarrow> seen_node" where
  "seen_as f Dir = Seen_Dir"
| "seen_as f (File i) = Seen_File (inodes f i)"
| "seen_as f (Symlink t) = Seen_Link t"

definition tree_at :: "files \<Rightarrow> string list \<Rightarrow> seen_tree" where
  "tree_at f d p = map_option (seen_as f) (nodes f (d @ p))"

text \<open>A clone has the bits for setuid and setgid off.\<close>

definition stripped :: "inode \<Rightarrow> inode" where
  "stripped n = n\<lparr>i_mode := and (i_mode n) 0x3FF\<rparr>"

fun cloned_node :: "seen_node \<Rightarrow> seen_node" where
  "cloned_node (Seen_File n) = Seen_File (stripped n)"
| "cloned_node x = x"

definition cloned_tree :: "seen_tree \<Rightarrow> seen_tree" where
  "cloned_tree T p = map_option cloned_node (T p)"

text \<open>\<open>f'\<close> is \<open>f\<close> with a clone of \<open>s\<close> at \<open>d\<close>, in files of its own.\<close>

definition cloned :: "string list \<Rightarrow> string list \<Rightarrow> files \<Rightarrow> files \<Rightarrow> bool" where
  "cloned s d f f' \<longleftrightarrow>
     tree_at f' d = cloned_tree (tree_at f s) \<and>
     (\<forall>p j. nodes f' (d @ p) = Some (File j) \<longrightarrow> next_inode f \<le> j \<and> j < next_inode f') \<and>
     (\<forall>q. \<not> prefix d q \<longrightarrow> nodes f' q = nodes f q) \<and>
     (\<forall>i<next_inode f. inodes f' i = inodes f i) \<and> next_inode f \<le> next_inode f' \<and> cwd f' = cwd f"

text \<open>
  The source is followed through links, the destination must not exist; it is all or nothing.
\<close>

locale clonefile =
  fixes sys :: clonefileat
  assumes fails: "sys AT_FDCWD src AT_FDCWD dst 0 f = (Some e, f') \<Longrightarrow> f' = f"
    and clones: "sys AT_FDCWD src AT_FDCWD dst 0 f = (None, f') \<Longrightarrow> fresh_inodes f \<Longrightarrow>
      \<exists>s d. follow f (start f src) (elems src) = Inr s \<and> nodes f s \<noteq> None \<and>
        place f (start f dst) (elems dst) = Inr d \<and> nodes f d = None \<and> cloned s d f f'"
begin

lemma cloneDir_fails: "cloneDir sys src dst f = (Some e, f') \<Longrightarrow> f' = f"
  unfolding cloneDir_def by (rule fails)

lemma cloneDir_clones:
  assumes "cloneDir sys src dst f = (None, f')" "fresh_inodes f" "place f (start f dst) (elems dst) = Inr d"
  obtains s where "follow f (start f src) (elems src) = Inr s" "nodes f s \<noteq> None" "nodes f d = None" "cloned s d f f'"
  using clones [OF assms(1) [unfolded cloneDir_def] assms(2)] assms(3) by auto

end

text \<open>
  A copy of all nodes with inodes of its own satisfies the promise; the call of macOS shares the
  blocks of the files besides, until they are written.
\<close>

fun renumbered :: "nat \<Rightarrow> node \<Rightarrow> node" where
  "renumbered n (File i) = File (n + i)"
| "renumbered n x = x"

definition copy_at :: "string list \<Rightarrow> string list \<Rightarrow> files \<Rightarrow> files" where
  "copy_at s d f =
     f\<lparr>nodes := (\<lambda>q. if prefix d q then map_option (renumbered (next_inode f)) (nodes f (s @ drop (length d) q))
                    else nodes f q),
       inodes := (\<lambda>j. if j < next_inode f then inodes f j else stripped (inodes f (j - next_inode f))),
       next_inode := 2 * next_inode f\<rparr>"

definition copying_clone :: clonefileat where
  "copying_clone a src b dst flags f =
     (case follow f (start f src) (elems src) of
        Inl e \<Rightarrow> (Some e, f)
      | Inr s \<Rightarrow>
          (if nodes f s = None then (Some ENOENT, f)
           else
             (case place f (start f dst) (elems dst) of
                Inl e \<Rightarrow> (Some e, f)
              | Inr d \<Rightarrow> (if nodes f d \<noteq> None then (Some EEXIST, f) else (None, copy_at s d f)))))"

lemma seen_copy:
  "seen_as (copy_at s d f) (renumbered (next_inode f) nd) = cloned_node (seen_as f nd)"
  by (cases nd) (simp_all add: copy_at_def)

lemma cloned_copy:
  assumes "fresh_inodes f"
  shows "cloned s d f (copy_at s d f)"
proof -
  have n: "nodes (copy_at s d f) (d @ p) = map_option (renumbered (next_inode f)) (nodes f (s @ p))" for p
    by (simp add: copy_at_def)
  have "tree_at (copy_at s d f) d = cloned_tree (tree_at f s)"
    by (rule ext) (simp add: tree_at_def cloned_tree_def n option.map_comp comp_def seen_copy)
  moreover have "next_inode f \<le> j \<and> j < 2 * next_inode f"
    if h: "nodes (copy_at s d f) (d @ p) = Some (File j)" for p j
  proof -
    obtain nd where nd: "nodes f (s @ p) = Some nd" "renumbered (next_inode f) nd = File j"
      using h n by auto
    then obtain i where "nd = File i" "j = next_inode f + i" by (cases nd) auto
    then show ?thesis using nd(1) assms by (auto simp: fresh_inodes_def)
  qed
  ultimately show ?thesis by (simp add: cloned_def) (simp add: copy_at_def)
qed

interpretation copying: clonefile copying_clone
proof
  show "f' = f" if "copying_clone AT_FDCWD src AT_FDCWD dst 0 f = (Some e, f')" for src dst f e f'
    using that by (auto simp: copying_clone_def split: sum.splits if_splits)
  show "\<exists>s d. follow f (start f src) (elems src) = Inr s \<and> nodes f s \<noteq> None \<and>
        place f (start f dst) (elems dst) = Inr d \<and> nodes f d = None \<and> cloned s d f f'"
    if "copying_clone AT_FDCWD src AT_FDCWD dst 0 f = (None, f')" "fresh_inodes f" for src dst f f'
    using that cloned_copy [OF that(2)] by (auto simp: copying_clone_def split: sum.splits if_splits)
qed

section \<open>What a guest does to its clone\<close>

text \<open>
  The clone is the root of the guest's file system, which libkrun's server keeps inside it. A guest
  writes to its files, makes new ones, and makes, links, moves and removes nodes.
\<close>

inductive guest_write :: "string list \<Rightarrow> files \<Rightarrow> files \<Rightarrow> bool" for d where
  writes: "nodes f (d @ p) = Some (File i) \<Longrightarrow>
     guest_write d f (f\<lparr>inodes := (inodes f)(i := n)\<rparr>)"
| creates: "nodes f (d @ p) = None \<Longrightarrow>
     guest_write d f (f\<lparr>nodes := (nodes f)(d @ p \<mapsto> File (next_inode f)),
       inodes := (inodes f)(next_inode f := n), next_inode := Suc (next_inode f)\<rparr>)"
| arranges: "\<forall>p i. m p = Some (File i) \<longrightarrow> (\<exists>p'. nodes f (d @ p') = Some (File i)) \<Longrightarrow>
     guest_write d f (f\<lparr>nodes := (\<lambda>q. if prefix d q then m (drop (length d) q) else nodes f q)\<rparr>)"

text \<open>No file below \<open>d\<close> has a name outside.\<close>

definition apart :: "string list \<Rightarrow> files \<Rightarrow> bool" where
  "apart d f \<longleftrightarrow> (\<forall>p q i. nodes f (d @ p) = Some (File i) \<longrightarrow> nodes f q = Some (File i) \<longrightarrow> prefix d q)"

lemma apartD: "apart d f \<Longrightarrow> nodes f (d @ p) = Some (File i) \<Longrightarrow> nodes f q = Some (File i) \<Longrightarrow> prefix d q"
  by (auto simp: apart_def)

lemma parallel_below: "parallel d w \<Longrightarrow> \<not> prefix d (w @ p)"
  by (auto simp: prefix_append)

lemma prefix_split: "prefix d q \<Longrightarrow> \<exists>p. q = d @ p"
  by (auto simp: prefix_def)

lemma tree_at_cong:
  assumes "\<And>p. nodes f' (w @ p) = nodes f (w @ p)"
    and "\<And>p nd. nodes f (w @ p) = Some nd \<Longrightarrow> seen_as f' nd = seen_as f nd"
  shows "tree_at f' w = tree_at f w"
proof
  show "tree_at f' w p = tree_at f w p" for p
    using assms(2) [of p] by (cases "nodes f (w @ p)") (simp_all add: tree_at_def assms(1))
qed

text \<open>What lies beside the clone looks the same.\<close>

lemma guest_write_beside:
  assumes "guest_write d f f'" "apart d f" "fresh_inodes f" "parallel d w"
  shows "tree_at f' w = tree_at f w"
proof -
  note out = parallel_below [OF assms(4)]
  have "seen_as f' nd = seen_as f nd" if "nodes f (w @ p) = Some nd" for p nd
    using assms(1)
  proof cases
    case (writes p' i n)
    have "nd \<noteq> File i" using apartD [OF assms(2) writes(2)] that out by auto
    then show ?thesis using writes(1) by (cases nd) auto
  next
    case (creates p' n)
    have "nd \<noteq> File (next_inode f)" using that assms(3) by (auto simp: fresh_inodes_def)
    then show ?thesis using creates(1) by (cases nd) auto
  next
    case (arranges m)
    then show ?thesis by (cases nd) auto
  qed
  moreover have "nodes f' (w @ p) = nodes f (w @ p)" for p
    using assms(1)
  proof cases
    case (creates p' n)
    have "w @ p \<noteq> d @ p'" using out [of p] by (metis prefixI)
    then show ?thesis using creates(1) by simp
  qed (use out [of p] in simp_all)
  ultimately show ?thesis by (rule tree_at_cong [rotated])
qed

text \<open>The clone's files stay its own.\<close>

lemma guest_write_apart:
  assumes "guest_write d f f'" "apart e f" "fresh_inodes f" "parallel d e \<or> d = e"
  shows "apart e f'"
  unfolding apart_def
proof (intro allI impI)
  fix p q i
  assume h: "nodes f' (e @ p) = Some (File i)" "nodes f' q = Some (File i)"
  show "prefix e q"
    using assms(1)
  proof cases
    case (writes p' j n)
    then show ?thesis using h apartD [OF assms(2)] by simp
  next
    case (creates p' n)
    have new: "r = d @ p'" if "nodes f' r = Some (File (next_inode f))" for r
      using that creates(1) assms(3) by (auto simp: fresh_inodes_def split: if_splits)
    show ?thesis
    proof (cases "i = next_inode f")
      case True
      then have "q = e @ p" using new [of q] new [of "e @ p"] h by simp
      then show ?thesis by simp
    next
      case False
      then have "nodes f (e @ p) = Some (File i)" "nodes f q = Some (File i)"
        using h creates(1) by (simp_all split: if_splits)
      then show ?thesis by (rule apartD [OF assms(2)])
    qed
  next
    case (arranges m)
    have below: "\<exists>p'. nodes f (d @ p') = Some (File i)" if "prefix d r" "nodes f' r = Some (File i)" for r
      using that arranges by auto
    have same: "nodes f' r = nodes f r" if "\<not> prefix d r" for r using that arranges(1) by simp
    show ?thesis
    proof (cases "d = e")
      case True
      obtain p' where "nodes f (d @ p') = Some (File i)" using below [of "d @ p"] h(1) True by auto
      then show ?thesis
        using True h(2) same [of q] apartD [OF assms(2) [folded True], of p' i q] by (cases "prefix e q") simp_all
    next
      case False
      then have out: "\<not> prefix d (e @ p)" using assms(4) parallel_below by blast
      then have old: "nodes f (e @ p) = Some (File i)" using h(1) same by simp
      show ?thesis
      proof (cases "prefix d q")
        case True
        then obtain p' where "nodes f (d @ p') = Some (File i)" using below [of q] h(2) by auto
        then have "prefix e (d @ p')" using apartD [OF assms(2) old] by blast
        then show ?thesis using False assms(4) parallel_below [of e d] by (auto simp: parallel_def)
      next
        case q: False
        then show ?thesis using h(2) same apartD [OF assms(2) old, of q] by simp
      qed
    qed
  qed
qed

lemma guest_write_fresh:
  assumes "guest_write d f f'" "fresh_inodes f"
  shows "fresh_inodes f'"
  using assms(1)
proof cases
  case (arranges m)
  have "i < next_inode f'" if "nodes f' q = Some (File i)" for q i
    using that arranges assms(2) by (cases "prefix d q") (auto simp: fresh_inodes_def)
  then show ?thesis by (simp add: fresh_inodes_def)
qed (use assms(2) in \<open>auto simp: fresh_inodes_def less_Suc_eq split: if_splits\<close>)

section \<open>Machines on the host's disk\<close>

text \<open>
  The clones are made by \<open>Create\<close>, one for each id, in a directory that leads to \<open>R\<close>; guests write to them;
  \<open>Delete\<close> removes them. \<open>ids\<close> are those that have a clone.
\<close>

type_synonym disk = "files \<times> string set"

definition clone_place :: "string \<Rightarrow> string list \<Rightarrow> string \<Rightarrow> files \<Rightarrow> bool" where
  "clone_place root R i f \<longleftrightarrow>
     place f (start f (path_join [root, i])) (elems (path_join [root, i])) = Inr (R @ [i])"

inductive disk_step :: "clonefileat \<Rightarrow> string \<Rightarrow> string list \<Rightarrow> disk \<Rightarrow> string \<Rightarrow> disk \<Rightarrow> bool" for sys root R where
  made: "i \<notin> ids \<Longrightarrow> clone_place root R i f \<Longrightarrow> cloneDir sys base (path_join [root, i]) f = (None, f') \<Longrightarrow>
     disk_step sys root R (f, ids) i (f', insert i ids)"
| not_made: "i \<notin> ids \<Longrightarrow> cloneDir sys base (path_join [root, i]) f = (Some e, f') \<Longrightarrow>
     disk_step sys root R (f, ids) i (f', ids)"
| written: "i \<in> ids \<Longrightarrow> guest_write (R @ [i]) f f' \<Longrightarrow> disk_step sys root R (f, ids) i (f', ids)"
| removed: "i \<in> ids \<Longrightarrow> clone_place root R i f \<Longrightarrow>
     disk_step sys root R (f, ids) i (os_RemoveAll f (path_join [root, i]), ids - {i})"

inductive disk_run :: "clonefileat \<Rightarrow> string \<Rightarrow> string list \<Rightarrow> disk \<Rightarrow> string list \<Rightarrow> disk \<Rightarrow> bool" for sys root R where
  run_none: "disk_run sys root R x [] x"
| run_step: "disk_run sys root R x hs y \<Longrightarrow> disk_step sys root R y i z \<Longrightarrow> disk_run sys root R x (hs @ [i]) z"

fun disk_inv :: "string list \<Rightarrow> disk \<Rightarrow> bool" where
  "disk_inv R (f, ids) \<longleftrightarrow> fresh_inodes f \<and> (\<forall>i\<in>ids. apart (R @ [i]) f)"

lemma siblings: "i \<noteq> j \<Longrightarrow> parallel (R @ [i]) (R @ [j])"
  by (auto simp: parallel_def prefix_def)

text \<open>Removing is an arrangement that leaves nothing.\<close>

lemma RemoveAll_arranges:
  assumes "place f (start f p) (elems p) = Inr d"
  shows "guest_write d f (os_RemoveAll f p)"
  using arranges [of "\<lambda>_. None" f d] assms by (simp add: os_RemoveAll_def)

text \<open>A clone shares no file with anything.\<close>

lemma cloned_fresh:
  assumes "cloned s d f f'" "fresh_inodes f"
  shows "fresh_inodes f'"
  unfolding fresh_inodes_def
proof (intro allI impI)
  fix q i
  assume h: "nodes f' q = Some (File i)"
  show "i < next_inode f'"
  proof (cases "prefix d q")
    case True
    then show ?thesis using h assms(1) by (auto simp: cloned_def dest!: prefix_split)
  next
    case False
    then have "nodes f q = Some (File i)" using h assms(1) by (simp add: cloned_def)
    then have "i < next_inode f" using assms(2) by (simp add: fresh_inodes_def)
    then show ?thesis using assms(1) by (simp add: cloned_def)
  qed
qed

lemma cloned_old_file:
  assumes "cloned s d f f'" "fresh_inodes f" "nodes f q = Some (File i)" "nodes f' r = Some (File i)"
  shows "\<not> prefix d r \<and> nodes f r = Some (File i)"
proof -
  have "i < next_inode f" using assms(2,3) by (auto simp: fresh_inodes_def)
  moreover have "next_inode f \<le> i" if "prefix d r"
    using that assms(1,4) by (auto simp: cloned_def dest!: prefix_split)
  ultimately have "\<not> prefix d r" by auto
  then show ?thesis using assms(1,4) by (simp add: cloned_def)
qed

lemma cloned_apart:
  assumes "cloned s d f f'" "fresh_inodes f" "apart e f \<and> parallel d e \<or> d = e"
  shows "apart e f'"
  unfolding apart_def
proof (intro allI impI)
  fix p q i
  assume h: "nodes f' (e @ p) = Some (File i)" "nodes f' q = Some (File i)"
  show "prefix e q"
  proof (cases "d = e")
    case True
    show ?thesis
    proof (rule ccontr)
      assume "\<not> prefix e q"
      then have "nodes f q = Some (File i)" using h(2) assms(1) True by (simp add: cloned_def)
      from cloned_old_file [OF assms(1,2) this h(1)] True show False by simp
    qed
  next
    case False
    then have e: "apart e f" "parallel d e" using assms(3) by auto
    then have "nodes f (e @ p) = Some (File i)"
      using h(1) assms(1) parallel_below [OF e(2)] by (simp add: cloned_def)
    then show ?thesis using cloned_old_file [OF assms(1,2) _ h(2)] apartD [OF e(1)] by blast
  qed
qed

lemma cloned_beside:
  assumes "cloned s d f f'" "fresh_inodes f" "parallel d w"
  shows "tree_at f' w = tree_at f w"
proof -
  have "nodes f' (w @ p) = nodes f (w @ p)" for p
    using assms(1) parallel_below [OF assms(3)] by (simp add: cloned_def)
  moreover have "seen_as f' nd = seen_as f nd" if "nodes f (w @ p) = Some nd" for p nd
    using that assms(1,2) by (cases nd) (auto simp: cloned_def fresh_inodes_def)
  ultimately show ?thesis by (rule tree_at_cong)
qed

text \<open>Machines, and one of them, along a run.\<close>

context clonefile
begin

lemma disk_step_inv:
  assumes "disk_step sys root R x i y" "disk_inv R x"
  shows "disk_inv R y"
  using assms
proof (induction rule: disk_step.induct)
  case (made i ids f base f')
  obtain s where s: "cloned s (R @ [i]) f f'"
    using cloneDir_clones [OF made(3) _ made(2) [unfolded clone_place_def]] made(4) by auto
  have "apart (R @ [j]) f'" if "j \<in> insert i ids" for j
    using that made(4) siblings [of i j R] by (intro cloned_apart [OF s]) auto
  then show ?case using cloned_fresh [OF s] made(4) by simp
next
  case (not_made i ids base f e f')
  then show ?case using cloneDir_fails [OF not_made(2)] by simp
next
  case (written i ids f f')
  have "apart (R @ [j]) f'" if "j \<in> ids" for j
    using that written siblings [of i j R] by (intro guest_write_apart [OF written(2)]) auto
  then show ?case using guest_write_fresh [OF written(2)] written(3) by simp
next
  case (removed i ids f)
  note w = RemoveAll_arranges [OF removed(2) [unfolded clone_place_def]]
  have "apart (R @ [j]) (os_RemoveAll f (path_join [root, i]))" if "j \<in> ids - {i}" for j
    using that removed siblings [of i j R] by (intro guest_write_apart [OF w]) auto
  then show ?case using guest_write_fresh [OF w] removed(3) by simp
qed

lemma disk_run_inv: "disk_run sys root R x hs y \<Longrightarrow> disk_inv R x \<Longrightarrow> disk_inv R y"
  by (induction rule: disk_run.induct) (auto intro: disk_step_inv)

lemma disk_step_beside:
  assumes "disk_step sys root R x i y" "disk_inv R x" "parallel (R @ [i]) w"
  shows "tree_at (fst y) w = tree_at (fst x) w"
  using assms
proof (induction rule: disk_step.induct)
  case (made i ids f base f')
  obtain s where s: "cloned s (R @ [i]) f f'"
    using cloneDir_clones [OF made(3) _ made(2) [unfolded clone_place_def]] made(4) by auto
  show ?case using cloned_beside [OF s] made by simp
next
  case (not_made i ids base f e f')
  then show ?case using cloneDir_fails [OF not_made(2)] by simp
next
  case (written i ids f f')
  then show ?case using guest_write_beside [OF written(2)] by simp
next
  case (removed i ids f)
  then show ?case using guest_write_beside [OF RemoveAll_arranges [OF removed(2) [unfolded clone_place_def]]] by simp
qed

lemma disk_run_beside:
  assumes "disk_run sys root R x hs y" "disk_inv R x" "\<forall>i\<in>set hs. parallel (R @ [i]) w"
  shows "tree_at (fst y) w = tree_at (fst x) w"
  using assms
proof (induction rule: disk_run.induct)
  case (run_step x hs y i z)
  then show ?case using disk_step_beside [OF run_step.hyps(2)] disk_run_inv [OF run_step.hyps(1)] by simp
qed simp

end

section \<open>Create with the disk\<close>

text \<open>
  \<open>Create\<close> with its call of \<open>cloneDir\<close>: the answer that the model of the manager takes is the call's.
\<close>

fun errno_text :: "errno \<Rightarrow> string" where
  "errno_text ENOENT = ''no such file or directory''"
| "errno_text ENOTDIR = ''not a directory''"
| "errno_text EEXIST = ''file exists''"
| "errno_text EISDIR = ''is a directory''"
| "errno_text ELOOP = ''too many levels of symbolic links''"
| "errno_text EPERM = ''operation not permitted''"

definition Create_on_disk ::
  "clonefileat \<Rightarrow> answers \<Rightarrow> answers \<Rightarrow> string \<Rightarrow> string \<Rightarrow> config \<Rightarrow> network_config \<Rightarrow> mgr \<Rightarrow> files \<Rightarrow>
     (thread \<times> mgr) \<times> files" where
  "Create_on_disk sys a b name base cfg netCfg s f =
     (let (e, f') = (if base = [] then (None, f) else cloneDir sys base (own_clone s (a_uuid a)) f);
          (t, s', ts) = run_thread [a\<lparr>a_clone := map_option errno_text e\<rparr>, b] (create_call name base cfg netCfg) s
      in ((t, s'), f'))"

lemma Create_on_disk_ok:
  assumes "Create_on_disk sys a b name base cfg netCfg s f = ((Done (Ok_Machine r), s'), f')" "base \<noteq> []"
  shows "cloneDir sys base (own_clone s (a_uuid a)) f = (None, f') \<and>
    RootfsPath (Config (objs s' r)) = own_clone s (a_uuid a) \<and> ID (objs s' r) = a_uuid a"
  using assms
  by (cases "fst (cloneDir sys base (own_clone s (a_uuid a)) f)")
    (auto simp: Create_on_disk_def create_call_def own_clone_def Let_def split: prod.splits)

lemma Create_on_disk_fails:
  assumes "Create_on_disk sys a b name base cfg netCfg s f = ((Done (Err e), s'), f')" "clonefile sys"
  shows "s' = s \<and> f' = f"
  using assms clonefile.cloneDir_fails [OF assms(2)]
  by (cases "fst (cloneDir sys base (own_clone s (a_uuid a)) f)")
    (auto simp: Create_on_disk_def create_call_def Let_def split: prod.splits if_splits)

text \<open>A machine's disk, from its creation on, and what lies beside it.\<close>

lemma Create_on_disk_makes:
  assumes "clonefile sys" "disk_inv R (f, ids)"
    and "Create_on_disk sys a b name base cfg netCfg s f = ((Done (Ok_Machine r), s'), f1)" "base \<noteq> []"
    and "a_uuid a \<notin> ids" "clone_place (rootfsDir s) R (a_uuid a) f"
    and "follow f (start f base) (elems base) = Inr image_place"
  shows "disk_step sys (rootfsDir s) R (f, ids) (a_uuid a) (f1, insert (a_uuid a) ids) \<and>
    RootfsPath (Config (objs s' r)) = path_join [rootfsDir s, a_uuid a] \<and>
    tree_at f1 (R @ [a_uuid a]) = cloned_tree (tree_at f image_place)"
proof -
  note c = Create_on_disk_ok [OF assms(3,4)]
  then have m: "cloneDir sys base (path_join [rootfsDir s, a_uuid a]) f = (None, f1)"
    by (simp add: own_clone_def)
  then have "disk_step sys (rootfsDir s) R (f, ids) (a_uuid a) (f1, insert (a_uuid a) ids)"
    by (rule made [OF assms(5,6)])
  moreover obtain s1 where "follow f (start f base) (elems base) = Inr s1" "cloned s1 (R @ [a_uuid a]) f f1"
    using clonefile.cloneDir_clones [OF assms(1) m _ assms(6) [unfolded clone_place_def]] assms(2) by auto
  ultimately show ?thesis using c assms(7) by (simp add: cloned_def own_clone_def)
qed

lemma disk_of_created:
  assumes "clonefile sys" "disk_inv R (f, ids)"
    and "Create_on_disk sys a b name base cfg netCfg s f = ((Done (Ok_Machine r), s'), f1)" "base \<noteq> []"
    and "a_uuid a \<notin> ids" "clone_place (rootfsDir s) R (a_uuid a) f"
    and "follow f (start f base) (elems base) = Inr image_place"
    and "disk_run sys (rootfsDir s) R (f1, insert (a_uuid a) ids) ls (f2, ids2)" "a_uuid a \<notin> set ls"
  shows "RootfsPath (Config (objs s' r)) = path_join [rootfsDir s, a_uuid a] \<and>
    tree_at f2 (R @ [a_uuid a]) = cloned_tree (tree_at f image_place)"
proof -
  note mk = Create_on_disk_makes [OF assms(1-7)]
  have "disk_inv R (f1, insert (a_uuid a) ids)"
    using clonefile.disk_step_inv [OF assms(1) conjunct1 [OF mk] assms(2)] .
  moreover have "\<forall>i\<in>set ls. parallel (R @ [i]) (R @ [a_uuid a])" using assms(9) siblings by metis
  ultimately have "tree_at f2 (R @ [a_uuid a]) = tree_at f1 (R @ [a_uuid a])"
    using clonefile.disk_run_beside [OF assms(1,8)] by simp
  then show ?thesis using mk by simp
qed

lemma image_of_created:
  assumes "clonefile sys" "disk_inv R (f, ids)" "disk_step sys root R (f, ids) i (f1, ids1)"
    and "disk_run sys root R (f1, ids1) ls (f2, ids2)" "\<forall>j\<in>insert i (set ls). parallel (R @ [j]) w"
  shows "tree_at f2 w = tree_at f w"
  using clonefile.disk_run_beside [OF assms(1,4) clonefile.disk_step_inv [OF assms(1,3,2)], of w]
    clonefile.disk_step_beside [OF assms(1,3,2), of w] assms(5) by simp

text \<open>
  C17 (safety). Machines do not share their disks: when machines have been made, written to and deleted in any
  order, a further \<open>Create\<close> gives a machine whose root file system is the image's, and it stays so
  until that machine's own guest writes or the machine is deleted, whatever other machines, of the same image
  too, do meanwhile; and the image is never changed. \<open>sys\<close> is any \<open>clonefileat\<close> that
  keeps its manual's promise, and the image does not lie in a clone.
\<close>

theorem machines_do_not_share_disks:
  assumes "clonefile sys" and "fresh_inodes f0"
    and "disk_run sys (rootfsDir s) R (f0, {}) hs (f, ids)"
    and "Create_on_disk sys a b name base cfg netCfg s f = ((Done (Ok_Machine r), s'), f1)"
    and "base \<noteq> []" and "a_uuid a \<notin> ids" and "clone_place (rootfsDir s) R (a_uuid a) f"
    and "follow f (start f base) (elems base) = Inr image_place"
    and "disk_run sys (rootfsDir s) R (f1, insert (a_uuid a) ids) ls (f2, ids2)"
  shows "RootfsPath (Config (objs s' r)) = path_join [rootfsDir s, a_uuid a] \<and>
    (a_uuid a \<notin> set ls \<longrightarrow> tree_at f2 (R @ [a_uuid a]) = cloned_tree (tree_at f image_place)) \<and>
    ((\<forall>i\<in>insert (a_uuid a) (set ls). parallel (R @ [i]) image_place) \<longrightarrow>
      tree_at f2 image_place = tree_at f image_place)"
proof -
  have inv: "disk_inv R (f, ids)" using clonefile.disk_run_inv [OF assms(1,3)] assms(2) by simp
  note mk = Create_on_disk_makes [OF assms(1) inv assms(4-8)]
  show ?thesis
    using mk disk_of_created [OF assms(1) inv assms(4-9)]
      image_of_created [OF assms(1) inv conjunct1 [OF mk] assms(9), of image_place] by blast
qed

text \<open>A host with one image, and two machines made from it; the guest of one overwrites a file.\<close>

definition image_host :: files where
  "image_host =
     \<lparr>nodes = [[] \<mapsto> Dir, [''s''] \<mapsto> Dir, [''s'', ''rootfs''] \<mapsto> Dir, [''i''] \<mapsto> Dir, [''i'', ''sh''] \<mapsto> File 0],
      inodes = (\<lambda>i. \<lparr>i_data = ''sh'', i_mode = 0x1ED\<rparr>), next_inode = 1, cwd = []\<rparr>"

abbreviation clones_dir :: "string list" where
  "clones_dir \<equiv> [''s'', ''rootfs'']"

definition one_clone :: files where
  "one_clone = copy_at [''i''] (clones_dir @ [''u2'']) image_host"

definition two_clones :: files where
  "two_clones = copy_at [''i''] (clones_dir @ [''u1'']) one_clone"

definition evil :: files where
  "evil = two_clones\<lparr>inodes := (inodes two_clones)(1 := \<lparr>i_data = ''evil'', i_mode = 0\<rparr>)\<rparr>"

lemma cloneDir_copies:
  assumes "follow f (start f src) (elems src) = Inr s" "nodes f s \<noteq> None"
    "place f (start f dst) (elems dst) = Inr d" "nodes f d = None"
  shows "cloneDir copying_clone src dst f = (None, copy_at s d f)"
  using assms by (simp add: cloneDir_def copying_clone_def)

lemma places_on_host:
  "follow image_host (start image_host ''/i'') (elems ''/i'') = Inr [''i'']" "nodes image_host [''i''] \<noteq> None"
  "clone_place ''/s/rootfs'' clones_dir ''u2'' image_host" "nodes image_host (clones_dir @ [''u2'']) = None"
  "follow one_clone (start one_clone ''/i'') (elems ''/i'') = Inr [''i'']" "nodes one_clone [''i''] \<noteq> None"
  "clone_place ''/s/rootfs'' clones_dir ''u1'' one_clone" "nodes one_clone (clones_dir @ [''u1'']) = None"
  by code_simp+

lemma two_clones_made:
  "cloneDir copying_clone ''/i'' (path_join [''/s/rootfs'', ''u2'']) image_host = (None, one_clone)"
  "cloneDir copying_clone ''/i'' (path_join [''/s/rootfs'', ''u1'']) one_clone = (None, two_clones)"
  using cloneDir_copies [OF places_on_host(1,2) places_on_host(3) [unfolded clone_place_def] places_on_host(4)]
    cloneDir_copies [OF places_on_host(5,6) places_on_host(7) [unfolded clone_place_def] places_on_host(8)]
  by (simp_all only: one_clone_def two_clones_def)

lemma evil_written:
  "nodes two_clones (clones_dir @ [''u2''] @ [''sh'']) = Some (File 1)"
  "tree_at evil (clones_dir @ [''u2'']) [''sh''] = Some (Seen_File \<lparr>i_data = ''evil'', i_mode = 0\<rparr>)"
  "tree_at image_host [''i''] [''sh''] = Some (Seen_File \<lparr>i_data = ''sh'', i_mode = 0x1ED\<rparr>)"
  "tree_at one_clone [''i''] [''sh''] = Some (Seen_File \<lparr>i_data = ''sh'', i_mode = 0x1ED\<rparr>)"
  by code_simp+

theorem machines_do_not_share_disks_witness:
  "tree_at evil (clones_dir @ [''u2'']) [''sh''] = Some (Seen_File \<lparr>i_data = ''evil'', i_mode = 0\<rparr>) \<and>
   tree_at evil (clones_dir @ [''u1'']) [''sh''] = Some (Seen_File \<lparr>i_data = ''sh'', i_mode = 0x1ED\<rparr>) \<and>
   tree_at evil [''i''] [''sh''] = Some (Seen_File \<lparr>i_data = ''sh'', i_mode = 0x1ED\<rparr>)"
proof -
  have fr: "fresh_inodes image_host" by (auto simp: fresh_inodes_def image_host_def split: if_splits)
  have root: "rootfsDir demo_mgr = ''/s/rootfs''" by code_simp
  have "disk_step copying_clone (rootfsDir demo_mgr) clones_dir (image_host, {}) ''u2'' (one_clone, insert ''u2'' {})"
    unfolding root by (rule made [OF _ places_on_host(3) two_clones_made(1)]) simp
  from run_step [OF run_none this]
  have first: "disk_run copying_clone (rootfsDir demo_mgr) clones_dir (image_host, {}) [''u2''] (one_clone, {''u2''})"
    by simp
  have id: "a_uuid calm_answers = ''u1''" by (simp add: calm_answers_def)
  obtain r s' where c: "Create_on_disk copying_clone calm_answers calm_answers ''web'' ''/i'' demo_config
      \<lparr>ProxyAddr = []\<rparr> demo_mgr one_clone = ((Done (Ok_Machine r), s'), two_clones)"
    using two_clones_made(2) by (simp add: Create_on_disk_def own_clone_def root id create_call_def Let_def)
  have "disk_step copying_clone (rootfsDir demo_mgr) clones_dir (two_clones, {''u1'', ''u2''}) ''u2'' (evil, {''u1'', ''u2''})"
    unfolding evil_def by (rule written [OF _ writes]) (use evil_written(1) in simp_all)
  from run_step [OF run_none this]
  have later: "disk_run copying_clone (rootfsDir demo_mgr) clones_dir (two_clones, insert (a_uuid calm_answers) {''u2''})
      [''u2''] (evil, {''u1'', ''u2''})"
    by (simp add: id)
  have base: "''/i'' \<noteq> []" by simp
  have new: "a_uuid calm_answers \<notin> {''u2''}" by (simp add: id)
  have here: "clone_place (rootfsDir demo_mgr) clones_dir (a_uuid calm_answers) one_clone"
    unfolding root id by (rule places_on_host)
  have "parallel (clones_dir @ [i]) [''i'']" for i by (simp add: parallel_def)
  moreover have "and 0x1ED (0x3FF :: u32) = 0x1ED" by code_simp
  ultimately show ?thesis
    using machines_do_not_share_disks [OF copying.clonefile_axioms fr first c base new here places_on_host(5) later]
      evil_written(2,4)
    by (simp add: id cloned_tree_def stripped_def)
qed

end
