(* ===== verification/Machine_Image.thy ===== *)
theory Machine_Image imports Clone begin

text \<open>
  From the image cache to a machine's disk: \<open>Ensure\<close> fills the directory that \<open>Create\<close> clones, so that what
  a machine is told to execute is there.
\<close>

text \<open>What a directory holds, its clone holds.\<close>

lemma holds_file_seen:
  assumes "holds_file f ds d p t"
  shows "\<exists>n. cloned_tree (tree_at f d) p = Some (Seen_File n) \<and> i_data n = t"
  using assms by (auto simp: holds_file_def cloned_tree_def tree_at_def stripped_def)

lemma populated_follow: "populated ds d t f \<Longrightarrow> follow f [] ds = Inr d"
  by (auto simp: populated_def resolves_to_def follow_def)

lemma abs_path_nonempty [simp]: "abs_path ds \<noteq> []"
  by (simp add: abs_path_def)


text \<open>The example of the image cache, on a host with a directory for clones.\<close>

definition machine_host :: files where
  "machine_host = demo_files\<lparr>nodes := (nodes demo_files)([''s''] \<mapsto> Dir, [''s'', ''rootfs''] \<mapsto> Dir)\<rparr>"

definition prepared :: "(ensure_error + string) \<times> files" where
  "prepared = Ensure alone demo_ic (\<lambda>_. Inr demo_digest) (\<lambda>_. Inr demo_items) demo_ref machine_host"

lemma host_facts:
  "os_Stat machine_host (abs_path demo_place) = Inl ENOENT"
  "os_ReadFile machine_host (ic_vminitPath demo_ic) = Inr ''ELF''"
  by code_simp+

lemma prepared_facts:
  "case prepared of (r, f) \<Rightarrow> r = Inr (abs_path demo_place) \<and>
     clone_place ''/s/rootfs'' clones_dir ''u1'' f \<and> nodes f (clones_dir @ [''u1'']) = None"
  by code_simp

lemma wf_machine_host: "wf_files machine_host"
  by (auto simp: wf_files_def fresh_inodes_def machine_host_def demo_files_def Cons_eq_append_conv split: if_splits)


end
