(* ===== verification/Ensure_Threads.thy ===== *)
theory Ensure_Threads imports Clone begin

text \<open>
  Calls of \<open>Ensure\<close> that overlap (internal/api/image_cache.go): each call is a sequence of program points, one for each
  use of the file system or of the group, and the calls take turns. The group is a parameter; the locale
  \<open>singleflight\<close> states what its library documents. A call by itself is \<open>Ensure\<close> as it is modelled in one piece, and
  every call returns.
\<close>

section \<open>The group\<close>

text \<open>
  \<open>Do\<close>, taken apart: entering with a key begins a flight (\<open>Inl\<close>) or joins the one there is (\<open>Inr\<close>); the call
  that began it finishes it with what its function returned; the calls that joined get that result.
\<close>

record 'g group_ops =
  sf_enter :: "string \<Rightarrow> 'g \<Rightarrow> (nat + nat) \<times> 'g"
  sf_finish :: "string \<Rightarrow> ensure_error option \<Rightarrow> 'g \<Rightarrow> 'g"
  sf_flight :: "'g \<Rightarrow> string \<Rightarrow> nat option"
  sf_result :: "'g \<Rightarrow> nat \<Rightarrow> ensure_error option option"

locale singleflight =
  fixes sf :: "'g group_ops"
  assumes joins: "sf_flight sf g k = Some n \<Longrightarrow> sf_enter sf k g = (Inr n, g)"
    and begins: "sf_flight sf g k = None \<Longrightarrow>
      \<exists>n g'. sf_enter sf k g = (Inl n, g') \<and> sf_flight sf g' = (sf_flight sf g)(k \<mapsto> n) \<and>
        sf_result sf g' = sf_result sf g \<and> sf_result sf g n = None \<and> (\<forall>k'. sf_flight sf g k' \<noteq> Some n)"
    and finishes: "sf_flight sf g k = Some n \<Longrightarrow>
      sf_flight sf (sf_finish sf k r g) = (sf_flight sf g)(k := None) \<and>
      sf_result sf (sf_finish sf k r g) = (sf_result sf g)(n \<mapsto> r)"

text \<open>A group that keeps lists: of the flights with their keys, and of the results.\<close>

type_synonym listed_group = "(string \<times> nat) list \<times> (nat \<times> ensure_error option) list"

definition unused_flight :: "listed_group \<Rightarrow> nat" where
  "unused_flight g = Suc (sum_list (map snd (fst g)) + sum_list (map fst (snd g)))"

fun listed_enter :: "string \<Rightarrow> listed_group \<Rightarrow> (nat + nat) \<times> listed_group" where
  "listed_enter k (fs, rs) =
     (case map_of fs k of
        Some n \<Rightarrow> (Inr n, (fs, rs))
      | None \<Rightarrow> (Inl (unused_flight (fs, rs)), ((k, unused_flight (fs, rs)) # fs, rs)))"

fun listed_finish :: "string \<Rightarrow> ensure_error option \<Rightarrow> listed_group \<Rightarrow> listed_group" where
  "listed_finish k r (fs, rs) =
     (case map_of fs k of
        Some n \<Rightarrow> (filter (\<lambda>p. fst p \<noteq> k) fs, (n, r) # rs)
      | None \<Rightarrow> (fs, rs))"

definition listed_ops :: "listed_group group_ops" where
  "listed_ops =
     \<lparr>sf_enter = listed_enter, sf_finish = listed_finish, sf_flight = (\<lambda>g. map_of (fst g)), sf_result = (\<lambda>g. map_of (snd g))\<rparr>"

lemma sum_list_bound: "x \<in> set xs \<Longrightarrow> x \<noteq> Suc (sum_list xs + k)" "x \<in> set xs \<Longrightarrow> x \<noteq> Suc (k + sum_list (xs :: nat list))"
  using member_le_sum_list [of x xs] by auto

lemma unused_flight_new:
  "map_of (fst g) k \<noteq> Some (unused_flight g)" "map_of (snd g) (unused_flight g) = None"
proof -
  show "map_of (fst g) k \<noteq> Some (unused_flight g)"
  proof
    assume "map_of (fst g) k = Some (unused_flight g)"
    then have "unused_flight g \<in> set (map snd (fst g))" by (force dest: map_of_SomeD)
    then show False using sum_list_bound(1) unfolding unused_flight_def by blast
  qed
  show "map_of (snd g) (unused_flight g) = None"
    using sum_list_bound(2) [of "unused_flight g" "map fst (snd g)"]
    by (auto simp: unused_flight_def map_of_eq_None_iff)
qed

lemma map_of_without: "map_of (filter (\<lambda>p. fst p \<noteq> k) fs) = (map_of fs)(k := None)"
  by (induction fs) auto

interpretation listed: singleflight listed_ops
proof
  fix g :: listed_group and k n r
  obtain fs rs where g: "g = (fs, rs)" by (cases g)
  show "sf_flight listed_ops g k = Some n \<Longrightarrow> sf_enter listed_ops k g = (Inr n, g)"
    by (simp add: listed_ops_def g)
  show "sf_flight listed_ops g k = None \<Longrightarrow>
      \<exists>n g'. sf_enter listed_ops k g = (Inl n, g') \<and> sf_flight listed_ops g' = (sf_flight listed_ops g)(k \<mapsto> n) \<and>
        sf_result listed_ops g' = sf_result listed_ops g \<and> sf_result listed_ops g n = None \<and>
        (\<forall>k'. sf_flight listed_ops g k' \<noteq> Some n)"
    using unused_flight_new [of g] by (auto simp: listed_ops_def g)
  show "sf_flight listed_ops g k = Some n \<Longrightarrow>
      sf_flight listed_ops (sf_finish listed_ops k r g) = (sf_flight listed_ops g)(k := None) \<and>
      sf_result listed_ops (sf_finish listed_ops k r g) = (sf_result listed_ops g)(n \<mapsto> r)"
    by (simp add: listed_ops_def g map_of_without)
qed

section \<open>A call\<close>

text \<open>
  What a call is about: the reference, the digest that the registry gives for it, and what pulling and
  exporting the image gives when this call comes to do it.
\<close>

record ensure_call =
  ec_ref :: string
  ec_digest :: "string + string"
  ec_pull :: "string + tar_item list"

text \<open>
  The points. Those from \<open>Rechecking\<close> to \<open>Finishing\<close> are in the function that is given to \<open>Do\<close>; they carry the flight
  and its key. \<open>Extracting\<close> has the items that are left, and takes one at a time.
\<close>

datatype ensure_pc =
    Resolving
  | Checking string
  | Entering string
  | Waiting nat string
  | Rechecking nat string
  | Pulling nat string
  | Making nat string "tar_item list"
  | Extracting nat string "tar_item list"
  | Injecting nat string
  | Fixing nat string
  | Removing nat string ensure_error
  | Finishing nat string "ensure_error option"
  | Returned "ensure_error + string"

record 'g cache_state =
  cs_files :: files
  cs_group :: 'g

text \<open>What a call returns when the group has given it a result.\<close>

definition outcome :: "string \<Rightarrow> ensure_error option \<Rightarrow> ensure_pc" where
  "outcome dir r = Returned (case r of None \<Rightarrow> Inr dir | Some e \<Rightarrow> Inl e)"

definition on_files :: "'g cache_state \<Rightarrow> files \<Rightarrow> 'g cache_state" where
  "on_files x f = x\<lparr>cs_files := f\<rparr>"

lemma on_files_simps [simp]:
  "cs_files (on_files x f) = f" "cs_group (on_files x f) = cs_group x"
  "on_files (on_files x f) f' = on_files x f'" "on_files x (cs_files x) = x"
  by (simp_all add: on_files_def)

fun ensure_step ::
  "'g group_ops \<Rightarrow> image_cache_dir \<Rightarrow> ensure_call \<Rightarrow> ensure_pc \<Rightarrow> 'g cache_state \<Rightarrow> (ensure_pc \<times> 'g cache_state) option" where
  "ensure_step sf ic c Resolving x =
     Some (case ec_digest c of Inl e \<Rightarrow> Returned (Inl (Resolve_Digest e)) | Inr dg \<Rightarrow> Checking dg, x)"
| "ensure_step sf ic c (Checking dg) x =
     Some (case os_Stat (cs_files x) (image_dir ic (ec_ref c) dg) of
             Inr nd \<Rightarrow> Returned (Inr (image_dir ic (ec_ref c) dg))
           | Inl e \<Rightarrow> Entering dg, x)"
| "ensure_step sf ic c (Entering dg) x =
     Some (case sf_enter sf dg (cs_group x) of
             (Inr n, g) \<Rightarrow> (Waiting n dg, x\<lparr>cs_group := g\<rparr>)
           | (Inl n, g) \<Rightarrow> (Rechecking n dg, x\<lparr>cs_group := g\<rparr>))"
| "ensure_step sf ic c (Waiting n dg) x =
     (case sf_result sf (cs_group x) n of None \<Rightarrow> None | Some r \<Rightarrow> Some (outcome (image_dir ic (ec_ref c) dg) r, x))"
| "ensure_step sf ic c (Rechecking n dg) x =
     Some (case os_Stat (cs_files x) (image_dir ic (ec_ref c) dg) of
             Inr nd \<Rightarrow> Finishing n dg None
           | Inl e \<Rightarrow> Pulling n dg, x)"
| "ensure_step sf ic c (Pulling n dg) x =
     Some (case ec_pull c of Inl e \<Rightarrow> Finishing n dg (Some (Pull_Image e)) | Inr items \<Rightarrow> Making n dg items, x)"
| "ensure_step sf ic c (Making n dg items) x =
     Some (case os_MkdirAll (cs_files x) (image_dir ic (ec_ref c) dg) of
             (Some e, f) \<Rightarrow> (Finishing n dg (Some (Create_Cache_Dir e)), on_files x f)
           | (None, f) \<Rightarrow> (Extracting n dg items, on_files x f))"
| "ensure_step sf ic c (Extracting n dg []) x = Some (Injecting n dg, x)"
| "ensure_step sf ic c (Extracting n dg (Tar_Failed e # items)) x =
     Some (Removing n dg (Extract_Image (Tar_Read e)), x)"
| "ensure_step sf ic c (Extracting n dg (Tar_Entry h bytes cerr # items)) x =
     Some (case extract_entry (image_dir ic (ec_ref c) dg) h bytes cerr (cs_files x) of
             (Some e, f) \<Rightarrow> (Removing n dg (Extract_Image e), on_files x f)
           | (None, f) \<Rightarrow> (Extracting n dg items, on_files x f))"
| "ensure_step sf ic c (Injecting n dg) x =
     Some (case InjectInit (cs_files x) (image_dir ic (ec_ref c) dg) (ic_vminitPath ic) of
             (Some e, f) \<Rightarrow> (Removing n dg (Inject_Init e), on_files x f)
           | (None, f) \<Rightarrow> (Fixing n dg, on_files x f))"
| "ensure_step sf ic c (Fixing n dg) x =
     Some (case FixResolvConf (cs_files x) (image_dir ic (ec_ref c) dg) of
             (Some e, f) \<Rightarrow> (Removing n dg (Fix_Resolv e), on_files x f)
           | (None, f) \<Rightarrow> (Finishing n dg None, on_files x f))"
| "ensure_step sf ic c (Removing n dg e) x =
     Some (Finishing n dg (Some e), on_files x (os_RemoveAll (cs_files x) (image_dir ic (ec_ref c) dg)))"
| "ensure_step sf ic c (Finishing n dg r) x =
     Some (outcome (image_dir ic (ec_ref c) dg) r,
       x\<lparr>cs_group := sf_finish sf dg r (cs_group x)\<rparr>)"
| "ensure_step sf ic c (Returned res) x = None"

section \<open>A call by itself\<close>

text \<open>The points a call goes through when no other takes a turn, and what it finds in the end.\<close>

inductive alone_steps ::
  "'g group_ops \<Rightarrow> image_cache_dir \<Rightarrow> ensure_call \<Rightarrow> ensure_pc \<times> 'g cache_state \<Rightarrow> ensure_pc \<times> 'g cache_state \<Rightarrow> bool"
  for sf ic c where
  alone_stops: "alone_steps sf ic c y y"
| alone_goes: "ensure_step sf ic c pc x = Some y \<Longrightarrow> alone_steps sf ic c y z \<Longrightarrow> alone_steps sf ic c (pc, x) z"

lemma extracting_alone:
  assumes "alone_steps sf ic c
     (case extractTar (image_dir ic (ec_ref c) dg) items (cs_files x) of
        (Some e, f) \<Rightarrow> (Removing n dg (Extract_Image e), on_files x f)
      | (None, f) \<Rightarrow> (Injecting n dg, on_files x f)) z"
  shows "alone_steps sf ic c (Extracting n dg items, x) z"
  using assms
proof (induction items arbitrary: x)
  case Nil
  then show ?case by (auto intro: alone_goes)
next
  case (Cons it items)
  show ?case
  proof (cases it)
    case (Tar_Entry h bytes cerr)
    obtain r f where e: "extract_entry (image_dir ic (ec_ref c) dg) h bytes cerr (cs_files x) = (r, f)" by fastforce
    show ?thesis
    proof (cases r)
      case None
      have st: "ensure_step sf ic c (Extracting n dg (it # items)) x = Some (Extracting n dg items, on_files x f)"
        by (simp add: Tar_Entry e None)
      have "alone_steps sf ic c (Extracting n dg items, on_files x f) z"
        by (rule Cons.IH) (use Cons.prems in \<open>simp add: Tar_Entry e None split: prod.splits option.splits\<close>)
      then show ?thesis by (rule alone_goes [OF st])
    next
      case (Some err)
      then show ?thesis using Cons.prems by (auto simp: Tar_Entry e intro: alone_goes)
    qed
  next
    case (Tar_Failed e)
    then show ?thesis using Cons.prems by (auto intro: alone_goes)
  qed
qed

lemma populating_alone:
  assumes "populate ic (image_dir ic (ec_ref c) dg) items (cs_files x) = (r, f')"
    and "alone_steps sf ic c (Finishing n dg r, on_files x f') z"
  shows "alone_steps sf ic c (Extracting n dg items, x) z"
proof (rule extracting_alone)
  show "alone_steps sf ic c
     (case extractTar (image_dir ic (ec_ref c) dg) items (cs_files x) of
        (Some e, f) \<Rightarrow> (Removing n dg (Extract_Image e), on_files x f)
      | (None, f) \<Rightarrow> (Injecting n dg, on_files x f)) z"
    using assms
    by (auto simp: populate_def split: prod.splits option.splits intro!: alone_goes)
qed

lemma fetching_alone:
  assumes "fetch ic (image_dir ic (ec_ref c) dg) (ec_pull c) (cs_files x) = (r, f')"
    and "alone_steps sf ic c (Finishing n dg r, on_files x f') z"
  shows "alone_steps sf ic c (Rechecking n dg, x) z"
proof (cases "os_Stat (cs_files x) (image_dir ic (ec_ref c) dg)")
  case (Inr nd)
  then show ?thesis using assms by (auto simp: fetch_def intro: alone_goes)
next
  case (Inl e)
  show ?thesis
  proof (cases "ec_pull c")
    case (Inr items)
    obtain r1 f1 where m: "os_MkdirAll (cs_files x) (image_dir ic (ec_ref c) dg) = (r1, f1)" by fastforce
    have "alone_steps sf ic c (Making n dg items, x) z"
    proof (cases r1)
      case None
      have "alone_steps sf ic c (Extracting n dg items, on_files x f1) z"
        by (rule populating_alone [of _ _ _ _ _ r f']) (use assms Inl Inr m None in \<open>simp_all add: fetch_def\<close>)
      then show ?thesis using m None by (auto intro: alone_goes)
    next
      case (Some err)
      then show ?thesis using assms Inl Inr m by (auto simp: fetch_def intro: alone_goes)
    qed
    then show ?thesis using Inl Inr by (auto intro!: alone_goes [of _ _ _ "Rechecking n dg"] alone_goes [of _ _ _ "Pulling n dg"])
  next
    case Inl2: (Inl e2)
    then show ?thesis
      using assms Inl by (auto simp: fetch_def intro!: alone_goes [of _ _ _ "Rechecking n dg"] alone_goes [of _ _ _ "Pulling n dg"])
  qed
qed

context singleflight
begin

lemma entering_alone:
  assumes "sf_flight sf (cs_group x) dg = None"
    and "fetch ic (image_dir ic (ec_ref c) dg) (ec_pull c) (cs_files x) = (r, f')"
  obtains g where "alone_steps sf ic c (Entering dg, x) (outcome (image_dir ic (ec_ref c) dg) r, \<lparr>cs_files = f', cs_group = g\<rparr>)"
    and "sf_flight sf g = sf_flight sf (cs_group x)"
proof -
  obtain n g where g: "sf_enter sf dg (cs_group x) = (Inl n, g)" "sf_flight sf g = (sf_flight sf (cs_group x))(dg \<mapsto> n)"
    using begins [OF assms(1)] by blast
  let ?x = "x\<lparr>cs_group := g\<rparr>"
  let ?z = "(outcome (image_dir ic (ec_ref c) dg) r, \<lparr>cs_files = f', cs_group = sf_finish sf dg r g\<rparr>)"
  have "alone_steps sf ic c (Finishing n dg r, on_files ?x f') ?z"
    by (rule alone_goes [OF _ alone_stops]) (simp add: on_files_def)
  then have "alone_steps sf ic c (Rechecking n dg, ?x) ?z"
    by (rule fetching_alone [rotated]) (use assms(2) in simp)
  then have "alone_steps sf ic c (Entering dg, x) ?z" by (rule alone_goes [rotated]) (simp add: g)
  moreover have "sf_flight sf (sf_finish sf dg r g) = sf_flight sf (cs_group x)"
    using finishes [of g dg n r] g(2) assms(1) by auto
  ultimately show thesis by (rule that)
qed

lemma Ensure_alone_steps:
  assumes "sf_flight sf (cs_group x) = Map.empty"
    and "Ensure alone ic (\<lambda>_. ec_digest c) (\<lambda>_. ec_pull c) (ec_ref c) (cs_files x) = (res, f')"
  shows "\<exists>g. alone_steps sf ic c (Resolving, x) (Returned res, \<lparr>cs_files = f', cs_group = g\<rparr>) \<and> sf_flight sf g = Map.empty"
proof (cases "ec_digest c")
  case (Inl e)
  then have "alone_steps sf ic c (Resolving, x) (Returned res, x)" "f' = cs_files x"
    using assms(2) by (auto simp: Ensure_def intro: alone_goes alone_stops)
  then show ?thesis using assms(1) by (intro exI [of _ "cs_group x"]) (cases x, simp)
next
  case (Inr dg)
  have "\<exists>g. alone_steps sf ic c (Checking dg, x) (Returned res, \<lparr>cs_files = f', cs_group = g\<rparr>) \<and> sf_flight sf g = Map.empty"
  proof (cases "os_Stat (cs_files x) (image_dir ic (ec_ref c) dg)")
    case (Inl e)
    obtain r f1 where r: "fetch ic (image_dir ic (ec_ref c) dg) (ec_pull c) (cs_files x) = (r, f1)" by fastforce
    then have "f1 = f'" "outcome (image_dir ic (ec_ref c) dg) r = Returned res"
      using assms(2) Inl Inr by (auto simp: Ensure_def alone_def outcome_def Let_def split: option.splits)
    then obtain g where "alone_steps sf ic c (Entering dg, x) (Returned res, \<lparr>cs_files = f', cs_group = g\<rparr>)"
        "sf_flight sf g = Map.empty"
      using entering_alone [OF _ r] assms(1) by metis
    then show ?thesis using Inl by (intro exI [of _ g] conjI) (auto intro: alone_goes)
  next
    case (Inr nd)
    then have "alone_steps sf ic c (Checking dg, x) (Returned res, x)" "f' = cs_files x"
      using assms(2) \<open>ec_digest c = Inr dg\<close> by (auto simp: Ensure_def Let_def intro: alone_goes alone_stops)
    then show ?thesis using assms(1) by (intro exI [of _ "cs_group x"]) (cases x, simp)
  qed
  then show ?thesis using alone_goes [of sf ic c Resolving x "(Checking dg, x)"] Inr by auto
qed

end

lemma alone_steps_unique:
  assumes "alone_steps sf ic c y z" "alone_steps sf ic c y (Returned res, x)" "ensure_step sf ic c (fst z) (snd z) = None"
  shows "z = (Returned res, x)"
  using assms(1,2,3)
proof (induction rule: alone_steps.induct)
  case (alone_stops y)
  from alone_stops(1) show ?case by (cases rule: alone_steps.cases) (use alone_stops(2) in auto)
next
  case (alone_goes pc u y z)
  from alone_goes(4) have "alone_steps sf ic c y (Returned res, x)"
    by (cases rule: alone_steps.cases) (use alone_goes(1) in auto)
  then show ?case using alone_goes by blast
qed

section \<open>Calls that take turns\<close>

inductive calls_step ::
  "'g group_ops \<Rightarrow> image_cache_dir \<Rightarrow> (ensure_call \<times> ensure_pc) list \<times> 'g cache_state \<Rightarrow>
     (ensure_call \<times> ensure_pc) list \<times> 'g cache_state \<Rightarrow> bool" for sf ic where
  takes_turn: "i < length ps \<Longrightarrow> ps ! i = (c, pc) \<Longrightarrow> ensure_step sf ic c pc x = Some (pc', x') \<Longrightarrow>
     calls_step sf ic (ps, x) (ps[i := (c, pc')], x')"

inductive calls_run ::
  "'g group_ops \<Rightarrow> image_cache_dir \<Rightarrow> nat \<Rightarrow> (ensure_call \<times> ensure_pc) list \<times> 'g cache_state \<Rightarrow>
     (ensure_call \<times> ensure_pc) list \<times> 'g cache_state \<Rightarrow> bool" for sf ic where
  no_turns: "calls_run sf ic 0 y y"
| more_turns: "calls_run sf ic k y z \<Longrightarrow> calls_step sf ic z z' \<Longrightarrow> calls_run sf ic (Suc k) y z'"

text \<open>Calls arrive when they take their first turn.\<close>

definition arriving :: "ensure_call list \<Rightarrow> (ensure_call \<times> ensure_pc) list" where
  "arriving cs = map (\<lambda>c. (c, Resolving)) cs"

section \<open>Flights\<close>

text \<open>The streams, as \<open>ensure_step\<close> takes them.\<close>

lemma tar_items_cases:
  obtains "items = []" | e its where "items = Tar_Failed e # its" | h bytes cerr its where "items = Tar_Entry h bytes cerr # its"
  by (cases items; cases "hd items") auto

fun in_flight :: "ensure_pc \<Rightarrow> (nat \<times> string) option" where
  "in_flight (Rechecking n dg) = Some (n, dg)"
| "in_flight (Pulling n dg) = Some (n, dg)"
| "in_flight (Making n dg items) = Some (n, dg)"
| "in_flight (Extracting n dg items) = Some (n, dg)"
| "in_flight (Injecting n dg) = Some (n, dg)"
| "in_flight (Fixing n dg) = Some (n, dg)"
| "in_flight (Removing n dg e) = Some (n, dg)"
| "in_flight (Finishing n dg r) = Some (n, dg)"
| "in_flight _ = None"

text \<open>A flight has one call in it, and no result yet; a call that waits has a flight or a result to wait for.\<close>

definition flights_inv :: "'g group_ops \<Rightarrow> (ensure_call \<times> ensure_pc) list \<Rightarrow> 'g \<Rightarrow> bool" where
  "flights_inv sf ps g \<longleftrightarrow>
     (\<forall>i<length ps. \<forall>n dg. in_flight (snd (ps ! i)) = Some (n, dg) \<longrightarrow> sf_flight sf g dg = Some n) \<and>
     (\<forall>n dg. sf_flight sf g dg = Some n \<longrightarrow> (\<exists>i<length ps. in_flight (snd (ps ! i)) = Some (n, dg))) \<and>
     (\<forall>i<length ps. \<forall>j<length ps. \<forall>n dg n' dg'. i \<noteq> j \<longrightarrow> in_flight (snd (ps ! i)) = Some (n, dg) \<longrightarrow>
        in_flight (snd (ps ! j)) = Some (n', dg') \<longrightarrow> dg \<noteq> dg') \<and>
     (\<forall>i<length ps. \<forall>n dg. snd (ps ! i) = Waiting n dg \<longrightarrow> sf_result sf g n \<noteq> None \<or> sf_flight sf g dg = Some n) \<and>
     (\<forall>n dg dg'. sf_flight sf g dg = Some n \<longrightarrow> sf_flight sf g dg' = Some n \<longrightarrow> dg = dg') \<and>
     (\<forall>n dg. sf_flight sf g dg = Some n \<longrightarrow> sf_result sf g n = None)"

text \<open>What a step does to the group.\<close>

lemma ensure_step_keeps_group:
  assumes "ensure_step sf ic c pc x = Some (pc', x')" "\<nexists>dg. pc = Entering dg" "\<nexists>n dg r. pc = Finishing n dg r"
  shows "cs_group x' = cs_group x \<and> in_flight pc' = in_flight pc \<and> (\<nexists>n dg. pc' = Waiting n dg)"
proof (cases pc)
  case (Extracting n dg items)
  then show ?thesis
    using assms by (cases items rule: tar_items_cases) (auto split: prod.splits option.splits)
qed (use assms in \<open>auto simp: outcome_def split: sum.splits option.splits prod.splits\<close>)

lemma ensure_step_group:
  assumes "ensure_step sf ic c pc x = Some (pc', x')"
  obtains
    (same) "cs_group x' = cs_group x" "in_flight pc' = in_flight pc" "\<And>n dg. pc' \<noteq> Waiting n dg"
  | (join) dg n where "pc = Entering dg" "sf_enter sf dg (cs_group x) = (Inr n, cs_group x')" "pc' = Waiting n dg"
      "cs_files x' = cs_files x"
  | (begin_flight) dg n where "pc = Entering dg" "sf_enter sf dg (cs_group x) = (Inl n, cs_group x')" "pc' = Rechecking n dg"
      "cs_files x' = cs_files x"
  | (finish) dg n r where "pc = Finishing n dg r" "cs_group x' = sf_finish sf dg r (cs_group x)"
      "pc' = outcome (image_dir ic (ec_ref c) dg) r" "cs_files x' = cs_files x"
proof (cases "(\<exists>dg. pc = Entering dg) \<or> (\<exists>n dg r. pc = Finishing n dg r)")
  case True
  then consider dg where "pc = Entering dg" | n dg r where "pc = Finishing n dg r" by blast
  then show thesis
  proof cases
    case 1
    then show thesis
      using assms join begin_flight by (cases "sf_enter sf dg (cs_group x)"; cases "fst (sf_enter sf dg (cs_group x))") auto
  qed (use assms finish in auto)
qed (use ensure_step_keeps_group [OF assms] same in blast)

lemma flightsD:
  assumes "flights_inv sf ps g"
  shows "i < length ps \<Longrightarrow> in_flight (snd (ps ! i)) = Some (n, dg) \<Longrightarrow> sf_flight sf g dg = Some n"
    and "sf_flight sf g dg = Some n \<Longrightarrow> \<exists>i<length ps. in_flight (snd (ps ! i)) = Some (n, dg)"
    and "i < length ps \<Longrightarrow> j < length ps \<Longrightarrow> in_flight (snd (ps ! i)) = Some (n, dg) \<Longrightarrow>
      in_flight (snd (ps ! j)) = Some (n', dg) \<Longrightarrow> i = j"
    and "i < length ps \<Longrightarrow> snd (ps ! i) = Waiting n dg \<Longrightarrow> sf_result sf g n \<noteq> None \<or> sf_flight sf g dg = Some n"
    and "sf_flight sf g dg = Some n \<Longrightarrow> sf_flight sf g dg' = Some n \<Longrightarrow> dg = dg'"
    and "sf_flight sf g dg = Some n \<Longrightarrow> sf_result sf g n = None"
  using assms unfolding flights_inv_def by blast+

lemma flightsI:
  assumes "\<And>i n dg. i < length ps \<Longrightarrow> in_flight (snd (ps ! i)) = Some (n, dg) \<Longrightarrow> sf_flight sf g dg = Some n"
    and "\<And>n dg. sf_flight sf g dg = Some n \<Longrightarrow> \<exists>i<length ps. in_flight (snd (ps ! i)) = Some (n, dg)"
    and "\<And>i j n n' dg. i < length ps \<Longrightarrow> j < length ps \<Longrightarrow> in_flight (snd (ps ! i)) = Some (n, dg) \<Longrightarrow>
      in_flight (snd (ps ! j)) = Some (n', dg) \<Longrightarrow> i = j"
    and "\<And>i n dg. i < length ps \<Longrightarrow> snd (ps ! i) = Waiting n dg \<Longrightarrow> sf_result sf g n \<noteq> None \<or> sf_flight sf g dg = Some n"
    and "\<And>n dg dg'. sf_flight sf g dg = Some n \<Longrightarrow> sf_flight sf g dg' = Some n \<Longrightarrow> dg = dg'"
    and "\<And>n dg. sf_flight sf g dg = Some n \<Longrightarrow> sf_result sf g n = None"
  shows "flights_inv sf ps g"
  unfolding flights_inv_def using assms by blast

text \<open>A step that is not about the group, and joining.\<close>

lemma flights_same:
  assumes inv: "flights_inv sf ps g" and i: "i < length ps" "snd (ps ! i) = pc" "in_flight pc' = in_flight pc"
    and w: "\<And>n dg. pc' = Waiting n dg \<Longrightarrow> sf_flight sf g dg = Some n"
  shows "flights_inv sf (ps[i := (c, pc')]) g"
proof -
  have fl: "in_flight (snd (ps[i := (c, pc')] ! j)) = in_flight (snd (ps ! j))" if "j < length ps" for j
    using that i by (cases "j = i") auto
  show ?thesis
  proof (rule flightsI)
    show "sf_flight sf g dg = Some n"
      if "j < length (ps[i := (c, pc')])" "in_flight (snd (ps[i := (c, pc')] ! j)) = Some (n, dg)" for j n dg
      using flightsD(1) [OF inv, of j] that fl by simp
    show "\<exists>j<length (ps[i := (c, pc')]). in_flight (snd (ps[i := (c, pc')] ! j)) = Some (n, dg)"
      if "sf_flight sf g dg = Some n" for n dg
      using flightsD(2) [OF inv that] fl by auto
    show "j = k"
      if "j < length (ps[i := (c, pc')])" "k < length (ps[i := (c, pc')])"
        "in_flight (snd (ps[i := (c, pc')] ! j)) = Some (n, dg)" "in_flight (snd (ps[i := (c, pc')] ! k)) = Some (n', dg)"
      for j k n n' dg
      using flightsD(3) [OF inv, of j k] that fl by simp
    show "sf_result sf g n \<noteq> None \<or> sf_flight sf g dg = Some n"
      if "j < length (ps[i := (c, pc')])" "snd (ps[i := (c, pc')] ! j) = Waiting n dg" for j n dg
      using flightsD(4) [OF inv, of j n dg] that w i by (cases "j = i") auto
  qed (use flightsD(5,6) [OF inv] in blast)+
qed

lemma flights_begin:
  assumes inv: "flights_inv sf ps g" and i: "i < length ps" "in_flight (snd (ps ! i)) = None" "in_flight pc' = Some (n, dg)"
    and g: "sf_flight sf g dg = None" "sf_flight sf g' = (sf_flight sf g)(dg \<mapsto> n)" "sf_result sf g' = sf_result sf g"
      "sf_result sf g n = None" "\<forall>k. sf_flight sf g k \<noteq> Some n"
  shows "flights_inv sf (ps[i := (c, pc')]) g'"
proof -
  let ?ps = "ps[i := (c, pc')]"
  have old: "in_flight (snd (?ps ! j)) = (if j = i then Some (n, dg) else in_flight (snd (ps ! j)))" if "j < length ps" for j
    using that i by auto
  have other: "dg' \<noteq> dg \<and> m \<noteq> n" if "j < length ps" "in_flight (snd (ps ! j)) = Some (m, dg')" for j m dg'
    using flightsD(1) [OF inv that] g(1,5) by auto
  show ?thesis
  proof (rule flightsI)
    show "sf_flight sf g' dg' = Some m" if "j < length ?ps" "in_flight (snd (?ps ! j)) = Some (m, dg')" for j m dg'
      using flightsD(1) [OF inv, of j m dg'] that old [of j] other [of j] g(2) by (auto split: if_splits)
    show "\<exists>j<length ?ps. in_flight (snd (?ps ! j)) = Some (m, dg')" if m: "sf_flight sf g' dg' = Some m" for m dg'
    proof (cases "dg' = dg")
      case True
      then show ?thesis using m g(2) i by auto
    next
      case False
      then obtain j where "j < length ps" "in_flight (snd (ps ! j)) = Some (m, dg')"
        using flightsD(2) [OF inv, of dg' m] m g(2) by auto
      then show ?thesis using i(2) by (intro exI [of _ j]) (cases "j = i", auto)
    qed
    show "j = k" if h: "j < length ?ps" "k < length ?ps" "in_flight (snd (?ps ! j)) = Some (m, dg')"
        "in_flight (snd (?ps ! k)) = Some (m', dg')" for j k m m' dg'
    proof (cases "j = i \<or> k = i")
      case True
      then show ?thesis using h old [of j] old [of k] other by (auto split: if_splits)
    next
      case False
      then show ?thesis using flightsD(3) [OF inv, of j k m dg' m'] h by simp
    qed
    show "sf_result sf g' m \<noteq> None \<or> sf_flight sf g' dg' = Some m"
      if "j < length ?ps" "snd (?ps ! j) = Waiting m dg'" for j m dg'
      using flightsD(4) [OF inv, of j m dg'] that i(3) g by (cases "j = i") auto
    show "k = k'" if "sf_flight sf g' k = Some m" "sf_flight sf g' k' = Some m" for m k k'
      using flightsD(5) [OF inv, of k m k'] that g(2,5) by (auto split: if_splits)
    show "sf_result sf g' m = None" if "sf_flight sf g' k = Some m" for m k
      using flightsD(6) [OF inv, of k m] that g by (auto split: if_splits)
  qed
qed

lemma flights_finish:
  assumes inv: "flights_inv sf ps g" and i: "i < length ps" "in_flight (snd (ps ! i)) = Some (n, dg)"
    and pc': "in_flight pc' = None" "\<And>m dg'. pc' \<noteq> Waiting m dg'"
    and g: "sf_flight sf g' = (sf_flight sf g)(dg := None)" "sf_result sf g' = (sf_result sf g)(n \<mapsto> r)"
  shows "flights_inv sf (ps[i := (c, pc')]) g'"
proof -
  let ?ps = "ps[i := (c, pc')]"
  have dg: "sf_flight sf g dg = Some n" by (rule flightsD(1) [OF inv i])
  have old: "in_flight (snd (?ps ! j)) = (if j = i then None else in_flight (snd (ps ! j)))" if "j < length ps" for j
    using that i pc' by auto
  have other: "dg' \<noteq> dg" if "j < length ps" "j \<noteq> i" "in_flight (snd (ps ! j)) = Some (m, dg')" for j m dg'
    using flightsD(3) [OF inv that(1) i(1) that(3)] i(2) that(2) by auto
  show ?thesis
  proof (rule flightsI)
    show "sf_flight sf g' dg' = Some m" if "j < length ?ps" "in_flight (snd (?ps ! j)) = Some (m, dg')" for j m dg'
      using flightsD(1) [OF inv, of j m dg'] that old [of j] other [of j m dg'] g(1) by (auto split: if_splits)
    show "\<exists>j<length ?ps. in_flight (snd (?ps ! j)) = Some (m, dg')" if m: "sf_flight sf g' dg' = Some m" for m dg'
    proof -
      have ne: "dg' \<noteq> dg" "sf_flight sf g dg' = Some m" using m g(1) by (auto split: if_splits)
      obtain j where "j < length ps" "in_flight (snd (ps ! j)) = Some (m, dg')"
        using flightsD(2) [OF inv ne(2)] by blast
      then show ?thesis using i(2) ne(1) by (intro exI [of _ j]) (cases "j = i", auto)
    qed
    show "j = k" if h: "j < length ?ps" "k < length ?ps" "in_flight (snd (?ps ! j)) = Some (m, dg')"
        "in_flight (snd (?ps ! k)) = Some (m', dg')" for j k m m' dg'
      using flightsD(3) [OF inv, of j k m dg' m'] h old [of j] old [of k] by (auto split: if_splits)
    show "sf_result sf g' m \<noteq> None \<or> sf_flight sf g' dg' = Some m"
      if "j < length ?ps" "snd (?ps ! j) = Waiting m dg'" for j m dg'
      using flightsD(4) [OF inv, of j m dg'] that pc' g dg by (cases "j = i") auto
    show "k = k'" if "sf_flight sf g' k = Some m" "sf_flight sf g' k' = Some m" for m k k'
      using flightsD(5) [OF inv, of k m k'] that g(1) by (auto split: if_splits)
    show "sf_result sf g' m = None" if "sf_flight sf g' k = Some m" for m k
      using flightsD(6) [OF inv, of k m] flightsD(5) [OF inv dg, of k] that g by (auto split: if_splits)
  qed
qed

context singleflight
begin

lemma flights_step:
  assumes "calls_step sf ic (ps, x) (ps', x')" and inv: "flights_inv sf ps (cs_group x)"
  shows "flights_inv sf ps' (cs_group x')"
  using assms(1)
proof (cases rule: calls_step.cases)
  case (takes_turn i c pc pc')
  have old: "snd (ps ! i) = pc" using takes_turn(3) by simp
  from takes_turn(4) show ?thesis
  proof (cases rule: ensure_step_group)
    case same
    then show ?thesis using flights_same [OF inv takes_turn(2) old, of pc' c] takes_turn(1) by simp
  next
    case (join dg n)
    then have "sf_flight sf (cs_group x) dg = Some n \<and> cs_group x' = cs_group x"
      using joins [of "cs_group x" dg] begins [of "cs_group x" dg] by (cases "sf_flight sf (cs_group x) dg") auto
    then show ?thesis using flights_same [OF inv takes_turn(2) old, of pc' c] join takes_turn(1) by simp
  next
    case (begin_flight dg n)
    then have none: "sf_flight sf (cs_group x) dg = None"
      using joins [of "cs_group x" dg] by (cases "sf_flight sf (cs_group x) dg") auto
    from begins [OF none] show ?thesis
      using flights_begin [OF inv takes_turn(2), of pc' n dg "cs_group x'" c] begin_flight old none takes_turn(1) by auto
  next
    case (finish dg n r)
    have "in_flight (snd (ps ! i)) = Some (n, dg)" using old finish(1) by simp
    from flights_finish [OF inv takes_turn(2) this] finishes [OF flightsD(1) [OF inv takes_turn(2) this], of r]
    show ?thesis using finish takes_turn(1) by (auto simp: outcome_def)
  qed
qed

lemma flights_run:
  assumes "calls_run sf ic k (ps, x) (ps', x')" and "flights_inv sf ps (cs_group x)"
  shows "flights_inv sf ps' (cs_group x')"
  using assms
proof (induction k "(ps, x)" "(ps', x')" arbitrary: ps' x' rule: calls_run.induct)
  case (more_turns k z)
  then show ?case using flights_step by (cases z) auto
qed simp

lemma flights_arriving: "sf_flight sf g = Map.empty \<Longrightarrow> flights_inv sf (arriving cs) g"
  by (auto simp: flights_inv_def arriving_def)

end

section \<open>Every call returns\<close>

fun pull_work :: "ensure_call \<Rightarrow> nat" where
  "pull_work c = (case ec_pull c of Inl e \<Rightarrow> 0 | Inr items \<Rightarrow> length items)"

fun turns_left :: "ensure_call \<Rightarrow> ensure_pc \<Rightarrow> nat" where
  "turns_left c Resolving = pull_work c + 11"
| "turns_left c (Checking dg) = pull_work c + 10"
| "turns_left c (Entering dg) = pull_work c + 9"
| "turns_left c (Waiting n dg) = 1"
| "turns_left c (Rechecking n dg) = pull_work c + 8"
| "turns_left c (Pulling n dg) = pull_work c + 7"
| "turns_left c (Making n dg items) = length items + 6"
| "turns_left c (Extracting n dg items) = length items + 5"
| "turns_left c (Injecting n dg) = 4"
| "turns_left c (Fixing n dg) = 3"
| "turns_left c (Removing n dg e) = 2"
| "turns_left c (Finishing n dg r) = 1"
| "turns_left c (Returned res) = 0"

lemma ensure_step_work:
  assumes "ensure_step sf ic c pc x = Some (pc', x')"
  shows "turns_left c pc' < turns_left c pc"
proof (cases pc)
  case (Extracting n dg items)
  then show ?thesis
    using assms by (cases items rule: tar_items_cases) (auto split: prod.splits option.splits)
qed (use assms in \<open>auto simp: outcome_def split: sum.splits option.splits prod.splits\<close>)

definition all_turns :: "(ensure_call \<times> ensure_pc) list \<Rightarrow> nat" where
  "all_turns ps = (\<Sum>(c, pc)\<leftarrow>ps. turns_left c pc)"

lemma calls_step_work:
  assumes "calls_step sf ic (ps, x) (ps', x')"
  shows "all_turns ps' < all_turns ps"
  using assms
proof (cases rule: calls_step.cases)
  case (takes_turn i c pc pc')
  have "all_turns ps' + turns_left c pc = all_turns ps + turns_left c pc'"
    using sum_list_update [of i "map (\<lambda>(c, pc). turns_left c pc) ps" "turns_left c pc'"]
      elem_le_sum_list [of i "map (\<lambda>(c, pc). turns_left c pc) ps"] takes_turn(1-3)
    by (simp add: all_turns_def map_update)
  then show ?thesis using ensure_step_work [OF takes_turn(4)] by simp
qed

lemma calls_run_work: "calls_run sf ic k y z \<Longrightarrow> k + all_turns (fst z) \<le> all_turns (fst y)"
proof (induction rule: calls_run.induct)
  case (more_turns k y z z')
  then show ?case using calls_step_work [of sf ic "fst z" "snd z" "fst z'" "snd z'"] by simp
qed simp

definition returned :: "ensure_pc \<Rightarrow> bool" where
  "returned pc \<longleftrightarrow> (\<exists>res. pc = Returned res)"

lemma may_step:
  assumes "\<not> returned pc" "\<And>n dg. pc = Waiting n dg \<Longrightarrow> sf_result sf (cs_group x) n \<noteq> None"
  obtains pc' x' where "ensure_step sf ic c pc x = Some (pc', x')"
proof -
  have "ensure_step sf ic c pc x \<noteq> None"
  proof (cases pc)
    case (Extracting n dg items)
    then show ?thesis by (cases items rule: tar_items_cases) auto
  qed (use assms in \<open>auto simp: returned_def\<close>)
  then show thesis using that by fastforce
qed

lemma some_call_steps:
  assumes "flights_inv sf ps (cs_group x)" and "i < length ps" "\<not> returned (snd (ps ! i))"
  obtains z where "calls_step sf ic (ps, x) z"
proof -
  obtain j where j: "j < length ps" "\<not> returned (snd (ps ! j))"
      "\<And>n dg. snd (ps ! j) = Waiting n dg \<Longrightarrow> sf_result sf (cs_group x) n \<noteq> None"
  proof (cases "\<exists>n dg. snd (ps ! i) = Waiting n dg \<and> sf_result sf (cs_group x) n = None")
    case True
    then obtain n dg where "sf_flight sf (cs_group x) dg = Some n"
      using flightsD(4) [OF assms(1,2)] by blast
    from flightsD(2) [OF assms(1) this] obtain j where "j < length ps" "in_flight (snd (ps ! j)) = Some (n, dg)"
      by blast
    then show thesis using that [of j] by (cases "snd (ps ! j)") (auto simp: returned_def)
  next
    case False
    then show thesis using that [OF assms(2,3)] by metis
  qed
  obtain pc' x' where "ensure_step sf ic (fst (ps ! j)) (snd (ps ! j)) x = Some (pc', x')"
    by (rule may_step [OF j(2), where x = x and sf = sf]) (use j(3) in blast)+
  from takes_turn [OF j(1) _ this] show thesis using that by simp
qed

lemma all_turns_arriving: "all_turns (arriving cs) = (\<Sum>c\<leftarrow>cs. pull_work c + 11)"
  by (simp add: all_turns_def arriving_def o_def)

section \<open>Properties\<close>


text \<open>
  C22 (liveness). Calls of \<open>Ensure\<close>, however many, for whatever images, return: in any order of turns there is always a
  call that can take one as long as some call has not returned, so no call waits for a flight that nobody is in,
  and the turns are bounded by the number of calls and the entries of their images.
\<close>

theorem Ensure_calls_return:
  assumes "singleflight sf" and "sf_flight sf g = Map.empty"
    and "calls_run sf ic k (arriving cs, \<lparr>cs_files = f, cs_group = g\<rparr>) (ps, x)"
  shows "k \<le> (\<Sum>c\<leftarrow>cs. pull_work c + 11) \<and>
    ((\<exists>i<length ps. \<not> returned (snd (ps ! i))) \<longrightarrow> (\<exists>z. calls_step sf ic (ps, x) z))"
proof -
  have inv: "flights_inv sf ps (cs_group x)"
    using singleflight.flights_run [OF assms(1,3)] singleflight.flights_arriving [OF assms(1,2)] by simp
  have "\<exists>z. calls_step sf ic (ps, x) z" if "i < length ps" "\<not> returned (snd (ps ! i))" for i
    using some_call_steps [OF inv that] by blast
  then show ?thesis using calls_run_work [OF assms(3)] by (auto simp: all_turns_arriving)
qed

section \<open>Examples\<close>

text \<open>Turns in a given order.\<close>

fun take_turns ::
  "'g group_ops \<Rightarrow> image_cache_dir \<Rightarrow> nat list \<Rightarrow> (ensure_call \<times> ensure_pc) list \<times> 'g cache_state \<Rightarrow>
     ((ensure_call \<times> ensure_pc) list \<times> 'g cache_state) option" where
  "take_turns sf ic [] y = Some y"
| "take_turns sf ic (i # is) (ps, x) =
     (if i < length ps
      then (case ensure_step sf ic (fst (ps ! i)) (snd (ps ! i)) x of
              None \<Rightarrow> None
            | Some (pc', x') \<Rightarrow> take_turns sf ic is (ps[i := (fst (ps ! i), pc')], x'))
      else None)"

lemma more_turns_first: "calls_run sf ic k y z \<Longrightarrow> calls_step sf ic y' y \<Longrightarrow> calls_run sf ic (Suc k) y' z"
  by (induction rule: calls_run.induct) (auto intro: calls_run.intros)

lemma take_turns_run: "take_turns sf ic is y = Some z \<Longrightarrow> calls_run sf ic (length is) y z"
proof (induction sf ic "is" y rule: take_turns.induct)
  case (2 sf ic i js ps x)
  then show ?case
    by (auto split: if_splits option.splits intro!: more_turns_first takes_turn prod.collapse [symmetric])
qed (simp add: no_turns)

definition demo_call :: "string \<Rightarrow> ensure_call" where
  "demo_call ref = \<lparr>ec_ref = ref, ec_digest = Inr demo_digest, ec_pull = Inr demo_items\<rparr>"

definition demo_cache :: "listed_group cache_state" where
  "demo_cache = \<lparr>cs_files = demo_files, cs_group = ([], [])\<rparr>"

lemma demo_no_flights: "sf_flight listed_ops ([], []) = Map.empty"
  by (simp add: listed_ops_def)


text \<open>Two calls for an image: the second waits for the first one's flight, and the first can go on.\<close>

theorem Ensure_calls_return_witness:
  "\<exists>ps x. calls_run listed_ops demo_ic 6 (arriving [demo_call demo_ref, demo_call demo_ref], demo_cache) (ps, x) \<and>
     map snd ps = [Rechecking 1 demo_digest, Waiting 1 demo_digest] \<and> (\<exists>z. calls_step listed_ops demo_ic (ps, x) z)"
proof -
  let ?s = "take_turns listed_ops demo_ic [0, 1, 0, 1, 0, 1] (arriving [demo_call demo_ref, demo_call demo_ref], demo_cache)"
  have "map_option (map snd \<circ> fst) ?s = Some [Rechecking 1 demo_digest, Waiting 1 demo_digest]" by code_simp
  then obtain ps x where s: "?s = Some (ps, x)" "map snd ps = [Rechecking 1 demo_digest, Waiting 1 demo_digest]" by auto
  from take_turns_run [OF s(1)]
  have r: "calls_run listed_ops demo_ic 6 (arriving [demo_call demo_ref, demo_call demo_ref], demo_cache) (ps, x)" by (simp add: eval_nat_numeral)
  have "length ps = 2" using arg_cong [OF s(2), of length] by simp
  then have "\<not> returned (snd (ps ! 0))" "0 < length ps"
    using s(2) nth_map [of 0 ps snd] by (auto simp: returned_def)
  then have "\<exists>z. calls_step listed_ops demo_ic (ps, x) z"
    using Ensure_calls_return [OF listed.singleflight_axioms demo_no_flights r [unfolded demo_cache_def]] by blast
  with r s(2) show ?thesis by (intro exI [of _ ps] exI [of _ x] conjI)
qed

end
