(* ===== verification/Cache_Files.thy ===== *)
theory Cache_Files imports Clone begin

text \<open>
  The directory of the image cache with several images in it: what the operations of \<open>Ensure\<close> on one image
  directory (internal/api/image_cache.go, internal/cli/rootfs.go) do to that directory, to the others and to the
  host. Every image directory is two levels below the cache's.
\<close>

section \<open>Trees whose parents are directories\<close>

lemma wf_parent: "wf_files f \<Longrightarrow> nodes f (q @ p) \<noteq> None \<Longrightarrow> p \<noteq> [] \<Longrightarrow> nodes f q = Some Dir"
proof (induction p rule: rev_induct)
  case (snoc e p)
  then have "nodes f (q @ p) = Some Dir" unfolding wf_files_def by (metis append_assoc)
  then show ?case using snoc by (cases "p = []") auto
qed simp

lemma wf_root: "wf_files f \<Longrightarrow> nodes f [] = Some Dir"
  by (simp add: wf_files_def)

lemma resolve_parent:
  assumes "wf_files f" "nodes f cur = Some Dir" "resolve (nodes f) n cur es = Inr (m, q)"
  shows "nodes f q \<noteq> None \<or> (q \<noteq> [] \<and> nodes f (butlast q) = Some Dir)"
  using assms(2,3)
proof (induction "nodes f" n cur es rule: resolve.induct)
  case (2 n cur e es)
  have up: "nodes f (butlast cur) = Some Dir"
    using "2.prems"(1) assms(1) wf_parent [of f "butlast cur" "[last cur]"] wf_root by (cases "cur = []") auto
  have top: "nodes f (if is_rooted t then [] else cur) = Some Dir" for t
    using "2.prems"(1) wf_root [OF assms(1)] by simp
  consider "e = [] \<or> e = ''.''" | "e = ''..''" | (down) "\<not> (e = [] \<or> e = ''.'')" "e \<noteq> ''..''" by blast
  then show ?case
  proof cases
    case 1
    then show ?thesis using "2.hyps"(1) "2.prems" by simp
  next
    case 2
    then show ?thesis using "2.hyps"(2) "2.prems"(2) up by simp
  next
    case down
    show ?thesis
    proof (cases "nodes f (cur @ [e])")
      case None
      then show ?thesis using down "2.prems" by (auto split: if_splits)
    next
      case (Some nd)
      then show ?thesis
        using down "2.hyps"(3,4) [OF down Some] "2.prems"(2) top
        by (cases nd) (simp_all split: if_splits)
    qed
  qed
qed simp

lemma wf_set_node:
  assumes "wf_files f" "nodes f q = None" "q \<noteq> []" "nodes f (butlast q) = Some Dir" "\<And>i. nd = File i \<Longrightarrow> i < next_inode f"
  shows "wf_files (set_node q nd f)"
  unfolding wf_files_def
proof (intro conjI allI impI)
  show "nodes (set_node q nd f) [] = Some Dir" using assms(3) wf_root [OF assms(1)] by (simp add: set_node_def)
  show "fresh_inodes (set_node q nd f)"
    using assms(1,5) by (auto simp: wf_files_def fresh_inodes_def set_node_def)
  fix q' e
  assume e: "nodes (set_node q nd f) (q' @ [e]) \<noteq> None"
  show "nodes (set_node q nd f) q' = Some Dir"
  proof (cases "q' @ [e] = q")
    case True
    then have "q' = butlast q" by force
    then show ?thesis using assms(2,4) by (auto simp: set_node_def)
  next
    case False
    then have "nodes f q' = Some Dir" using e wf_parent [OF assms(1), of q' "[e]"] by (simp add: set_node_def)
    then show ?thesis using assms(2) by (auto simp: set_node_def)
  qed
qed

lemma wf_create:
  assumes "wf_files f" "create_at f [] es nd = (r, f')" "\<And>i. nd = File i \<Longrightarrow> i < next_inode f"
  shows "wf_files f'"
proof (cases "r = None")
  case True
  then obtain q where q: "place f [] es = Inr q" "nodes f q = None" "f' = set_node q nd f"
    using assms(2) by (auto simp: create_at_def split: sum.splits if_splits)
  then have "q \<noteq> [] \<and> nodes f (butlast q) = Some Dir"
    using assms(1) by (auto simp: place_def wf_files_def split: if_splits sum.splits option.splits node.splits)
  then show ?thesis using wf_set_node [OF assms(1) q(2)] q(3) assms(3) by simp
qed (use assms in \<open>auto simp: create_at_def split: sum.splits if_splits\<close>)

lemma wf_change_file: "wf_files f \<Longrightarrow> wf_files (f\<lparr>inodes := g\<rparr>)"
  by (simp add: wf_files_def fresh_inodes_def)

lemma wf_open:
  assumes "wf_files f" "open_trunc f [] es mode = Inr (i, f')"
  shows "wf_files f'"
proof -
  obtain q where q: "follow f [] es = Inr q" using assms(2) by (auto simp: open_trunc_def split: sum.splits)
  then obtain m where "resolve (nodes f) max_links [] es = Inr (m, q)"
    by (auto simp: follow_def map_sum_def split: sum.splits)
  from resolve_parent [OF assms(1) _ this] have p: "nodes f q \<noteq> None \<or> (q \<noteq> [] \<and> nodes f (butlast q) = Some Dir)"
    using assms(1) by (simp add: wf_files_def)
  show ?thesis
  proof (cases "nodes f q")
    case None
    let ?g = "f\<lparr>next_inode := Suc (next_inode f), inodes := (inodes f)(next_inode f := \<lparr>i_data = [], i_mode = sys_mode mode\<rparr>)\<rparr>"
    have "wf_files ?g" using assms(1) by (auto simp: wf_files_def fresh_inodes_def intro: less_SucI)
    then have "wf_files (set_node q (File (next_inode f)) ?g)" by (rule wf_set_node) (use None p in auto)
    then show ?thesis using assms(2) q None by (auto simp: open_trunc_def Let_def)
  next
    case (Some nd)
    then show ?thesis
      using assms q by (auto simp: open_trunc_def wf_change_file split: node.splits)
  qed
qed

lemma wf_append: "wf_files f \<Longrightarrow> wf_files (append_data i t f)"
  by (simp add: append_data_def wf_change_file)

lemma wf_write: "wf_files f \<Longrightarrow> write_file f [] es t mode = (r, f') \<Longrightarrow> wf_files f'"
  by (auto simp: write_file_def dest: wf_open intro: wf_append split: sum.splits)

lemma wf_os_MkdirAll: "wf_files f \<Longrightarrow> wf_files (snd (os_MkdirAll f (abs_path es)))"
  using wf_mkdir_all [of f "rev (elems (abs_path es))"] by (cases "os_MkdirAll f (abs_path es)") (simp add: os_MkdirAll_def)

lemma wf_made: "wf_files f \<Longrightarrow> os_MkdirAll f (abs_path es) = (r, f') \<Longrightarrow> wf_files f'"
  using wf_os_MkdirAll [of f es] by simp

lemma wf_written: "wf_files f \<Longrightarrow> os_WriteFile f (abs_path es) t mode = (r, f') \<Longrightarrow> wf_files f'"
  using wf_write [of f] by (simp add: os_WriteFile_def)

lemma wf_os_Link:
  assumes "wf_files f"
  shows "wf_files (snd (os_Link f (abs_path es) (abs_path es')))"
proof (cases "\<exists>i. lookup f [] (elems (abs_path es)) = Inr (File i)")
  case True
  then obtain i where i: "lookup f [] (elems (abs_path es)) = Inr (File i)" ..
  then have "i < next_inode f"
    using assms by (auto simp: lookup_def wf_files_def fresh_inodes_def split: sum.splits option.splits)
  then show ?thesis
    using i wf_create [OF assms, of "elems (abs_path es')" "File i"]
    by (cases "create_at f [] (elems (abs_path es')) (File i)") (simp add: os_Link_def os_Stat_def)
next
  case False
  then show ?thesis using assms by (auto simp: os_Link_def os_Stat_def split: sum.splits node.splits)
qed

lemma wf_remove: "wf_files f \<Longrightarrow> q \<noteq> [] \<Longrightarrow> wf_files (f\<lparr>nodes := (\<lambda>x. if prefix q x then None else nodes f x)\<rparr>)"
  by (auto simp: wf_files_def fresh_inodes_def)

lemma wf_entry:
  assumes "wf_files f" "ds \<noteq> []" "plain_list ds" "extract_entry (abs_path ds) h bytes cerr f = (r, f')"
  shows "wf_files f'"
proof -
  let ?t = "abs_path (ds @ entry_place h)"
  let ?f = "snd (os_MkdirAll f (path_dir ?t))"
  have w: "wf_files ?f"
  proof (cases "entry_place h = []")
    case True
    then show ?thesis
      using wf_os_MkdirAll [OF assms(1), of "butlast ds"] path_dir_abs [of "butlast ds" "last ds"] assms(2,3) by simp
  next
    case False
    then show ?thesis
      using wf_os_MkdirAll [OF assms(1)] parent_abs [of ds "entry_place h"] assms(3) by (simp add: entry_place_def)
  qed
  note e = assms(4) [unfolded extract_entry_abs [OF assms(2,3)] Let_def]
  show ?thesis
  proof (cases "hdr_Typeflag h")
    case TypeDir
    then show ?thesis using e wf_os_MkdirAll [OF assms(1)] by auto
  next
    case TypeReg
    then show ?thesis using e w wf_open [OF w] by (auto intro: wf_append split: sum.splits)
  next
    case TypeSymlink
    then show ?thesis using e wf_create [OF w, of "ds @ entry_place h" "Symlink (hdr_Linkname h)"]
      by (cases "create_at ?f [] (ds @ entry_place h) (Symlink (hdr_Linkname h))") auto
  next
    case TypeLink
    then show ?thesis using e wf_os_Link [OF w] by auto
  qed (use e assms(1) in simp)
qed

lemma wf_inject:
  assumes "wf_files f" "ds \<noteq> []" "plain_list ds" "InjectInit f (abs_path ds) vp = (r, f')"
  shows "wf_files f'"
proof -
  let ?bin = "[''usr'', ''local'', ''bin'']"
  have plain: "plain_list (ds @ ?bin)" "plain_list (ds @ ?bin @ [''vminit''])" using assms(3) by (simp_all add: plain_elem_def)
  have j: "path_join [abs_path ds, ''usr'', ''local'', ''bin''] = abs_path (ds @ ?bin)"
    "path_join [abs_path (ds @ ?bin), ''vminit''] = abs_path (ds @ ?bin @ [''vminit''])"
    using join_place [OF assms(2) plain(1)] join_place [of "ds @ ?bin" "[''vminit'']"] plain assms(2) by simp_all
  show ?thesis
    using assms(4) wf_made [OF assms(1), of "ds @ ?bin"]
    by (auto simp: InjectInit_def j Let_def split: prod.splits option.splits sum.splits dest!: wf_written [rotated])
qed

lemma wf_fix:
  assumes "wf_files f" "ds \<noteq> []" "plain_list ds" "FixResolvConf f (abs_path ds) = (r, f')"
  shows "wf_files f'"
proof -
  have plain: "plain_list (ds @ [''etc''])" "plain_list (ds @ [''etc''] @ [''resolv.conf''])"
    using assms(3) by (simp_all add: plain_elem_def)
  have j: "path_join [abs_path ds, ''etc''] = abs_path (ds @ [''etc''])"
    "path_join [abs_path (ds @ [''etc'']), ''resolv.conf''] = abs_path (ds @ [''etc''] @ [''resolv.conf''])"
    using join_place [OF assms(2) plain(1)] join_place [of "ds @ [''etc'']" "[''resolv.conf'']"] plain assms(2) by simp_all
  show ?thesis
    using assms(4) wf_made [OF assms(1), of "ds @ [''etc'']"]
    by (auto simp: FixResolvConf_def j Let_def split: prod.splits option.splits dest!: wf_written [rotated])
qed

text \<open>In such a tree the path to a node that is not a link leads to it.\<close>

lemma resolve_down:
  assumes "wf_files f" "nodes f (d @ es) = Some nd" "\<And>t. nd \<noteq> Symlink t" "plain_list es"
  shows "resolve (nodes f) n d es = Inr (n, d @ es)"
  using assms(2,4)
proof (induction es arbitrary: d)
  case (Cons e es)
  have ih: "resolve (nodes f) n (d @ [e]) es = Inr (n, d @ e # es)" using Cons by simp
  show ?case
  proof (cases "es = []")
    case True
    then show ?thesis using Cons.prems assms(3) by (cases nd) (auto simp: plain_elem_def)
  next
    case False
    then have "nodes f (d @ [e]) = Some Dir" using wf_parent [OF assms(1), of "d @ [e]" es] Cons.prems(1) by simp
    then show ?thesis using ih Cons.prems(2) by (simp add: plain_elem_def)
  qed
qed simp

section \<open>The host with its cache\<close>

text \<open>
  The cache's path \<open>cs\<close> leads to the directory at \<open>R\<close>, without a way through what lies in it. The two levels below \<open>R\<close>
  have directories only, and the host, \<open>R\<close> included, stays as it is.
\<close>

definition outside :: "string list \<Rightarrow> files \<Rightarrow> files" where
  "outside R f = f\<lparr>nodes := (\<lambda>q. if strict_prefix R q then None else nodes f q)\<rparr>"

definition two_levels :: "string list \<Rightarrow> files \<Rightarrow> bool" where
  "two_levels R f \<longleftrightarrow>
     (\<forall>n nd. nodes f (R @ [n]) = Some nd \<longrightarrow> nd = Dir) \<and> (\<forall>n s nd. nodes f (R @ [n, s]) = Some nd \<longrightarrow> nd = Dir)"

definition cache_host :: "string list \<Rightarrow> string list \<Rightarrow> files \<Rightarrow> bool" where
  "cache_host cs R f0 \<longleftrightarrow>
     cs \<noteq> [] \<and> plain_list cs \<and> wf_files f0 \<and> (\<exists>n. resolve (nodes (outside R f0)) max_links [] cs = Inr (n, R)) \<and>
     nodes f0 R = Some Dir \<and> two_levels R f0"

definition host_same :: "files \<Rightarrow> string list \<Rightarrow> files \<Rightarrow> bool" where
  "host_same f0 R f \<longleftrightarrow>
     (\<forall>q. \<not> strict_prefix R q \<longrightarrow> nodes f q = nodes f0 q) \<and>
     (\<forall>q i. \<not> strict_prefix R q \<longrightarrow> nodes f0 q = Some (File i) \<longrightarrow> inodes f i = inodes f0 i)"

definition cache_good :: "files \<Rightarrow> string list \<Rightarrow> files \<Rightarrow> bool" where
  "cache_good f0 R f \<longleftrightarrow>
     wf_files f \<and> host_same f0 R f \<and> two_levels R f"

lemma cache_goodD:
  assumes "cache_good f0 R f"
  shows "wf_files f" "host_same f0 R f" "nodes f (R @ [n]) = Some nd \<Longrightarrow> nd = Dir" "nodes f (R @ [n, s]) = Some nd' \<Longrightarrow> nd' = Dir"
  using assms by (auto simp: cache_good_def two_levels_def)

lemma cache_good_start: "cache_host cs R f0 \<Longrightarrow> cache_good f0 R f0"
  by (auto simp: cache_host_def cache_good_def host_same_def)

lemma host_le: "host_same f0 R f \<Longrightarrow> nodes (outside R f0) \<subseteq>\<^sub>m nodes f"
  by (auto simp: host_same_def map_le_def outside_def split: if_splits)

lemma host_read:
  assumes "host_same f0 R f" "os_ReadFile (outside R f0) p = Inr t" "is_rooted p"
  shows "os_ReadFile f p = Inr t"
proof -
  let ?h = "outside R f0"
  obtain i q where i: "follow ?h [] (elems p) = Inr q" "nodes ?h q = Some (File i)" "t = i_data (inodes ?h i)"
    using assms(2,3)
    by (auto simp: os_ReadFile_def os_Stat_def lookup_def start_def split: sum.splits option.splits node.splits)
  note le = host_le [OF assms(1)]
  have "found_at ?h (elems p) q" using i by (simp add: found_at_def)
  from found_at_lookup [OF found_at_mono [OF this le]] map_le_Some [OF le i(2)]
  have "lookup f [] (elems p) = Inr (File i)" by simp
  moreover have "inodes f i = inodes f0 i" using assms(1) i(2) by (auto simp: host_same_def outside_def split: if_splits)
  ultimately show ?thesis using i(3) assms(3) by (simp add: os_ReadFile_def os_Stat_def start_def outside_def)
qed

text \<open>What the host's part of the tree is does not depend on the cache, so a later state is a host as well.\<close>

lemma outside_same: "host_same f0 R f \<Longrightarrow> nodes (outside R f) = nodes (outside R f0)"
  by (auto simp: outside_def host_same_def)

lemma outside_read:
  assumes "host_same f0 R f"
  shows "os_ReadFile (outside R f0) p = Inr t \<Longrightarrow> is_rooted p \<Longrightarrow> os_ReadFile (outside R f) p = Inr t"
  by (rule host_read [of f0 R]) (use assms in \<open>auto simp: host_same_def outside_def\<close>)

lemma cache_host_later:
  assumes "cache_host cs R f0" "cache_good f0 R f"
  shows "cache_host cs R f"
  using assms outside_same [of f0 R f] by (simp add: cache_host_def cache_good_def host_same_def)

section \<open>Paths into the cache\<close>

lemma cache_resolve:
  assumes "cache_host cs R f0" "host_same f0 R f"
  obtains n where "\<And>es. resolve (nodes f) max_links [] (cs @ es) = resolve (nodes f) n R es" "nodes f R = Some Dir"
proof -
  obtain n where n: "resolve (nodes (outside R f0)) max_links [] cs = Inr (n, R)" "nodes (outside R f0) R = Some Dir"
    using assms(1) by (auto simp: cache_host_def outside_def)
  note le = host_le [OF assms(2)]
  show thesis
    by (rule that [OF resolve_append [OF resolve_mono [OF n le] map_le_Some [OF le n(2)]]]) (rule map_le_Some [OF le n(2)])
qed

lemma cache_lookup:
  assumes "cache_host cs R f0" "cache_good f0 R f" "plain_list es" "nodes f (R @ es) = Some nd" "\<And>t. nd \<noteq> Symlink t"
  shows "lookup f [] (cs @ es) = Inr nd" and "follow f [] (cs @ es) = Inr (R @ es)"
proof -
  obtain n where "resolve (nodes f) max_links [] (cs @ es) = resolve (nodes f) n R es"
    using cache_resolve [OF assms(1) cache_goodD(2) [OF assms(2)]] by metis
  then show "follow f [] (cs @ es) = Inr (R @ es)"
    using resolve_down [OF cache_goodD(1) [OF assms(2)] assms(4,5,3)] by (simp add: follow_def)
  then show "lookup f [] (cs @ es) = Inr nd" using assms(4) by (simp add: lookup_def)
qed

lemma cache_lookup_none:
  assumes "cache_host cs R f0" "cache_good f0 R f" "plain_list es" "nodes f (R @ es) = None" "es = [n] \<or> es = [n, s]"
  shows "\<exists>e. lookup f [] (cs @ es) = Inl e"
proof -
  obtain m where m: "resolve (nodes f) max_links [] (cs @ es) = resolve (nodes f) m R es"
    using cache_resolve [OF assms(1) cache_goodD(2) [OF assms(2)]] by metis
  have "resolve (nodes f) m R es = Inr (m, R @ es) \<or> (\<exists>e. resolve (nodes f) m R es = Inl e)"
    using assms(3-5) cache_goodD(3) [OF assms(2), of n]
    by (cases "nodes f (R @ [n])") (auto simp: plain_elem_def)
  then show ?thesis using m assms(4) by (auto simp: lookup_def follow_def)
qed

lemma cache_stat:
  assumes "cache_host cs R f0" "cache_good f0 R f" "plain_list [n, s]"
  shows "(\<exists>nd. os_Stat f (abs_path (cs @ [n, s])) = Inr nd) \<longleftrightarrow> nodes f (R @ [n, s]) \<noteq> None"
proof -
  have p: "plain_list (cs @ [n, s])" using assms(1,3) by (simp add: cache_host_def)
  show ?thesis
  proof (cases "nodes f (R @ [n, s])")
    case None
    then show ?thesis
      using cache_lookup_none [OF assms None, of n s] p by (auto simp: os_Stat_def)
  next
    case (Some nd)
    then have "nd = Dir" using cache_goodD(4) [OF assms(2)] by blast
    then show ?thesis using cache_lookup(1) [OF assms Some] Some p by (simp add: os_Stat_def)
  qed
qed

section \<open>What stays in a directory\<close>

text \<open>From \<open>f\<close> to \<open>f'\<close> nothing changes in the directory at \<open>e\<close>, and nothing is linked to its files.\<close>

definition kept :: "string list \<Rightarrow> files \<Rightarrow> files \<Rightarrow> bool" where
  "kept e f f' \<longleftrightarrow>
     (\<forall>p. nodes f' (e @ p) = nodes f (e @ p)) \<and>
     (\<forall>p i. nodes f (e @ p) = Some (File i) \<longrightarrow> inodes f' i = inodes f i) \<and>
     (\<forall>p q i. nodes f (e @ p) = Some (File i) \<longrightarrow> nodes f' q = Some (File i) \<longrightarrow> nodes f q = Some (File i))"

definition holds_at :: "string list \<Rightarrow> string list \<Rightarrow> string \<Rightarrow> files \<Rightarrow> bool" where
  "holds_at d p t f \<longleftrightarrow> (\<exists>i. nodes f (d @ p) = Some (File i) \<and> i_data (inodes f i) = t)"

text \<open>An image that is ready: vminit and the resolv.conf are in it. And one that is being prepared.\<close>

definition complete :: "string \<Rightarrow> string list \<Rightarrow> files \<Rightarrow> bool" where
  "complete t d f \<longleftrightarrow> holds_at d init_place t f \<and> holds_at d resolv_place resolv_conf f"

definition at_work :: "string list set \<Rightarrow> string list \<Rightarrow> files \<Rightarrow> bool" where
  "at_work L d f \<longleftrightarrow> nodes f d = Some Dir \<and> only_links L d f \<and> unshared d {resolv_place} f"

lemma kept_refl [simp]: "kept e f f"
  by (simp add: kept_def)

lemma keptD:
  assumes "kept e f f'"
  shows "nodes f' (e @ p) = nodes f (e @ p)"
    and "nodes f (e @ p) = Some (File i) \<Longrightarrow> inodes f' i = inodes f i"
    and "nodes f (e @ p) = Some (File i) \<Longrightarrow> nodes f' q = Some (File i) \<Longrightarrow> nodes f q = Some (File i)"
  using assms unfolding kept_def by blast+

lemma kept_here: "kept e f f' \<Longrightarrow> nodes f' e = nodes f e"
  using keptD(1) [of e f f' "[]"] by simp

lemma kept_trans: "kept e f g \<Longrightarrow> kept e g k \<Longrightarrow> kept e f k"
  unfolding kept_def by metis

lemma kept_holds:
  assumes "kept e f f'" "holds_at e p t f"
  shows "holds_at e p t f'"
proof -
  obtain i where "nodes f (e @ p) = Some (File i)" "i_data (inodes f i) = t" using assms(2) by (auto simp: holds_at_def)
  then show ?thesis using keptD(1) [OF assms(1), of p] keptD(2) [OF assms(1), of p i] by (simp add: holds_at_def)
qed

lemma kept_complete: "kept e f f' \<Longrightarrow> complete t e f \<Longrightarrow> complete t e f'"
  by (simp add: complete_def kept_holds)

lemma kept_work:
  assumes "kept e f f'" "at_work L e f"
  shows "at_work L e f'"
proof -
  have "prefix e q \<and> (p \<in> {resolv_place} \<longrightarrow> q = e @ p)"
    if n: "nodes f' (e @ p) = Some (File i)" "nodes f' q = Some (File i)" for p q i
  proof -
    have "nodes f (e @ p) = Some (File i)" using n(1) keptD(1) [OF assms(1), of p] by simp
    moreover from keptD(3) [OF assms(1) this n(2)] have "nodes f q = Some (File i)" .
    ultimately show ?thesis using assms(2) unfolding at_work_def unshared_def by blast
  qed
  moreover have "p \<in> L" if "nodes f' (e @ p) = Some (Symlink t)" for p t
    using that keptD(1) [OF assms(1), of p] assms(2) unfolding at_work_def only_links_def by simp
  ultimately show ?thesis
    using kept_here [OF assms(1)] assms(2) unfolding at_work_def only_links_def unshared_def by metis
qed

lemma complete_reads:
  assumes "cache_host cs R f0" "cache_good f0 R f" "plain_list [n, s]" "complete t (R @ [n, s]) f"
  shows "os_ReadFile f (abs_path (cs @ [n, s] @ init_place)) = Inr t \<and>
    os_ReadFile f (abs_path (cs @ [n, s] @ resolv_place)) = Inr resolv_conf"
proof -
  have "os_ReadFile f (abs_path (cs @ [n, s] @ p)) = Inr u" if h: "holds_at (R @ [n, s]) p u f" "plain_list p" for p u
  proof -
    obtain i where i: "nodes f (R @ [n, s] @ p) = Some (File i)" "i_data (inodes f i) = u"
      using h(1) by (auto simp: holds_at_def)
    have "plain_list ([n, s] @ p)" "plain_list (cs @ [n, s] @ p)" using assms(1,3) h(2) by (simp_all add: cache_host_def)
    then show ?thesis
      using cache_lookup(1) [OF assms(1,2) _ i(1)] i(2) by (simp add: os_ReadFile_def os_Stat_def)
  qed
  then show ?thesis using assms(4) plain_places by (simp add: complete_def)
qed

section \<open>Operations on one image directory\<close>

text \<open>What an operation on the directory at \<open>d\<close> may do.\<close>

definition moved :: "files \<Rightarrow> string list \<Rightarrow> string list \<Rightarrow> files \<Rightarrow> files \<Rightarrow> bool" where
  "moved f0 R d f f' \<longleftrightarrow> cache_good f0 R f' \<and> (\<forall>n s. R @ [n, s] \<noteq> d \<longrightarrow> kept (R @ [n, s]) f f')"

lemma moved_refl: "cache_good f0 R f \<Longrightarrow> moved f0 R d f f"
  by (simp add: moved_def)

lemma work_confined:
  assumes "cache_host cs R f0" "cache_good f0 R f" "plain_list [n, s]" "at_work L (R @ [n, s]) f"
  shows "confined L {resolv_place} f (cs @ [n, s]) (R @ [n, s]) f"
proof -
  have d: "nodes f (R @ [n, s]) = Some Dir" using assms(4) by (simp add: at_work_def)
  have "follow f [] (cs @ [n, s]) = Inr (R @ [n, s])" by (rule cache_lookup(2) [OF assms(1-3) d]) simp
  then have "resolves_to f (cs @ [n, s]) (R @ [n, s])"
    using d by (auto simp: resolves_to_def follow_def map_sum_def split: sum.splits)
  then show ?thesis
    using assms(4) cache_goodD(1) [OF assms(2)]
    by (simp add: confined_def at_work_def same_outside_def wf_files_def)
qed

lemma confined_kept:
  assumes c: "confined L W f ds d f'" and e: "parallel d e"
  shows "kept e f f'"
proof -
  have out: "\<not> prefix d (e @ p)" for p using parallel_below [OF e] .
  have s: "same_outside f d f'" "unshared d W f'" using c by (simp_all add: confined_def)
  have n: "nodes f' (e @ p) = nodes f (e @ p)" for p using s(1) out by (simp add: same_outside_def)
  have "nodes f q = Some (File i)" if h: "nodes f (e @ p) = Some (File i)" "nodes f' q = Some (File i)" for p q i
  proof (cases "prefix d q")
    case True
    then obtain p' where "q = d @ p'" by (auto simp: prefix_def)
    then have "prefix d (e @ p)" using s(2) h n unfolding unshared_def by metis
    then show ?thesis using out by simp
  next
    case False
    then show ?thesis using s(1) h(2) by (simp add: same_outside_def)
  qed
  moreover have "inodes f' i = inodes f i" if "nodes f (e @ p) = Some (File i)" for p i
    using s(1) out [of p] n [of p] that unfolding same_outside_def by metis
  ultimately show ?thesis using n unfolding kept_def by blast
qed

lemma beside_images: "R @ [n, s] \<noteq> R @ [n', s'] \<Longrightarrow> parallel (R @ [n', s']) (R @ [n, s])"
  by (auto simp: parallel_def)

lemma confined_host:
  assumes g: "cache_good f0 R f" and c: "confined L W f ds (R @ [n, s]) f'"
  shows "host_same f0 R f'"
  unfolding host_same_def
proof (intro conjI allI impI)
  let ?d = "R @ [n, s]"
  have s: "same_outside f ?d f'" using c by (simp add: confined_def)
  have out: "\<not> prefix ?d q" if "\<not> strict_prefix R q" for q using that by (auto simp: prefix_def strict_prefix_def)
  show "nodes f' q = nodes f0 q" if q: "\<not> strict_prefix R q" for q
    using q s out [OF q] cache_goodD(2) [OF g] by (simp add: same_outside_def host_same_def)
  fix q i assume q: "\<not> strict_prefix R q" and i: "nodes f0 q = Some (File i)"
  then have "nodes f q = Some (File i)" using i cache_goodD(2) [OF g] by (simp add: host_same_def)
  then have "nodes f' q = Some (File i)" using s out [OF q] by (simp add: same_outside_def)
  then show "inodes f' i = inodes f0 i"
    using s out [OF q] cache_goodD(2) [OF g] i q unfolding same_outside_def host_same_def by metis
qed

lemma confined_moved:
  assumes g: "cache_good f0 R f" and c: "confined L {resolv_place} f ds (R @ [n, s]) f'" and w: "wf_files f'"
  shows "moved f0 R (R @ [n, s]) f f' \<and> at_work L (R @ [n, s]) f'"
proof -
  let ?d = "R @ [n, s]"
  have s: "same_outside f ?d f'" using c by (simp add: confined_def)
  have "host_same f0 R f'" by (rule confined_host [OF g c])
  moreover have "nd = Dir" if "nodes f' (R @ [n']) = Some nd" for n' nd
    using that s cache_goodD(3) [OF g, of n' nd] by (simp add: same_outside_def prefix_def)
  moreover have d: "nodes f' ?d = Some Dir" using c by (simp add: confined_def resolves_to_def)
  moreover have "nd = Dir" if "nodes f' (R @ [n', s']) = Some nd" for n' s' nd
  proof (cases "R @ [n', s'] = ?d")
    case True
    then show ?thesis using that d by simp
  next
    case False
    then have "\<not> prefix ?d (R @ [n', s'])" by (auto simp: prefix_def)
    then show ?thesis using that s cache_goodD(4) [OF g, of n' s' nd] by (simp add: same_outside_def)
  qed
  ultimately show ?thesis
    using w c confined_kept [OF c beside_images]
    by (auto simp: moved_def cache_good_def two_levels_def at_work_def confined_def)
qed

lemma work_entry:
  assumes h: "cache_host cs R f0" and g: "cache_good f0 R f" and p: "plain_list [n, s]" and w: "at_work L (R @ [n, s]) f"
    and i: "no_detour {resolv_place} L (Tar_Entry th bytes cerr)" "symlink_place (Tar_Entry th bytes cerr) \<subseteq> L"
    and e: "extract_entry (abs_path (cs @ [n, s])) th bytes cerr f = (r, f')"
  shows "moved f0 R (R @ [n, s]) f f' \<and> at_work L (R @ [n, s]) f'"
proof -
  have ds: "cs @ [n, s] \<noteq> []" "plain_list (cs @ [n, s])" using h p by (simp_all add: cache_host_def)
  have "confined L {resolv_place} f (cs @ [n, s]) (R @ [n, s]) f'"
    by (rule confined_entry [OF work_confined [OF h g p w] ds i e])
  then show ?thesis by (rule confined_moved [OF g _ wf_entry [OF cache_goodD(1) [OF g] ds e]])
qed

lemma work_inject:
  assumes h: "cache_host cs R f0" and g: "cache_good f0 R f" and p: "plain_list [n, s]" and w: "at_work L (R @ [n, s]) f"
    and cl: "clear L init_place" and rd: "os_ReadFile (outside R f0) vp = Inr t" "is_rooted vp"
    and e: "InjectInit f (abs_path (cs @ [n, s])) vp = (r, f')"
  shows "moved f0 R (R @ [n, s]) f f' \<and> at_work L (R @ [n, s]) f' \<and> (r = None \<longrightarrow> holds_at (R @ [n, s]) init_place t f')"
proof -
  have ds: "cs @ [n, s] \<noteq> []" "plain_list (cs @ [n, s])" using h p by (simp_all add: cache_host_def)
  note c = work_confined [OF h g p w]
  have "os_ReadFile k vp = Inr t" if "confined L {resolv_place} f (cs @ [n, s]) (R @ [n, s]) k" for k
    by (rule host_read [OF confined_host [OF g that] rd])
  note in_dir = confined_inject [OF c ds cl e this]
  then show ?thesis
    using confined_moved [OF g conjunct1 [OF in_dir] wf_inject [OF cache_goodD(1) [OF g] ds e]]
    by (auto simp: holds_at_def)
qed

lemma work_fix:
  assumes h: "cache_host cs R f0" and g: "cache_good f0 R f" and p: "plain_list [n, s]" and w: "at_work L (R @ [n, s]) f"
    and cl: "clear L resolv_place" and v: "holds_at (R @ [n, s]) init_place t f"
    and e: "FixResolvConf f (abs_path (cs @ [n, s])) = (r, f')"
  shows "moved f0 R (R @ [n, s]) f f' \<and> at_work L (R @ [n, s]) f' \<and> (r = None \<longrightarrow> complete t (R @ [n, s]) f')"
proof -
  let ?d = "R @ [n, s]"
  have ds: "cs @ [n, s] \<noteq> []" "plain_list (cs @ [n, s])" using h p by (simp_all add: cache_host_def)
  note in_dir = confined_fix [OF work_confined [OF h g p w] ds cl e]
  have "complete t ?d f'" if "r = None"
  proof -
    obtain i where i: "nodes f (?d @ init_place) = Some (File i)" "i_data (inodes f i) = t"
      using v by (auto simp: holds_at_def)
    have "?d @ init_place \<noteq> ?d @ resolv_place" by (simp add: init_place_def resolv_place_def)
    then have "inodes f' i = inodes f i" using in_dir that i(1) by blast
    moreover have "nodes f' (?d @ init_place) = Some (File i)" by (rule map_le_Some [OF conjunct1 [OF conjunct2 [OF in_dir]] i(1)])
    moreover have "holds_at ?d resolv_place resolv_conf f'" using in_dir that by (auto simp: holds_at_def)
    ultimately show ?thesis using i(2) by (auto simp: complete_def holds_at_def)
  qed
  then show ?thesis
    using confined_moved [OF g conjunct1 [OF in_dir] wf_fix [OF cache_goodD(1) [OF g] ds e]] by blast
qed

text \<open>\<open>MkdirAll\<close> of a directory that is not there.\<close>

lemma cache_mkdir_one:
  assumes h: "cache_host cs R f0" and g: "cache_good f0 R f" and p: "plain_list (es @ [e])"
    and up: "nodes f (R @ es) = Some Dir" and none: "nodes f (R @ es @ [e]) = None"
  shows "create_at f [] (cs @ es @ [e]) Dir = (None, set_node (R @ es @ [e]) Dir f)"
proof -
  have "follow f [] (cs @ es) = Inr (R @ es)" by (rule cache_lookup(2) [OF h g _ up]) (use p in simp_all)
  moreover have "butlast (cs @ es @ [e]) = cs @ es" "last (cs @ es @ [e]) = e"
    by (simp_all add: butlast_append)
  ultimately have "place f [] (cs @ es @ [e]) = Inr (R @ es @ [e])" using up by (simp add: place_def)
  then show ?thesis using none by (simp add: create_at_def)
qed

lemma kept_new_dir: "\<not> prefix e q \<Longrightarrow> kept e f (set_node q Dir f)"
  by (auto simp: kept_def set_node_def)

lemma good_new_dir:
  assumes g: "cache_good f0 R f" and q: "nodes f q = None" "strict_prefix R q" "nodes f (butlast q) = Some Dir"
  shows "cache_good f0 R (set_node q Dir f)"
proof -
  have "wf_files (set_node q Dir f)"
    by (rule wf_set_node [OF cache_goodD(1) [OF g] q(1) _ q(3)]) (use q(2) in auto)
  moreover have "host_same f0 R (set_node q Dir f)"
    using cache_goodD(2) [OF g] q(2) by (auto simp: host_same_def set_node_def)
  ultimately show ?thesis using g by (auto simp: cache_good_def two_levels_def set_node_def)
qed

lemma work_mkdir:
  assumes h: "cache_host cs R f0" and g: "cache_good f0 R f" and p: "plain_list [n, s]" and none: "nodes f (R @ [n, s]) = None"
  shows "\<exists>f'. os_MkdirAll f (abs_path (cs @ [n, s])) = (None, f') \<and> moved f0 R (R @ [n, s]) f f' \<and> at_work L (R @ [n, s]) f'"
proof -
  let ?d = "R @ [n, s]"
  have pl: "plain_list (cs @ [n, s])" "cs \<noteq> []" using h p by (simp_all add: cache_host_def)
  have top: "nodes f R = Some Dir" using h cache_goodD(2) [OF g] by (simp add: cache_host_def host_same_def)
  have cs: "mkdir_all f [] (rev cs) = (None, f)"
    using cache_lookup(1) [OF h g, of "[]" Dir] top pl(2) by (cases cs rule: rev_cases) auto
  define f1 where "f1 = (if nodes f (R @ [n]) = None then set_node (R @ [n]) Dir f else f)"
  have f1: "mkdir_all f [] (n # rev cs) = (None, f1) \<and> cache_good f0 R f1 \<and> nodes f1 (R @ [n]) = Some Dir"
  proof (cases "nodes f (R @ [n])")
    case None
    then have "\<exists>e. lookup f [] (cs @ [n]) = Inl e" using cache_lookup_none [OF h g _ None] p by simp
    moreover have "strict_prefix R (R @ [n])" by (simp add: strict_prefix_def)
    ultimately show ?thesis
      using None cs cache_mkdir_one [OF h g, of "[]" n] top p good_new_dir [OF g None]
      by (auto simp: f1_def set_node_def)
  next
    case (Some nd)
    then have nd: "nd = Dir" using cache_goodD(3) [OF g] by blast
    then have "lookup f [] (cs @ [n]) = Inr Dir" using cache_lookup(1) [OF h g _ Some] p by simp
    then show ?thesis using Some nd g by (simp add: f1_def)
  qed
  have none1: "nodes f1 ?d = None" using none by (simp add: f1_def set_node_def)
  let ?f = "set_node ?d Dir f1"
  have "\<exists>e. lookup f [] (cs @ [n, s]) = Inl e" using cache_lookup_none [OF h g p none] by simp
  then have "mkdir_all f [] (s # n # rev cs) = (None, ?f)"
    using f1 cache_mkdir_one [OF h conjunct1 [OF conjunct2 [OF f1]], of "[n]" s] none1 p by auto
  then have mk: "os_MkdirAll f (abs_path (cs @ [n, s])) = (None, ?f)" using pl by (simp add: os_MkdirAll_def)
  have good: "cache_good f0 R ?f"
    by (rule good_new_dir [OF _ none1]) (use f1 in \<open>simp_all add: butlast_append strict_prefix_def\<close>)
  have "kept (R @ [n', s']) f ?f" if "R @ [n', s'] \<noteq> ?d" for n' s'
  proof -
    have "\<not> prefix (R @ [n', s']) (R @ [n])" "\<not> prefix (R @ [n', s']) ?d" using that by auto
    then have "kept (R @ [n', s']) f f1" "kept (R @ [n', s']) f1 ?f"
      using kept_new_dir [of "R @ [n', s']"] by (simp_all add: f1_def del: prefix_snoc)
    then show ?thesis by (rule kept_trans)
  qed
  moreover have "nodes ?f (?d @ p) = (if p = [] then Some Dir else None)" for p
    using nothing_below [OF cache_goodD(1) none1] f1 by (auto simp: set_node_def)
  ultimately have "moved f0 R ?d f ?f \<and> at_work L ?d ?f"
    using good by (auto simp: moved_def at_work_def only_links_def unshared_def split: if_splits)
  then show ?thesis using mk by blast
qed

lemma work_remove:
  assumes h: "cache_host cs R f0" and g: "cache_good f0 R f" and p: "plain_list [n, s]" and w: "nodes f (R @ [n, s]) = Some Dir"
  shows "moved f0 R (R @ [n, s]) f (os_RemoveAll f (abs_path (cs @ [n, s]))) \<and>
    nodes (os_RemoveAll f (abs_path (cs @ [n, s]))) (R @ [n, s]) = None"
proof -
  let ?d = "R @ [n, s]" let ?f = "f\<lparr>nodes := (\<lambda>x. if prefix (R @ [n, s]) x then None else nodes f x)\<rparr>"
  have pl: "plain_list (cs @ [n, s])" using h p by (simp add: cache_host_def)
  have up: "nodes f (R @ [n]) = Some Dir" using wf_parent [OF cache_goodD(1) [OF g], of "R @ [n]" "[s]"] w by simp
  have "follow f [] (cs @ [n]) = Inr (R @ [n])" by (rule cache_lookup(2) [OF h g _ up]) (use p in simp_all)
  moreover have "butlast (cs @ [n, s]) = cs @ [n]" "last (cs @ [n, s]) = s" by (simp_all add: butlast_append)
  ultimately have "place f [] (cs @ [n, s]) = Inr ?d" using up by (simp add: place_def)
  then have rm: "os_RemoveAll f (abs_path (cs @ [n, s])) = ?f" using pl by (simp add: os_RemoveAll_def)
  have "wf_files ?f" by (rule wf_remove [OF cache_goodD(1) [OF g]]) simp
  moreover have "host_same f0 R ?f"
    using cache_goodD(2) [OF g] by (auto simp: host_same_def strict_prefix_def prefix_def)
  ultimately have "cache_good f0 R ?f" using g by (auto simp: cache_good_def two_levels_def split: if_splits)
  moreover have "kept (R @ [n', s']) f ?f" if "R @ [n', s'] \<noteq> ?d" for n' s'
    using parallel_below [OF beside_images [OF that]] by (auto simp: kept_def)
  ultimately show ?thesis by (simp add: rm moved_def)
qed

end
