(* ===== verification/Ensure_Cache.thy ===== *)
theory Ensure_Cache imports Ensure_Threads Cache_Files begin

text \<open>
  The image cache while calls of \<open>Ensure\<close> overlap (internal/api/image_cache.go): what holds of its directories after
  any number of turns of any number of calls, and what a call can rely on when it returns.
\<close>

section \<open>Calls for one cache\<close>

definition image_place :: "string list \<Rightarrow> ensure_call \<Rightarrow> string \<Rightarrow> string list" where
  "image_place R c dg = R @ [imageName (ec_ref c), shortSHA dg]"

text \<open>
  Names that are elements of a path, images whose links are not in the way, and no two digests with the same
  first twelve characters.
\<close>

definition calls_ok :: "ensure_call list \<Rightarrow> bool" where
  "calls_ok calls \<longleftrightarrow>
     (\<forall>c\<in>set calls. \<forall>dg. ec_digest c = Inr dg \<longrightarrow> plain_elem (imageName (ec_ref c)) \<and> plain_elem (shortSHA dg)) \<and>
     (\<forall>c\<in>set calls. \<forall>items. ec_pull c = Inr items \<longrightarrow> well_behaved items) \<and>
     (\<forall>c\<in>set calls. \<forall>c'\<in>set calls. \<forall>dg dg'. ec_digest c = Inr dg \<longrightarrow> ec_digest c' = Inr dg' \<longrightarrow>
        shortSHA dg = shortSHA dg' \<longrightarrow> dg = dg')"

text \<open>
  The host with its cache as a server finds it: the images that are there, from an earlier run, are complete.
\<close>

definition cache_at :: "image_cache_dir \<Rightarrow> string list \<Rightarrow> string list \<Rightarrow> files \<Rightarrow> string \<Rightarrow> bool" where
  "cache_at ic cs R f0 t \<longleftrightarrow>
     cache_host cs R f0 \<and> ic_cacheDir ic = abs_path cs \<and>
     is_rooted (ic_vminitPath ic) \<and> os_ReadFile (outside R f0) (ic_vminitPath ic) = Inr t \<and>
     (\<forall>n s. nodes f0 (R @ [n, s]) \<noteq> None \<longrightarrow> complete t (R @ [n, s]) f0)"

fun pc_digest :: "ensure_pc \<Rightarrow> string option" where
  "pc_digest (Checking dg) = Some dg"
| "pc_digest (Entering dg) = Some dg"
| "pc_digest (Waiting n dg) = Some dg"
| "pc_digest pc = map_option snd (in_flight pc)"

text \<open>The points at which the directory is there and not ready.\<close>

fun preparing :: "ensure_pc \<Rightarrow> string option" where
  "preparing (Extracting n dg items) = Some dg"
| "preparing (Injecting n dg) = Some dg"
| "preparing (Fixing n dg) = Some dg"
| "preparing (Removing n dg e) = Some dg"
| "preparing _ = None"

definition under_way :: "string list \<Rightarrow> (ensure_call \<times> ensure_pc) list \<Rightarrow> string list \<Rightarrow> bool" where
  "under_way R ps d \<longleftrightarrow>
     (\<exists>i<length ps. \<exists>dg. preparing (snd (ps ! i)) = Some dg \<and> image_place R (fst (ps ! i)) dg = d)"

text \<open>What a call has done so far.\<close>

fun stage_ok :: "string list \<Rightarrow> string \<Rightarrow> files \<Rightarrow> ensure_call \<Rightarrow> ensure_pc \<Rightarrow> bool" where
  "stage_ok R t f c (Pulling n dg) = (nodes f (image_place R c dg) = None)"
| "stage_ok R t f c (Making n dg items) = (nodes f (image_place R c dg) = None \<and> well_behaved items)"
| "stage_ok R t f c (Extracting n dg items) =
     (\<exists>L. at_work L (image_place R c dg) f \<and> list_all (no_detour {resolv_place} L) items \<and> link_places items \<subseteq> L \<and>
        clear L init_place \<and> clear L resolv_place)"
| "stage_ok R t f c (Injecting n dg) =
     (\<exists>L. at_work L (image_place R c dg) f \<and> clear L init_place \<and> clear L resolv_place)"
| "stage_ok R t f c (Fixing n dg) =
     (\<exists>L. at_work L (image_place R c dg) f \<and> clear L resolv_place \<and> holds_at (image_place R c dg) init_place t f)"
| "stage_ok R t f c (Removing n dg e) = (nodes f (image_place R c dg) = Some Dir)"
| "stage_ok R t f c (Finishing n dg None) = complete t (image_place R c dg) f"
| "stage_ok R t f c (Finishing n dg (Some e)) = (nodes f (image_place R c dg) = None)"
| "stage_ok R t f c _ = True"

lemma image_dir_abs:
  assumes "cache_at ic cs R f0 t" "plain_list [imageName (ec_ref c), shortSHA dg]"
  shows "image_dir ic (ec_ref c) dg = abs_path (cs @ [imageName (ec_ref c), shortSHA dg])"
  using path_join_abs [of cs "[imageName (ec_ref c), shortSHA dg]"] assms
  by (simp add: image_dir_def cache_at_def cache_host_def)

lemma complete_there: "cache_good f0 R f \<Longrightarrow> complete t d f \<Longrightarrow> nodes f d \<noteq> None"
  using wf_parent [of f d init_place] by (auto simp: complete_def holds_at_def init_place_def dest: cache_goodD(1))

lemma kept_stage:
  assumes "kept (image_place R c dg) f f'" "pc_digest pc = Some dg" "stage_ok R t f c pc"
  shows "stage_ok R t f' c pc"
proof (cases pc)
  case (Finishing n dg' r)
  then show ?thesis
    using assms kept_here [OF assms(1)] kept_complete [OF assms(1)] by (cases r) auto
qed (use assms kept_here [OF assms(1)] kept_work [OF assms(1)] kept_holds [OF assms(1)] in auto)

section \<open>A step of a call in flight\<close>

lemma flight_step:
  assumes st: "ensure_step sf ic c pc x = Some (pc', x')" and fl: "in_flight pc = Some (n, dg)"
    and ca: "cache_at ic cs R f0 t" and g: "cache_good f0 R (cs_files x)"
    and p: "plain_list [imageName (ec_ref c), shortSHA dg]" and wb: "\<And>items. ec_pull c = Inr items \<Longrightarrow> well_behaved items"
    and ok: "stage_ok R t (cs_files x) c pc"
    and own: "nodes (cs_files x) (image_place R c dg) \<noteq> None \<longrightarrow> complete t (image_place R c dg) (cs_files x) \<or> preparing pc = Some dg"
  shows "moved f0 R (image_place R c dg) (cs_files x) (cs_files x') \<and> stage_ok R t (cs_files x') c pc' \<and>
    (nodes (cs_files x') (image_place R c dg) \<noteq> None \<longrightarrow>
       complete t (image_place R c dg) (cs_files x') \<or> preparing pc' = Some dg) \<and>
    (complete t (image_place R c dg) (cs_files x) \<longrightarrow> preparing pc = None \<longrightarrow> cs_files x' = cs_files x \<and> preparing pc' = None)"
proof -
  let ?d = "image_place R c dg" and ?p = "abs_path (cs @ [imageName (ec_ref c), shortSHA dg])" and ?f = "cs_files x"
  have h: "cache_host cs R f0" and v: "is_rooted (ic_vminitPath ic)" "os_ReadFile (outside R f0) (ic_vminitPath ic) = Inr t"
    using ca by (simp_all add: cache_at_def)
  note dir = image_dir_abs [OF ca p]
  have d: "?d = R @ [imageName (ec_ref c), shortSHA dg]" by (simp add: image_place_def)
  note stat = cache_stat [OF h g p, folded d]
  show ?thesis
  proof (cases pc)
    case (Rechecking m dg')
    then show ?thesis
      using st fl dir stat own moved_refl [OF g] complete_there [OF g]
      by (cases "os_Stat ?f ?p") auto
  next
    case (Pulling m dg')
    then show ?thesis
      using st fl ok wb moved_refl [OF g] complete_there [OF g] by (cases "ec_pull c") auto
  next
    case (Making m dg' items)
    then have none: "nodes ?f ?d = None" "well_behaved items" "dg' = dg" using ok fl by simp_all
    note mk = work_mkdir [OF h g p none(1) [unfolded d], folded d]
    obtain f' where f': "os_MkdirAll ?f ?p = (None, f')" "moved f0 R ?d ?f f'"
      using mk by blast
    moreover have "at_work L ?d f'" for L using mk [of L] f'(1) by auto
    ultimately have f': "os_MkdirAll ?f ?p = (None, f')" "moved f0 R ?d ?f f'" "\<And>L. at_work L ?d f'" by blast+
    then show ?thesis using st Making dir none complete_there [OF g, of t ?d] by (auto simp: well_behaved_def)
  next
    case (Extracting m dg' items)
    then have dg: "dg' = dg" using fl by simp
    obtain L where L: "at_work L ?d ?f" "list_all (no_detour {resolv_place} L) items" "link_places items \<subseteq> L"
        "clear L init_place" "clear L resolv_place"
      using ok Extracting dg by auto
    show ?thesis
    proof (cases items rule: tar_items_cases)
      case 1
      then show ?thesis using st Extracting dg L moved_refl [OF g] by auto
    next
      case (2 e its)
      then show ?thesis using st Extracting dg L moved_refl [OF g] by (auto simp: at_work_def)
    next
      case (3 th bytes cerr its)
      obtain r f' where e: "extract_entry ?p th bytes cerr ?f = (r, f')" by fastforce
      have w: "moved f0 R ?d ?f f' \<and> at_work L ?d f'"
        unfolding d by (rule work_entry [OF h g p _ _ _ e]) (use L 3 in \<open>auto simp: d link_places_def\<close>)
      show ?thesis
      proof (cases r)
        case None
        then show ?thesis using st Extracting dg 3 e w L dir by (auto simp: link_places_def)
      next
        case (Some err)
        then show ?thesis using st Extracting dg 3 e w dir by (auto simp: at_work_def)
      qed
    qed
  next
    case (Injecting m dg')
    then have dg: "dg' = dg" using fl by simp
    obtain L where L: "at_work L ?d ?f" "clear L init_place" "clear L resolv_place" using ok Injecting dg by auto
    obtain r f' where e: "InjectInit ?f ?p (ic_vminitPath ic) = (r, f')" by fastforce
    have w: "moved f0 R ?d ?f f' \<and> at_work L ?d f' \<and> (r = None \<longrightarrow> holds_at ?d init_place t f')"
      unfolding d by (rule work_inject [OF h g p _ L(2) v(2,1) e]) (use L(1) in \<open>simp add: d\<close>)
    show ?thesis
    proof (cases r)
      case None
      then show ?thesis using st Injecting dg e w L dir by auto
    next
      case (Some err)
      then show ?thesis using st Injecting dg e w dir by (auto simp: at_work_def)
    qed
  next
    case (Fixing m dg')
    then have dg: "dg' = dg" using fl by simp
    obtain L where L: "at_work L ?d ?f" "clear L resolv_place" "holds_at ?d init_place t ?f" using ok Fixing dg by auto
    obtain r f' where e: "FixResolvConf ?f ?p = (r, f')" by fastforce
    have w: "moved f0 R ?d ?f f' \<and> at_work L ?d f' \<and> (r = None \<longrightarrow> complete t ?d f')"
      unfolding d by (rule work_fix [OF h g p _ L(2) _ e]) (use L(1,3) in \<open>simp_all add: d\<close>)
    show ?thesis
    proof (cases r)
      case None
      then show ?thesis using st Fixing dg e w L dir by auto
    next
      case (Some err)
      then show ?thesis using st Fixing dg e w dir by (auto simp: at_work_def)
    qed
  next
    case (Removing m dg' e)
    then have dg: "dg' = dg" "nodes ?f ?d = Some Dir" using fl ok by simp_all
    then show ?thesis
      using st Removing dir work_remove [OF h g p, folded d] by auto
  next
    case (Finishing m dg' r)
    then show ?thesis using st fl own moved_refl [OF g] by (auto simp: outcome_def)
  qed (use fl in simp_all)
qed

text \<open>A step of a call that is not in flight leaves the files alone.\<close>

lemma quiet_step:
  assumes "ensure_step sf ic c pc x = Some (pc', x')" and "in_flight pc = None"
  shows "cs_files x' = cs_files x \<and> stage_ok R t f c pc' \<and> preparing pc' = None"
  using assms by (cases pc) (auto simp: outcome_def split: sum.splits option.splits prod.splits)

lemma step_digest:
  assumes "ensure_step sf ic c pc x = Some (pc', x')" and "pc_digest pc = Some dg \<or> pc = Resolving \<and> ec_digest c = Inr dg"
    and "pc_digest pc' = Some dg'"
  shows "dg' = dg"
proof (cases pc)
  case (Extracting n dg items)
  then show ?thesis
    using assms by (cases items rule: tar_items_cases) (auto split: prod.splits option.splits)
qed (use assms in \<open>auto simp: outcome_def split: sum.splits option.splits prod.splits\<close>)

lemma in_flight_digest: "in_flight pc = Some (n, dg) \<Longrightarrow> pc_digest pc = Some dg"
  by (cases pc) auto

lemma preparing_in_flight: "preparing pc = Some dg \<Longrightarrow> \<exists>n. in_flight pc = Some (n, dg)"
  by (cases pc) auto

section \<open>The invariant\<close>

definition cache_inv ::
  "'g group_ops \<Rightarrow> string list \<Rightarrow> files \<Rightarrow> string \<Rightarrow> ensure_call list \<Rightarrow> (ensure_call \<times> ensure_pc) list \<Rightarrow> 'g cache_state \<Rightarrow> bool" where
  "cache_inv sf R f0 t calls ps x \<longleftrightarrow>
     flights_inv sf ps (cs_group x) \<and> cache_good f0 R (cs_files x) \<and> map fst ps = calls \<and>
     (\<forall>i<length ps. stage_ok R t (cs_files x) (fst (ps ! i)) (snd (ps ! i)) \<and>
        (\<forall>dg. pc_digest (snd (ps ! i)) = Some dg \<longrightarrow> ec_digest (fst (ps ! i)) = Inr dg)) \<and>
     (\<forall>n s. nodes (cs_files x) (R @ [n, s]) \<noteq> None \<longrightarrow>
        complete t (R @ [n, s]) (cs_files x) \<or> under_way R ps (R @ [n, s]))"

lemma cache_invD:
  assumes "cache_inv sf R f0 t calls ps x"
  shows "flights_inv sf ps (cs_group x)" and "cache_good f0 R (cs_files x)" and "map fst ps = calls"
    and "i < length ps \<Longrightarrow> stage_ok R t (cs_files x) (fst (ps ! i)) (snd (ps ! i))"
    and "i < length ps \<Longrightarrow> pc_digest (snd (ps ! i)) = Some dg \<Longrightarrow> ec_digest (fst (ps ! i)) = Inr dg"
    and "nodes (cs_files x) (R @ [n, s]) \<noteq> None \<Longrightarrow> complete t (R @ [n, s]) (cs_files x) \<or> under_way R ps (R @ [n, s])"
    and "i < length ps \<Longrightarrow> fst (ps ! i) \<in> set calls"
proof -
  show "i < length ps \<Longrightarrow> fst (ps ! i) \<in> set calls"
    using assms nth_mem [of i ps] unfolding cache_inv_def by auto
qed (use assms in \<open>simp_all add: cache_inv_def\<close>)

lemma same_place:
  assumes "calls_ok calls" "c \<in> set calls" "c' \<in> set calls" "ec_digest c = Inr dg" "ec_digest c' = Inr dg'"
    "image_place R c dg = image_place R c' dg'"
  shows "dg = dg'"
proof -
  have "shortSHA dg = shortSHA dg'" using assms(6) by (simp add: image_place_def)
  then show ?thesis using assms(1-5) unfolding calls_ok_def by blast
qed

text \<open>Two calls in flight are not at work on one directory.\<close>

lemma flights_apart:
  assumes inv: "cache_inv sf R f0 t calls ps x" and ok: "calls_ok calls" and ij: "i < length ps" "j < length ps"
    and fl: "in_flight (snd (ps ! i)) = Some (n, dg)" "in_flight (snd (ps ! j)) = Some (m, dg')"
    and d: "image_place R (fst (ps ! i)) dg = image_place R (fst (ps ! j)) dg'"
  shows "i = j \<and> dg = dg'"
proof -
  have "dg = dg'"
    by (rule same_place [OF ok cache_invD(7) [OF inv ij(1)] cache_invD(7) [OF inv ij(2)]
          cache_invD(5) [OF inv ij(1) in_flight_digest [OF fl(1)]] cache_invD(5) [OF inv ij(2) in_flight_digest [OF fl(2)]] d])
  then show ?thesis using flightsD(3) [OF cache_invD(1) [OF inv] ij fl(1)] fl(2) by simp
qed

lemma under_way_own:
  assumes inv: "cache_inv sf R f0 t calls ps x" and ok: "calls_ok calls" and i: "i < length ps"
    and fl: "in_flight (snd (ps ! i)) = Some (n, dg)" and u: "under_way R ps (image_place R (fst (ps ! i)) dg)"
  shows "preparing (snd (ps ! i)) = Some dg"
proof -
  obtain j dg' where j: "j < length ps" "preparing (snd (ps ! j)) = Some dg'"
      "image_place R (fst (ps ! j)) dg' = image_place R (fst (ps ! i)) dg"
    using u by (auto simp: under_way_def)
  obtain m where m: "in_flight (snd (ps ! j)) = Some (m, dg')" using preparing_in_flight [OF j(2)] by blast
  show ?thesis using flights_apart [OF inv ok i j(1) fl m j(3) [symmetric]] j(2) by simp
qed

lemma under_way_update:
  assumes "i < length ps"
  shows "under_way R (ps[i := (c, pc')]) d \<longleftrightarrow>
    (\<exists>dg. preparing pc' = Some dg \<and> image_place R c dg = d) \<or>
    (\<exists>j<length ps. j \<noteq> i \<and> (\<exists>dg. preparing (snd (ps ! j)) = Some dg \<and> image_place R (fst (ps ! j)) dg = d))"
  (is "?l \<longleftrightarrow> ?r")
proof
  assume ?l
  then obtain j dg where "j < length ps" "preparing (snd (ps[i := (c, pc')] ! j)) = Some dg" "image_place R (fst (ps[i := (c, pc')] ! j)) dg = d"
    by (auto simp: under_way_def)
  then show ?r by (cases "j = i") auto
next
  assume ?r
  then show ?l
  proof
    assume "\<exists>dg. preparing pc' = Some dg \<and> image_place R c dg = d"
    then show ?l using assms by (auto simp: under_way_def intro!: exI [of _ i])
  next
    assume "\<exists>j<length ps. j \<noteq> i \<and> (\<exists>dg. preparing (snd (ps ! j)) = Some dg \<and> image_place R (fst (ps ! j)) dg = d)"
    then obtain j where "j < length ps" "j \<noteq> i" "\<exists>dg. preparing (snd (ps ! j)) = Some dg \<and> image_place R (fst (ps ! j)) dg = d" by blast
    then show ?l unfolding under_way_def by (intro exI [of _ j]) simp
  qed
qed

text \<open>What a turn does to the files and to the call, in flight or not.\<close>

lemma turn_files:
  assumes inv: "cache_inv sf R f0 t calls ps x" and ok: "calls_ok calls" and ca: "cache_at ic cs R f0 t"
    and i: "i < length ps" "ps ! i = (c, pc)" and st: "ensure_step sf ic c pc x = Some (pc', x')"
  shows "cache_good f0 R (cs_files x') \<and> stage_ok R t (cs_files x') c pc' \<and>
    (\<forall>n s. (\<nexists>m dg. in_flight pc = Some (m, dg) \<and> image_place R c dg = R @ [n, s]) \<longrightarrow> kept (R @ [n, s]) (cs_files x) (cs_files x')) \<and>
    (\<forall>m dg. in_flight pc = Some (m, dg) \<longrightarrow>
       (nodes (cs_files x') (image_place R c dg) \<noteq> None \<longrightarrow>
          complete t (image_place R c dg) (cs_files x') \<or> preparing pc' = Some dg) \<and>
       (complete t (image_place R c dg) (cs_files x) \<longrightarrow> preparing pc = None \<longrightarrow>
          cs_files x' = cs_files x \<and> preparing pc' = None)) \<and>
    (in_flight pc = None \<longrightarrow> preparing pc' = None)"
proof (cases "in_flight pc")
  case None
  then show ?thesis using quiet_step [OF st None] cache_invD(2) [OF inv] by simp
next
  case (Some p)
  obtain m dg where p: "p = (m, dg)" by (cases p)
  let ?d = "image_place R c dg"
  have fl: "in_flight pc = Some (m, dg)" using Some p by simp
  have c: "c \<in> set calls" "ec_digest c = Inr dg"
    using cache_invD(5,7) [OF inv i(1)] i(2) in_flight_digest [OF fl] by simp_all
  have "nodes (cs_files x) ?d \<noteq> None \<longrightarrow> complete t ?d (cs_files x) \<or> preparing pc = Some dg"
    using cache_invD(6) [OF inv, of "imageName (ec_ref c)" "shortSHA dg"] under_way_own [OF inv ok i(1), of m dg] i(2) fl
    by (auto simp: image_place_def)
  note own = this
  have pl: "plain_list [imageName (ec_ref c), shortSHA dg]" and wb: "\<And>items. ec_pull c = Inr items \<Longrightarrow> well_behaved items"
    using ok c by (auto simp: calls_ok_def)
  have st_ok: "stage_ok R t (cs_files x) c pc" using cache_invD(4) [OF inv i(1)] i(2) by simp
  have w: "moved f0 R ?d (cs_files x) (cs_files x') \<and> stage_ok R t (cs_files x') c pc' \<and>
      (nodes (cs_files x') ?d \<noteq> None \<longrightarrow> complete t ?d (cs_files x') \<or> preparing pc' = Some dg) \<and>
      (complete t ?d (cs_files x) \<longrightarrow> preparing pc = None \<longrightarrow> cs_files x' = cs_files x \<and> preparing pc' = None)"
    by (rule flight_step [OF st fl ca cache_invD(2) [OF inv] pl wb st_ok own])
  have "kept (R @ [n, s]) (cs_files x) (cs_files x')"
    if "\<nexists>m dg. in_flight pc = Some (m, dg) \<and> image_place R c dg = R @ [n, s]" for n s
    using w that fl unfolding moved_def by metis
  then show ?thesis using w fl by (auto simp: moved_def)
qed

text \<open>A directory that is ready, and which nobody is at work on.\<close>

definition ready :: "string list \<Rightarrow> string \<Rightarrow> (ensure_call \<times> ensure_pc) list \<Rightarrow> files \<Rightarrow> string list \<Rightarrow> bool" where
  "ready R t ps f d \<longleftrightarrow> complete t d f \<and> \<not> under_way R ps d"

lemma preparing_before:
  assumes "ensure_step sf ic c pc x = Some (pc', x')" "preparing pc' = Some dg"
  obtains m where "in_flight pc = Some (m, dg)"
proof (cases "in_flight pc")
  case None
  then show thesis using quiet_step [OF assms(1)] assms(2) by simp
next
  case (Some p)
  obtain m dg' where p: "in_flight pc = Some (m, dg')" using Some by (cases p) simp
  have "pc_digest pc' = Some dg" using preparing_in_flight [OF assms(2)] in_flight_digest by blast
  from step_digest [OF assms(1) _ this] in_flight_digest [OF p] show thesis using that p by blast
qed

lemma ready_turn:
  assumes inv: "cache_inv sf R f0 t calls ps x" and ok: "calls_ok calls" and ca: "cache_at ic cs R f0 t"
    and step: "calls_step sf ic (ps, x) (ps', x')" and rd: "ready R t ps (cs_files x) (R @ [n, s])"
  shows "kept (R @ [n, s]) (cs_files x) (cs_files x') \<and> ready R t ps' (cs_files x') (R @ [n, s])"
  using step
proof (cases rule: calls_step.cases)
  case (takes_turn i c pc pc')
  let ?d = "R @ [n, s]"
  have i: "i < length ps" "ps ! i = (c, pc)" and ps': "ps' = ps[i := (c, pc')]" using takes_turn by simp_all
  note tf = turn_files [OF inv ok ca i takes_turn(4)]
  have others: "\<not> (preparing (snd (ps ! j)) = Some dg \<and> image_place R (fst (ps ! j)) dg = ?d)" if "j < length ps" for j dg
    using rd that unfolding ready_def under_way_def by blast
  have "kept ?d (cs_files x) (cs_files x') \<and> (\<forall>dg. preparing pc' = Some dg \<longrightarrow> image_place R c dg \<noteq> ?d)"
  proof (cases "\<exists>m dg. in_flight pc = Some (m, dg) \<and> image_place R c dg = ?d")
    case True
    then obtain m dg where fl: "in_flight pc = Some (m, dg)" "image_place R c dg = ?d" by blast
    have "preparing pc = None"
    proof (rule ccontr)
      assume "preparing pc \<noteq> None"
      then obtain dg' where "preparing pc = Some dg'" by blast
      moreover from preparing_in_flight [OF this] fl(1) have "dg' = dg" by simp
      ultimately show False using others [OF i(1), of dg] i(2) fl(2) by simp
    qed
    then show ?thesis using tf fl rd by (simp add: ready_def)
  next
    case False
    then show ?thesis using tf preparing_before [OF takes_turn(4)] by metis
  qed
  then show ?thesis
    using kept_complete rd others under_way_update [OF i(1)] ps' unfolding ready_def by blast
qed

text \<open>Calls that wait for a flight that has gone well: some call's directory for their digest is ready.\<close>

definition joined_ok ::
  "'g group_ops \<Rightarrow> string list \<Rightarrow> string \<Rightarrow> (ensure_call \<times> ensure_pc) list \<Rightarrow> 'g cache_state \<Rightarrow> bool" where
  "joined_ok sf R t ps x \<longleftrightarrow>
     (\<forall>i<length ps. \<forall>n dg. snd (ps ! i) = Waiting n dg \<longrightarrow> sf_result sf (cs_group x) n = Some None \<longrightarrow>
        (\<exists>j<length ps. ec_digest (fst (ps ! j)) = Inr dg \<and> ready R t ps (cs_files x) (image_place R (fst (ps ! j)) dg)))"

lemma finishing_ready:
  assumes inv: "cache_inv sf R f0 t calls ps x" and ok: "calls_ok calls" and i: "i < length ps" "snd (ps ! i) = Finishing n dg None"
  shows "ready R t ps (cs_files x) (image_place R (fst (ps ! i)) dg) \<and> ec_digest (fst (ps ! i)) = Inr dg"
proof -
  have "\<not> under_way R ps (image_place R (fst (ps ! i)) dg)"
    using under_way_own [OF inv ok i(1), of n dg] i(2) by auto
  then show ?thesis using cache_invD(4,5) [OF inv i(1)] i(2) by (simp add: ready_def)
qed

context singleflight
begin

lemma cache_inv_step:
  assumes inv: "cache_inv sf R f0 t calls ps x" and ok: "calls_ok calls" and ca: "cache_at ic cs R f0 t"
    and step: "calls_step sf ic (ps, x) (ps', x')"
  shows "cache_inv sf R f0 t calls ps' x'"
  using step
proof (cases rule: calls_step.cases)
  case (takes_turn i c pc pc')
  have i: "i < length ps" "ps ! i = (c, pc)" and ps': "ps' = ps[i := (c, pc')]" using takes_turn by simp_all
  note tf = turn_files [OF inv ok ca i takes_turn(4)]
  have old: "fst (ps ! i) = c" "snd (ps ! i) = pc" using i(2) by simp_all
  have flying: "kept (image_place R (fst (ps ! j)) dg) (cs_files x) (cs_files x')"
    if j: "j < length ps" "j \<noteq> i" "in_flight (snd (ps ! j)) = Some (m, dg)" for j m dg
  proof -
    have "\<nexists>m' dg'. in_flight pc = Some (m', dg') \<and> image_place R c dg' = image_place R (fst (ps ! j)) dg"
      using flights_apart [OF inv ok j(1) i(1) j(3)] old j(2) by metis
    then show ?thesis using tf by (simp add: image_place_def)
  qed
  have stage: "stage_ok R t (cs_files x') (fst (ps ! j)) (snd (ps ! j))" if j: "j < length ps" "j \<noteq> i" for j
  proof (cases "in_flight (snd (ps ! j))")
    case None
    then show ?thesis by (cases "snd (ps ! j)") simp_all
  next
    case (Some p)
    obtain m dg where p: "in_flight (snd (ps ! j)) = Some (m, dg)" using Some by (cases p) simp
    show ?thesis by (rule kept_stage [OF flying [OF j p] in_flight_digest [OF p] cache_invD(4) [OF inv j(1)]])
  qed
  have dgs: "ec_digest c = Inr dg" if "pc_digest pc' = Some dg" for dg
  proof (cases "pc_digest pc")
    case None
    then show ?thesis
      using takes_turn(4) that by (cases pc) (auto split: sum.splits)
  next
    case (Some dg')
    then show ?thesis using step_digest [OF takes_turn(4) _ that] cache_invD(5) [OF inv i(1)] old by auto
  qed
  have dirs: "complete t (R @ [n, s]) (cs_files x') \<or> under_way R ps' (R @ [n, s])"
    if there: "nodes (cs_files x') (R @ [n, s]) \<noteq> None" for n s
  proof (cases "\<exists>m dg. in_flight pc = Some (m, dg) \<and> image_place R c dg = R @ [n, s]")
    case True
    then obtain m dg where "in_flight pc = Some (m, dg)" "image_place R c dg = R @ [n, s]" by blast
    then show ?thesis using tf there under_way_update [OF i(1)] ps' by metis
  next
    case False
    then have k: "kept (R @ [n, s]) (cs_files x) (cs_files x')" using tf by blast
    then have "complete t (R @ [n, s]) (cs_files x) \<or> under_way R ps (R @ [n, s])"
      using cache_invD(6) [OF inv] there kept_here [OF k] by simp
    then show ?thesis
    proof
      assume "under_way R ps (R @ [n, s])"
      then obtain j dg where j: "j < length ps" "preparing (snd (ps ! j)) = Some dg" "image_place R (fst (ps ! j)) dg = R @ [n, s]"
        by (auto simp: under_way_def)
      then have "j \<noteq> i" using False preparing_in_flight [OF j(2)] old by auto
      then show ?thesis using j under_way_update [OF i(1)] ps' by blast
    qed (use kept_complete [OF k] in blast)
  qed
  have "(map fst ps)[i := c] = map fst ps" using list_update_id [of "map fst ps" i] i by simp
  then have "map fst ps' = calls" using cache_invD(3) [OF inv] ps' by (simp add: map_update)
  moreover have "flights_inv sf ps' (cs_group x')" by (rule flights_step [OF step cache_invD(1) [OF inv]])
  moreover have "stage_ok R t (cs_files x') (fst (ps' ! j)) (snd (ps' ! j)) \<and>
      (\<forall>dg. pc_digest (snd (ps' ! j)) = Some dg \<longrightarrow> ec_digest (fst (ps' ! j)) = Inr dg)" if "j < length ps'" for j
    using that stage tf dgs cache_invD(5) [OF inv] ps' by (cases "j = i") auto
  ultimately show ?thesis using tf dirs unfolding cache_inv_def by blast
qed

lemma joined_step:
  assumes inv: "cache_inv sf R f0 t calls ps x" and ok: "calls_ok calls" and ca: "cache_at ic cs R f0 t"
    and step: "calls_step sf ic (ps, x) (ps', x')" and jo: "joined_ok sf R t ps x"
  shows "joined_ok sf R t ps' x'"
  unfolding joined_ok_def
proof (intro allI impI)
  fix j m dg
  assume j: "j < length ps'" "snd (ps' ! j) = Waiting m dg" "sf_result sf (cs_group x') m = Some None"
  show "\<exists>k<length ps'. ec_digest (fst (ps' ! k)) = Inr dg \<and> ready R t ps' (cs_files x') (image_place R (fst (ps' ! k)) dg)"
    using step
  proof (cases rule: calls_step.cases)
    case (takes_turn i c pc pc')
    have i: "i < length ps" "ps ! i = (c, pc)" and ps': "ps' = ps[i := (c, pc')]" using takes_turn by simp_all
    note fi = cache_invD(1) [OF inv]
    have calls: "fst (ps' ! k) = fst (ps ! k)" if "k < length ps" for k using that i ps' by (cases "k = i") auto
    have result: thesis if r: "\<And>k. k < length ps \<Longrightarrow> ec_digest (fst (ps ! k)) = Inr dg \<Longrightarrow>
        ready R t ps (cs_files x) (image_place R (fst (ps ! k)) dg) \<Longrightarrow> thesis" 
      and old: "j < length ps" "snd (ps ! j) = Waiting m dg" "sf_result sf (cs_group x) m = Some None" for thesis
      using jo old r unfolding joined_ok_def by blast
    have "\<exists>k<length ps. ec_digest (fst (ps ! k)) = Inr dg \<and> ready R t ps (cs_files x) (image_place R (fst (ps ! k)) dg)"
      using takes_turn(4)
    proof (cases rule: ensure_step_group)
      case same
      then have "j \<noteq> i" using j(2) ps' i by auto
      then show ?thesis using result j ps' same(1) by auto
    next
      case (join dg' n)
      then have g: "sf_flight sf (cs_group x) dg' = Some n \<and> cs_group x' = cs_group x"
        using joins [of "cs_group x" dg'] begins [of "cs_group x" dg'] by (cases "sf_flight sf (cs_group x) dg'") auto
      show ?thesis
      proof (cases "j = i")
        case True
        then have "m = n" using join j(2) ps' i by simp
        then show ?thesis using flightsD(6) [OF fi, of dg' n] g j(3) by simp
      next
        case False
        then show ?thesis using result j ps' g by auto
      qed
    next
      case (begin_flight dg' n)
      then have "j \<noteq> i" using j(2) ps' i by auto
      moreover have none: "sf_flight sf (cs_group x) dg' = None"
        using joins [of "cs_group x" dg'] begin_flight by (cases "sf_flight sf (cs_group x) dg'") auto
      moreover have "sf_result sf (cs_group x') = sf_result sf (cs_group x)" using begins [OF none] begin_flight by auto
      ultimately show ?thesis using result j ps' by auto
    next
      case (finish dg' n r)
      then have ne: "j \<noteq> i" using j(2) ps' i by (auto simp: outcome_def)
      have "in_flight (snd (ps ! i)) = Some (n, dg')" using i finish by simp
      note fl = flightsD(1) [OF fi i(1) this]
      have res: "sf_result sf (cs_group x') = (sf_result sf (cs_group x))(n \<mapsto> r)"
        using finishes [OF fl, of r] finish by simp
      show ?thesis
      proof (cases "m = n")
        case True
        then have "sf_flight sf (cs_group x) dg = Some n"
          using flightsD(4) [OF fi, of j n dg] flightsD(6) [OF fi fl] j ne ps' by auto
        then have "dg = dg'" using flightsD(5) [OF fi _ fl] by blast
        moreover have "r = None" using True res j(3) by simp
        ultimately show ?thesis using finishing_ready [OF inv ok i(1), of n dg] i finish by auto
      next
        case False
        then show ?thesis using result j ne ps' res by auto
      qed
    qed
    then obtain k where k: "k < length ps" "ec_digest (fst (ps ! k)) = Inr dg"
        "ready R t ps (cs_files x) (image_place R (fst (ps ! k)) dg)" by blast
    from ready_turn [OF inv ok ca step k(3) [unfolded image_place_def]] k(1,2) calls [OF k(1)] ps'
    show ?thesis by (auto simp: image_place_def)
  qed
qed

lemma cache_inv_arriving:
  assumes "sf_flight sf g = Map.empty" "cache_at ic cs R f0 t"
  shows "cache_inv sf R f0 t calls (arriving calls) \<lparr>cs_files = f0, cs_group = g\<rparr> \<and>
    joined_ok sf R t (arriving calls) \<lparr>cs_files = f0, cs_group = g\<rparr>"
  using assms flights_arriving [OF assms(1)] cache_good_start [of cs R f0]
  by (auto simp: cache_inv_def joined_ok_def arriving_def cache_at_def o_def)

lemma cache_inv_run:
  assumes run: "calls_run sf ic k (ps, x) (ps', x')" and ok: "calls_ok calls" and ca: "cache_at ic cs R f0 t"
    and inv: "cache_inv sf R f0 t calls ps x" "joined_ok sf R t ps x"
  shows "cache_inv sf R f0 t calls ps' x' \<and> joined_ok sf R t ps' x' \<and>
    (\<forall>n s. ready R t ps (cs_files x) (R @ [n, s]) \<longrightarrow>
       kept (R @ [n, s]) (cs_files x) (cs_files x') \<and> ready R t ps' (cs_files x') (R @ [n, s]))"
  using run inv
proof (induction k "(ps, x)" "(ps', x')" arbitrary: ps' x' rule: calls_run.induct)
  case (more_turns k z)
  obtain qs y where z: "z = (qs, y)" by (cases z)
  note ih = more_turns.hyps(2) [OF z more_turns.prems]
  have step: "calls_step sf ic (qs, y) (ps', x')" using more_turns.hyps(3) z by simp
  show ?case
    using ih cache_inv_step [OF _ ok ca step] joined_step [OF _ ok ca step] ready_turn [OF _ ok ca step] kept_trans by blast
qed simp

end

section \<open>Properties\<close>

lemma reached_inv:
  assumes "singleflight sf" and "sf_flight sf g = Map.empty" and "cache_at ic cs R f0 t" and "calls_ok calls"
    and "calls_run sf ic k (arriving calls, \<lparr>cs_files = f0, cs_group = g\<rparr>) (ps, x)"
  shows "cache_inv sf R f0 t calls ps x \<and> joined_ok sf R t ps x"
  using singleflight.cache_inv_run [OF assms(1,5,4,3)] singleflight.cache_inv_arriving [OF assms(1,2,3)] by blast

lemma cache_at_rest:
  assumes inv: "cache_inv sf R f0 t calls ps x" and ca: "cache_at ic cs R f0 t" and r: "\<forall>i<length ps. returned (snd (ps ! i))"
  shows "cache_at ic cs R (cs_files x) t"
proof -
  have "\<not> under_way R ps d" for d using r by (auto simp: under_way_def returned_def)
  then have "complete t (R @ [n, s]) (cs_files x)" if "nodes (cs_files x) (R @ [n, s]) \<noteq> None" for n s
    using cache_invD(6) [OF inv that] by blast
  then show ?thesis
    using ca cache_host_later [OF _ cache_invD(2) [OF inv]] outside_read [OF cache_goodD(2) [OF cache_invD(2) [OF inv]]]
    by (simp add: cache_at_def)
qed

lemma one_at_work:
  assumes inv: "cache_inv sf R f0 t calls ps x" and ok: "calls_ok calls" and u: "under_way R ps d"
  shows "\<exists>!i. i < length ps \<and> (\<exists>dg. preparing (snd (ps ! i)) = Some dg \<and> image_place R (fst (ps ! i)) dg = d)"
proof (rule ex_ex1I)
  show "\<exists>i. i < length ps \<and> (\<exists>dg. preparing (snd (ps ! i)) = Some dg \<and> image_place R (fst (ps ! i)) dg = d)"
    using u by (auto simp: under_way_def)
  fix i j
  assume "i < length ps \<and> (\<exists>dg. preparing (snd (ps ! i)) = Some dg \<and> image_place R (fst (ps ! i)) dg = d)"
    and "j < length ps \<and> (\<exists>dg. preparing (snd (ps ! j)) = Some dg \<and> image_place R (fst (ps ! j)) dg = d)"
  then show "i = j" using flights_apart [OF inv ok] preparing_in_flight by metis
qed


lemma tree_kept:
  assumes "kept d f f'"
  shows "tree_at f' d = tree_at f d"
proof (rule tree_at_cong)
  show "nodes f' (d @ p) = nodes f (d @ p)" for p by (rule keptD(1) [OF assms])
  show "seen_as f' nd = seen_as f nd" if "nodes f (d @ p) = Some nd" for p nd
    using keptD(2) [OF assms] that by (cases nd) auto
qed

lemma image_reads:
  assumes inv: "cache_inv sf R f0 t calls ps x" and ok: "calls_ok calls" and ca: "cache_at ic cs R f0 t"
    and c: "c \<in> set calls" "ec_digest c = Inr dg" and rd: "complete t (image_place R c dg) (cs_files x)"
  shows "os_ReadFile (cs_files x) (path_join (image_dir ic (ec_ref c) dg # init_place)) = Inr t \<and>
    os_ReadFile (cs_files x) (path_join (image_dir ic (ec_ref c) dg # resolv_place)) = Inr resolv_conf"
proof -
  have p: "plain_list [imageName (ec_ref c), shortSHA dg]" using ok c by (simp add: calls_ok_def)
  have h: "cache_host cs R f0" using ca by (simp add: cache_at_def)
  let ?ds = "cs @ [imageName (ec_ref c), shortSHA dg]"
  have ds: "?ds \<noteq> []" "plain_list ?ds" using h p by (simp_all add: cache_host_def)
  show ?thesis
    using complete_reads [OF h cache_invD(2) [OF inv] p rd [unfolded image_place_def]]
      path_join_abs [OF ds plain_places(1)] path_join_abs [OF ds plain_places(2)]
    by (simp add: image_dir_abs [OF ca p])
qed


section \<open>Examples\<close>

lemma calls_run_append: "calls_run sf ic k y z \<Longrightarrow> calls_run sf ic j z w \<Longrightarrow> calls_run sf ic (j + k) y w"
  by (rotate_tac, induction rule: calls_run.induct) (auto intro: more_turns)

text \<open>Two references to an image, with one base name; one host with an empty cache.\<close>

definition demo_calls :: "ensure_call list" where
  "demo_calls = [demo_call demo_ref, demo_call ''mirror/alpine'']"

lemma demo_cache_at: "cache_at demo_ic [''c''] [''c''] demo_files ''ELF''"
proof -
  have below: "nodes demo_files ([''c''] @ n # s) = None" for n s by (simp add: demo_files_def)
  have out: "outside [''c''] demo_files = demo_files"
    by (auto simp: outside_def demo_files_def strict_prefix_def prefix_def)
  have "cache_host [''c''] [''c''] demo_files"
    unfolding cache_host_def out using wf_demo below
    by (auto simp: demo_files_def plain_elem_def max_links_def two_levels_def)
  moreover have "ic_cacheDir demo_ic = abs_path [''c'']" "is_rooted (ic_vminitPath demo_ic)"
    "os_ReadFile demo_files (ic_vminitPath demo_ic) = Inr ''ELF''" by code_simp+
  ultimately show ?thesis using below by (simp add: cache_at_def out)
qed

lemma demo_calls_ok: "calls_ok demo_calls"
proof -
  have "plain_elem (imageName demo_ref)" "plain_elem (imageName ''mirror/alpine'')" "plain_elem (shortSHA demo_digest)"
    by code_simp+
  then show ?thesis using demo_well_behaved by (auto simp: calls_ok_def demo_calls_def demo_call_def)
qed

text \<open>The first call leads and extracts; the second waits. Then the first has done its work.\<close>

definition leading :: "nat list" where
  "leading = [0, 1, 0, 1, 0, 1, 0, 0, 0, 0]"

lemma demo_extracting:
  obtains ps x where "calls_run listed_ops demo_ic 10 (arriving demo_calls, demo_cache) (ps, x)"
    and "map snd ps = [Extracting 1 demo_digest (tl demo_items), Waiting 1 demo_digest]" and "map fst ps = demo_calls"
proof -
  let ?s = "take_turns listed_ops demo_ic leading (arriving demo_calls, demo_cache)"
  have "map_option fst ?s = Some (zip demo_calls [Extracting 1 demo_digest (tl demo_items), Waiting 1 demo_digest])"
    by code_simp
  then obtain ps x where s: "?s = Some (ps, x)" "ps = zip demo_calls [Extracting 1 demo_digest (tl demo_items), Waiting 1 demo_digest]"
    by auto
  show thesis
    by (rule that [of ps x]) (use take_turns_run [OF s(1)] s(2) in \<open>simp_all add: leading_def demo_calls_def eval_nat_numeral\<close>)
qed


text \<open>Four more entries and three steps: the first call is done. Then both return.\<close>

definition finishing :: "nat list" where
  "finishing = [0, 1, 0, 1, 0, 1, 0, 0, 0, 0, 0, 0, 0, 0, 0, 0]"

lemma demo_both_return:
  obtains ps x ps' x' where "calls_run listed_ops demo_ic 16 (arriving demo_calls, demo_cache) (ps, x)"
    and "ps = zip demo_calls [Finishing 1 demo_digest None, Waiting 1 demo_digest]"
    and "calls_run listed_ops demo_ic 2 (ps, x) (ps', x')"
    and "map snd ps' = [Returned (Inr (abs_path demo_place)), Returned (Inr (abs_path demo_place))]"
proof -
  let ?s = "take_turns listed_ops demo_ic finishing (arriving demo_calls, demo_cache)"
  let ?ps = "zip demo_calls [Finishing 1 demo_digest None, Waiting 1 demo_digest]"
  have "map_option (\<lambda>(ps, x). (ps, cs_group x)) ?s = Some (?ps, ([(demo_digest, 1)], []))" by code_simp
  then obtain x where s: "?s = Some (?ps, x)" and g: "cs_group x = ([(demo_digest, 1)], [])" by auto
  have dir: "image_dir demo_ic demo_ref demo_digest = abs_path demo_place"
    "image_dir demo_ic ''mirror/alpine'' demo_digest = abs_path demo_place" by code_simp+
  let ?x = "x\<lparr>cs_group := ([], [(1, None)])\<rparr>"
  let ?ps' = "zip demo_calls [Returned (Inr (abs_path demo_place)), Returned (Inr (abs_path demo_place))]"
  have "take_turns listed_ops demo_ic [0, 1] (?ps, x) = Some (?ps', ?x)"
    using g dir by (simp add: demo_calls_def demo_call_def listed_ops_def outcome_def)
  from take_turns_run [OF this] have "calls_run listed_ops demo_ic 2 (?ps, x) (?ps', ?x)" by (simp add: eval_nat_numeral)
  moreover have "calls_run listed_ops demo_ic 16 (arriving demo_calls, demo_cache) (?ps, x)"
    using take_turns_run [OF s] by (simp add: finishing_def eval_nat_numeral)
  ultimately show thesis using that [of ?ps x ?ps' ?x] by (simp add: demo_calls_def)
qed


end
