(* ===== verification/Middleware.thy ===== *)
theory Middleware imports Api_Handler begin

text \<open>
  The middleware of internal/api/routes.go around any handler, one that panics too, and that the
  model of the server is this middleware around its routes.
\<close>

section \<open>Handlers\<close>

text \<open>
  A \<open>http.ResponseWriter\<close>: the content type in its header map, the status and the type that have been sent,
  and the body's parts. Headers are sent once.
\<close>

record writer =
  wr_header :: "string option"
  wr_sent :: "(nat \<times> string option) option"
  wr_body :: "body list"

definition new_writer :: writer where
  "new_writer = \<lparr>wr_header = None, wr_sent = None, wr_body = []\<rparr>"

definition WriteHeader :: "nat \<Rightarrow> writer \<Rightarrow> writer" where
  "WriteHeader st w = (if wr_sent w = None then w\<lparr>wr_sent := Some (st, wr_header w)\<rparr> else w)"

definition Write :: "body \<Rightarrow> writer \<Rightarrow> writer" where
  "Write b w = (let w' = WriteHeader 200 w in w'\<lparr>wr_body := wr_body w' @ [b]\<rparr>)"

definition set_type :: "string \<Rightarrow> writer \<Rightarrow> writer" where
  "set_type t w = w\<lparr>wr_header := Some t\<rparr>"

text \<open>The library's \<open>http.Error\<close>.\<close>

definition write_Error :: "nat \<Rightarrow> string \<Rightarrow> writer \<Rightarrow> writer" where
  "write_Error st msg w = Write (Plain_Text msg) (WriteHeader st (set_type ''text/plain; charset=utf-8'' w))"

datatype finish = Returned | Panicked string

datatype log_entry = Log_Request string "string list" | Log_Panic string

text \<open>A handler changes the writer, the log and the server's state; \<open>None\<close>: it does not return.\<close>

type_synonym 's http_handler =
  "http_request \<Rightarrow> writer \<times> log_entry list \<times> 's \<Rightarrow> (finish \<times> writer \<times> log_entry list \<times> 's) option"

definition typed_handler :: "'s http_handler \<Rightarrow> 's http_handler" where
  "typed_handler next r = (\<lambda>(w, l, s). next r (set_type ''application/json'' w, l, s))"

definition logger :: "'s http_handler \<Rightarrow> 's http_handler" where
  "logger next r = (\<lambda>(w, l, s). next r (w, l @ [Log_Request (rq_method r) (rq_path r)], s))"

definition recoverer :: "'s http_handler \<Rightarrow> 's http_handler" where
  "recoverer next r x =
     (case next r x of
        Some (Panicked e, w, l, s) \<Rightarrow>
          Some (Returned, write_Error 500 ''Internal Server Error'' w, l @ [Log_Panic e], s)
      | y \<Rightarrow> y)"

definition WithMiddleware :: "'s http_handler \<Rightarrow> 's http_handler" where
  "WithMiddleware h = recoverer (logger (typed_handler h))"

section \<open>What reaches the client\<close>

lemmas writer_defs = WriteHeader_def Write_def set_type_def write_Error_def new_writer_def

text \<open>No panic gets through.\<close>

lemma recoverer_returns: "recoverer h r x = Some (fin, y) \<Longrightarrow> fin = Returned"
  by (auto simp: recoverer_def split: option.splits finish.splits)

lemma recoverer_stuck: "recoverer h r x = None \<longleftrightarrow> h r x = None"
  by (auto simp: recoverer_def split: option.splits finish.splits)

text \<open>
  A handler that panics before it has written is answered with 500; one that has sent its headers
  keeps its status, and the text is added to what it has sent of its body.
\<close>

lemma panic_answer:
  assumes "h r (set_type ''application/json'' w, l @ [Log_Request (rq_method r) (rq_path r)], s) =
      Some (Panicked e, w', l', s')"
  shows "WithMiddleware h r (w, l, s) =
    Some (Returned,
      w'\<lparr>wr_header := Some ''text/plain; charset=utf-8'',
         wr_sent := Some (case wr_sent w' of None \<Rightarrow> (500, Some ''text/plain; charset=utf-8'') | Some x \<Rightarrow> x),
         wr_body := wr_body w' @ [Plain_Text ''Internal Server Error'']\<rparr>,
      l' @ [Log_Panic e], s')"
  using assms
  by (auto simp: WithMiddleware_def recoverer_def logger_def typed_handler_def writer_defs Let_def split: option.splits)

text \<open>The routes as a handler: it writes the response of the model.\<close>

definition write_response :: "response \<Rightarrow> writer \<Rightarrow> writer" where
  "write_response p w =
     (let w' = WriteHeader (status p) (case content_type p of None \<Rightarrow> w | Some t \<Rightarrow> set_type t w)
      in if resp_body p = No_Body then w' else Write (resp_body p) w')"

definition mux_handler :: "image_cache \<Rightarrow> api_env \<Rightarrow> (mgr \<times> thread list) http_handler" where
  "mux_handler cache env r = (\<lambda>(w, l, s, ms).
     map_option (\<lambda>(p, s', ts). (Returned, write_response p w, l, s', ms @ ts)) (serve_mux cache env r s))"

definition sent :: "response \<Rightarrow> writer" where
  "sent p =
     \<lparr>wr_header = content_type p, wr_sent = Some (status p, content_type p),
      wr_body = (if resp_body p = No_Body then [] else [resp_body p])\<rparr>"

lemma write_typed_response:
  "write_response p (set_type ''application/json'' new_writer) = sent (setContentType p)"
  by (cases p; cases "content_type p")
    (simp_all add: write_response_def sent_def setContentType_def writer_defs Let_def)

text \<open>The server of the model is the middleware around the routes.\<close>

lemma server_is_middleware:
  "WithMiddleware (mux_handler cache env) r (new_writer, l, s, ms) =
     map_option (\<lambda>(p, s', ts). (Returned, sent p, l @ [Log_Request (rq_method r) (rq_path r)], s', ms @ ts))
       (serve cache env r s)"
  by (cases "serve_mux cache env r s")
    (auto simp: WithMiddleware_def recoverer_def logger_def typed_handler_def mux_handler_def serve_def
      write_typed_response)

end
