(* ===== verification/Spec2Isabelle.thy ===== *)
theory Spec2Isabelle imports Handshake Resize Network Vm_Process Registry Operations Krun_Lib
  Exec_Chain Krun_Api Exec_Server Machine_Image Ensure_Cache Middleware begin

text \<open>
  krun-api runs container images as microVMs. This is a model of its Go code, and proofs about it.

  \<^bold>\<open>The program.\<close> krun-api (cmd/krun-api) is an HTTP server (internal/api) over a manager of
  machines (machine). Creating a machine takes an image from a cache of extracted images and clones
  its directory; starting one makes a virtual network (network) and a child process (krun/vm.go);
  the child, krun-vmm, reads its configuration from standard input and enters a VM through libkrun
  (krun/lib.go). In the guest vminit (cmd/vminit) is init: it sets the guest up, runs the image's
  command, serves a shutdown call and exec sessions. krun-run creates and starts a machine for an
  image, krun-exec opens a session in a running one.

  \<^bold>\<open>Theories.\<close>
  \<^item> Prelude, Go_Strings, Go_Path, Abs_Path: basic types; the functions of Go's strings, strconv and
    path/filepath that are used, with their laws.
  \<^item> Io_Reader: the contract of \<open>io.Reader\<close> as two locales, interpreted on connections.
  \<^item> Machine, Mac_Address (over Sha256): machine/machine.go, machine/mac.go.
  \<^item> Network: network/. Vm_Process: krun/vm.go, a child, its exit channel and \<open>Stop\<close> as steps.
  \<^item> Manager: machine/manager.go. Each operation is a sequence of program points, one for each access to
    shared state; \<open>thread_step\<close> makes one step, \<open>run_thread\<close> a call without interference.
    Operations: what calls do alone. Lifecycle: all interleavings of threads and of the world, under a
    discipline for what clients call and which calls get past their guards. Registry: calm clients,
    one call at work on a machine at a time, others rejected; an abstract automaton of states.
  \<^item> Clone: machine/clone.go, over any \<open>clonefileat\<close> that satisfies a locale; machines on the host's disk.
    Machine_Image: from the image cache to a machine's disk.
  \<^item> Krun_Lib: krun/lib.go, loading, all 57 wrappers and the C strings, over any libkrun; Krun_Const: its
    constants. Krun_Vmm: cmd/krun-vmm, run on a library that records its calls.
  \<^item> Api_Handler: internal/api/handler.go, routes.go, types.go, handlers over the manager's model.
    Middleware: the handlers around them. Api_Table: the abstract table of machines that a client sees.
  \<^item> File_System: the host's directories, files and links, as the \<open>os\<close> package uses them;
    Confinement: what keeps writing inside a directory; Image_Cache: internal/api/image_cache.go and
    internal/cli/rootfs.go. Image_Config: internal/cli/image.go and image references.
    Ensure_Threads: calls of \<open>Ensure\<close> that overlap, over any group that satisfies a locale; Cache_Files: the
    cache's directory with several images in it; Ensure_Cache: its invariant.
  \<^item> Krun_Run: cmd/krun-run and internal/cli/client.go. Krun_Api: cmd/krun-api.
  \<^item> Handshake, Resize, Exec_Session: exec sessions of cmd/vminit with their protocol, and the client's side
    in cmd/krun-exec; Krun_Exec: the rest of krun-exec and the two ends together.
  \<^item> Vminit: \<open>main\<close> of cmd/vminit, a step relation with the rest of the guest around it. Exec_Server: its
    vsock connections, the accept loop, the end of a session, the reaper. Shutdown_Rpc: the generated
    client and handler (gen/vminit), and \<open>Stop\<close> on the host beside the guest.
  \<^item> Boot_Chain: from a user's command line to the guest, each component's model run on the
    output of the one before. Run_Chain: krun-run against the model of the server. Exec_Chain: krun-exec
    against it, and on into the guest.

  \<^bold>\<open>Conventions.\<close> A Go error is an option or the left side of a sum, with the texts where a client sees
  them. Integers have their width where the code converts (\<open>uint8\<close>, \<open>uint32\<close>, \<open>uint16\<close>). Maps of the
  manager are partial functions, maps that are ranged over are lists of distinct keys in any order.
  Pointers are numbers into stores. What code outside the repository or the world answers is an
  argument: system calls, timers and library results in a record of answers for each call, the
  registry, libkrun, the singleflight group and JSON decoding as functions or results.
  What a part relies on of another is a locale: \<open>io_reader\<close> for connections, \<open>clonefile\<close> for the
  system call that clones, \<open>singleflight\<close> for the group of \<open>Ensure\<close>, \<open>machine_server\<close> for krun-run's server,
  each interpreted on a model of its own.

  \<^bold>\<open>What is shown.\<close>
  \<^item> Lifecycle of machines: every live child is in some thread's care in all interleavings; with one call
    at work per machine, and any number that are rejected, a running machine has its VM and network
    registered and one monitor, never two children, and states move along the automaton's edges. A client that
    is serial but does not wait for the monitor can lose a child (\<open>serial_client_orphans_child\<close>).
  \<^item> Operations: success and each failure of start, create, delete and stop; what is rejected; what no
    step ever changes; sizes that wrap; disjoint file names; \<open>Stop\<close> returns and leaves no live child.
  \<^item> The HTTP interface: it refines a table of machines; types of responses, creation followed by a lookup,
    errors without effects. The shutdown of the server stops all machines, except for starts served meanwhile.
    No two machines share their disks, and no machine changes an image.
  \<^item> The chain: krun-run's request gives a machine whose child configures libkrun for it, and the guest runs
    the image's command; what krun-run's exit says about the server; krun-exec gets into a session of a
    started machine through the socket its child has mapped. krun-vmm enters no VM that is not
    configured. The guest is powered off last, after its command; a graceful \<open>Stop\<close> gets there, with the
    disks synced.
  \<^item> Sessions: the handshake and its round trip, the stream with resize messages as a reference function
    of the bytes however they are cut into reads, the client's and the guest's end together, the
    inputs for which the protocol fails, and that a session ends.
  \<^item> Images: a call of \<open>Ensure\<close> that is alone gives a complete directory or none and touches nothing else, if
    nothing in the image goes through its own links; what happens otherwise. Of calls that overlap, from a
    cache on that is empty or has complete images: each directory is absent, in the care of one call, or ready
    for good; all calls return, and leave such a cache. The check before the group can still take a directory in preparation for a cached image
    (\<open>Ensure_returns_unready\<close>).

  \<^bold>\<open>Bounds.\<close> Loops are structural recursions or functions with a measure; no fuel is used. \<open>run_thread\<close>
  takes one answer per step and stops where they end, so statements about its result say how many
  suffice (five for \<open>Start\<close>, two for \<open>Create\<close> and \<open>Delete\<close>, at most fourteen steps for \<open>Stop\<close> besides polling).
  Path resolution follows at most 32 links, as macOS does. An entry of an image, each of the two preparations and
  \<open>MkdirAll\<close> are one turn of a call of \<open>Ensure\<close>, whose calls take any number of turns in any order.

  \<^bold>\<open>Not modelled.\<close> The reflection tables of the generated messages; texts of log output; flag parsing
  and JSON encoding (decoded values are arguments); the bytes from the guest's terminal to the client;
  permissions, full disks and case-insensitive names of the host's file system; data races on
  fields read without their mutex (each access is a step).

  \<^bold>\<open>Next.\<close> \<open>StopAll\<close> as a thread among others; data races as steps of their own; a server that is killed while it
  prepares an image.
\<close>

end
